(* ===== verification/Prelude.thy ===== *)
theory Prelude
  imports Main "HOL-Library.Word" "HOL-Library.While_Combinator"
    "HOL-Library.List_Lexorder" "HOL-Library.Char_ord"
begin

text \<open>
  The vocabulary the component theories share: byte strings and the searches the
  code runs on them, C character classes, the number parsers and printers of the C and
  C++ libraries, sorted association lists for \<open>std::map\<close>, and the machine integer
  widths. A byte (\<open>char\<close>, \<open>uint8_t\<close>) is a HOL character, which has the same
  256 values, so \<open>std::string\<close> and \<open>std::vector<uint8_t>\<close> are both
  \<open>string\<close>. The last part collects the facts on searching and on numbers that the
  components' proofs use (\<open>search_simps\<close>, \<open>num_simps\<close>).
\<close>

named_theorems search_simps \<open>results of searches in a byte string\<close>
named_theorems num_simps \<open>parsing and printing of numbers\<close>
named_theorems frame \<open>fields an operation leaves alone\<close>

section \<open>Machine integers\<close>

type_synonym u64 = "64 word"
type_synonym u32 = "32 word"
type_synonym u16 = "16 word"
type_synonym bytes = string

abbreviation INT_MAX :: int where "INT_MAX \<equiv> 2147483647"
abbreviation INT_MIN :: int where "INT_MIN \<equiv> -2147483648"

text \<open>The conversion of an integer to a 32-bit \<open>int\<close>, as a narrowing cast does it.\<close>

definition to_int32 :: "int \<Rightarrow> int" where
  "to_int32 i = (i + 2147483648) mod 4294967296 - 2147483648"

section \<open>Searching\<close>

abbreviation CR :: char where "CR \<equiv> CHR 0x0D"
abbreviation LF :: char where "LF \<equiv> CHR 0x0A"
abbreviation crlf :: bytes where "crlf \<equiv> [CHR 0x0D, CHR 0x0A]"

text \<open>\<open>std::search\<close> and \<open>std::string::find\<close>: the first position of a pattern.\<close>

fun find_sub :: "'a list \<Rightarrow> 'a list \<Rightarrow> nat option" where
  "find_sub p [] = (if p = [] then Some 0 else None)"
| "find_sub p (x # xs) =
     (if take (length p) (x # xs) = p then Some 0 else map_option Suc (find_sub p xs))"

text \<open>\<open>s.find(p, pos)\<close>, a position counted from the start of the string.\<close>

definition find_from :: "'a list \<Rightarrow> 'a list \<Rightarrow> nat \<Rightarrow> nat option" where
  "find_from p s pos =
     (if pos \<le> length s then map_option (\<lambda>i. i + pos) (find_sub p (drop pos s)) else None)"

text \<open>\<open>s.find(c)\<close>, \<open>std::find\<close> and \<open>memchr\<close>: the first position of a character.\<close>

fun find_char :: "'a \<Rightarrow> 'a list \<Rightarrow> nat option" where
  "find_char c [] = None"
| "find_char c (x # xs) = (if x = c then Some 0 else map_option Suc (find_char c xs))"

text \<open>\<open>s.rfind(c)\<close>: the last position of a character.\<close>

definition rfind_char :: "'a \<Rightarrow> 'a list \<Rightarrow> nat option" where
  "rfind_char c s = map_option (\<lambda>i. length s - Suc i) (find_char c (rev s))"

text \<open>\<open>s.substr(pos, n)\<close> for a position that is inside the string.\<close>

definition substr :: "'a list \<Rightarrow> nat \<Rightarrow> nat \<Rightarrow> 'a list" where
  "substr s pos n = take n (drop pos s)"

text \<open>Dropping the trailing elements that satisfy a predicate.\<close>

definition rdrop :: "('a \<Rightarrow> bool) \<Rightarrow> 'a list \<Rightarrow> 'a list" where
  "rdrop P s = rev (dropWhile P (rev s))"

section \<open>Character classes of the C locale\<close>

definition ordc :: "char \<Rightarrow> nat" where
  "ordc c = of_char c"

definition is_space :: "char \<Rightarrow> bool" where
  "is_space c = (ordc c = 32 \<or> (9 \<le> ordc c \<and> ordc c \<le> 13))"

definition is_digit :: "char \<Rightarrow> bool" where
  "is_digit c = (48 \<le> ordc c \<and> ordc c \<le> 57)"

definition is_upper :: "char \<Rightarrow> bool" where
  "is_upper c = (65 \<le> ordc c \<and> ordc c \<le> 90)"

definition is_lower :: "char \<Rightarrow> bool" where
  "is_lower c = (97 \<le> ordc c \<and> ordc c \<le> 122)"

definition is_alnum :: "char \<Rightarrow> bool" where
  "is_alnum c = (is_digit c \<or> is_upper c \<or> is_lower c)"

definition to_lower :: "char \<Rightarrow> char" where
  "to_lower c = (if is_upper c then char_of (ordc c + 32) else c)"

text \<open>\<open>strcasecmp(a, b) == 0\<close>.\<close>

definition strcaseeq :: "string \<Rightarrow> string \<Rightarrow> bool" where
  "strcaseeq a b = (map to_lower a = map to_lower b)"

text \<open>What a C string function sees of a string: up to its first NUL.\<close>

definition c_str :: "string \<Rightarrow> string" where
  "c_str s = takeWhile (\<lambda>c. c \<noteq> CHR 0x00) s"

section \<open>Numbers as text\<close>

text \<open>\<open>std::to_string\<close> on an unsigned and on a signed number.\<close>

definition digit_char :: "nat \<Rightarrow> char" where
  "digit_char d = char_of (48 + d)"

fun dec :: "nat \<Rightarrow> string" where
  "dec n = (if n < 10 then [digit_char n] else dec (n div 10) @ [digit_char (n mod 10)])"

declare dec.simps [simp del]

definition dec_int :: "int \<Rightarrow> string" where
  "dec_int i = (if i < 0 then CHR ''-'' # dec (nat (- i)) else dec (nat i))"

fun digits_val :: "nat \<Rightarrow> string \<Rightarrow> nat" where
  "digits_val acc [] = acc"
| "digits_val acc (c # cs) = digits_val (10 * acc + (ordc c - 48)) cs"

text \<open>
  The common part of \<open>strtol\<close> in base 10: leading white space, an optional sign, then
  the longest run of digits. \<open>None\<close> when there is no digit.
\<close>

definition strtol10 :: "string \<Rightarrow> int option" where
  "strtol10 s =
     (let t = dropWhile is_space s;
          neg = (t \<noteq> [] \<and> hd t = CHR ''-'');
          u = (if t \<noteq> [] \<and> (hd t = CHR ''-'' \<or> hd t = CHR ''+'') then tl t else t);
          ds = takeWhile is_digit u
      in if ds = [] then None
         else Some (if neg then - int (digits_val 0 ds) else int (digits_val 0 ds)))"

datatype num_error = Invalid_argument | Out_of_range

text \<open>\<open>std::stoi\<close> throws when there is no number and when it does not fit an \<open>int\<close>.\<close>

definition stoi :: "string \<Rightarrow> num_error + int" where
  "stoi s =
     (case strtol10 s of
        None \<Rightarrow> Inl Invalid_argument
      | Some v \<Rightarrow> if v < INT_MIN \<or> INT_MAX < v then Inl Out_of_range else Inr v)"

text \<open>
  \<open>atoi\<close> reports nothing: no number is 0, and a number that does not fit goes through
  \<open>strtol\<close>, which saturates at 64 bits, and the narrowing cast.
\<close>

definition atoi :: "string \<Rightarrow> int" where
  "atoi s =
     (case strtol10 s of
        None \<Rightarrow> 0
      | Some v \<Rightarrow> to_int32 (max (- (2 ^ 63)) (min (2 ^ 63 - 1) v)))"

text \<open>A hexadecimal digit's value.\<close>

definition hex_digit :: "char \<Rightarrow> nat option" where
  "hex_digit c =
     (if is_digit c then Some (ordc c - 48)
      else if 97 \<le> ordc c \<and> ordc c \<le> 102 then Some (ordc c - 87)
      else if 65 \<le> ordc c \<and> ordc c \<le> 70 then Some (ordc c - 55)
      else None)"

fun hex_val :: "nat \<Rightarrow> string \<Rightarrow> nat" where
  "hex_val acc [] = acc"
| "hex_val acc (c # cs) =
     (case hex_digit c of None \<Rightarrow> acc | Some d \<Rightarrow> hex_val (16 * acc + d) cs)"

text \<open>
  \<open>iss >> std::hex >> n\<close> on a short string: white space is skipped, a sign is read,
  then hexadecimal digits; without a digit the result is 0. When nothing but white space
  is left the extraction does not touch \<open>n\<close>, which keeps its previous (here
  indeterminate) value \<open>old\<close>.
\<close>

definition extract_hex :: "int \<Rightarrow> string \<Rightarrow> int" where
  "extract_hex old s =
     (let t = dropWhile is_space s in
      case t of
        [] \<Rightarrow> old
      | c # r \<Rightarrow>
          if c = CHR ''-'' then - int (hex_val 0 r)
          else if c = CHR ''+'' then int (hex_val 0 r)
          else int (hex_val 0 t))"

section \<open>Ordered maps\<close>

text \<open>
  \<open>std::map\<close> is iterated in key order, so it is an association list sorted by key;
  \<open>m[k] = v\<close> is \<open>amap_put\<close>.
\<close>

type_synonym ('k, 'v) amap = "('k \<times> 'v) list"

fun amap_put :: "'k::linorder \<Rightarrow> 'v \<Rightarrow> ('k, 'v) amap \<Rightarrow> ('k, 'v) amap" where
  "amap_put k v [] = [(k, v)]"
| "amap_put k v ((k', v') # m) =
     (if k < k' then (k, v) # (k', v') # m
      else if k = k' then (k, v) # m
      else (k', v') # amap_put k v m)"

definition amap_ok :: "('k::linorder, 'v) amap \<Rightarrow> bool" where
  "amap_ok m = sorted_wrt (<) (map fst m)"

text \<open>A lookup that falls back to the empty string, as the code's getters do.\<close>

definition lookup_str :: "('k \<rightharpoonup> string) \<Rightarrow> 'k \<Rightarrow> string" where
  "lookup_str m k = (case m k of None \<Rightarrow> [] | Some v \<Rightarrow> v)"

section \<open>Facts on searching\<close>

lemma find_sub_SomeD:
  "find_sub p s = Some i \<Longrightarrow> i + length p \<le> length s \<and> take (length p) (drop i s) = p"
proof (induction p s arbitrary: i rule: find_sub.induct)
  case (1 p)
  then show ?case by (simp split: if_splits)
next
  case (2 p x xs)
  show ?case
  proof (cases "take (length p) (x # xs) = p")
    case True
    with "2.prems" have "i = 0" by simp
    moreover from True have "length p \<le> length (x # xs)"
      by (metis length_take min.cobounded1)
    ultimately show ?thesis using True by simp
  next
    case False
    with "2.prems" obtain j where "find_sub p xs = Some j" and "i = Suc j" by auto
    with "2.IH" [OF False] show ?thesis by simp
  qed
qed

lemma find_sub_least:
  "find_sub p s = Some i \<Longrightarrow> j < i \<Longrightarrow> take (length p) (drop j s) \<noteq> p"
proof (induction p s arbitrary: i j rule: find_sub.induct)
  case (1 p)
  then show ?case by (simp split: if_splits)
next
  case (2 p x xs)
  then show ?case by (cases j) (auto split: if_splits)
qed

lemma find_sub_NoneD:
  "find_sub p s = None \<Longrightarrow> j + length p \<le> length s \<Longrightarrow> take (length p) (drop j s) \<noteq> p"
proof (induction p s arbitrary: j rule: find_sub.induct)
  case (1 p)
  then show ?case by (cases p) (simp_all split: if_splits)
next
  case (2 p x xs)
  then show ?case by (cases j) (auto split: if_splits)
qed

lemma find_sub_bound: "find_sub p s = Some i \<Longrightarrow> i + length p \<le> length s"
  by (simp add: find_sub_SomeD)

lemma find_sub_skip [search_simps]:
  "c \<notin> set xs \<Longrightarrow> find_sub (c # p) (xs @ c # p @ r) = Some (length xs)"
  by (induction xs) auto

lemma find_sub_absent:
  "c \<notin> set xs \<Longrightarrow> find_sub (c # p) xs = None"
  by (induction xs) auto

lemma find_char_skip [search_simps]:
  "c \<notin> set xs \<Longrightarrow> find_char c (xs @ c # r) = Some (length xs)"
  by (induction xs) auto

lemma find_char_None [search_simps]: "find_char c xs = None \<longleftrightarrow> c \<notin> set xs"
  by (induction xs) auto

lemma find_char_SomeD:
  "find_char c xs = Some i \<Longrightarrow> i < length xs \<and> xs ! i = c \<and> c \<notin> set (take i xs)"
  by (induction xs arbitrary: i) (auto split: if_splits)

lemma find_char_bound: "find_char c xs = Some i \<Longrightarrow> i < length xs"
  by (simp add: find_char_SomeD)

lemma find_from_SomeD:
  "find_from p s pos = Some i \<Longrightarrow> pos \<le> i \<and> i + length p \<le> length s"
  by (auto simp: find_from_def dest!: find_sub_bound split: if_splits)

lemma rdrop_idem: "(\<forall>x \<in> set xs. \<not> P x) \<Longrightarrow> rdrop P xs = xs"
  unfolding rdrop_def by (metis dropWhile_eq_self_iff hd_in_set rev_rev_ident set_rev)

lemma rdrop_last: "xs = [] \<or> \<not> P (last xs) \<Longrightarrow> rdrop P xs = xs"
  unfolding rdrop_def by (metis dropWhile_eq_self_iff hd_rev rev_is_Nil_conv rev_rev_ident)

lemma dropWhile_hd: "xs = [] \<or> \<not> P (hd xs) \<Longrightarrow> dropWhile P xs = xs"
  by (cases xs) auto

section \<open>Facts on numbers\<close>

lemma ordc_digit_char [num_simps]: "d < 10 \<Longrightarrow> ordc (digit_char d) = 48 + d"
  by (simp add: ordc_def digit_char_def)

lemma digit_char_eval [num_simps]:
  "digit_char 0 = CHR ''0''" "digit_char (Suc 0) = CHR ''1''" "digit_char 2 = CHR ''2''"
  "digit_char 3 = CHR ''3''" "digit_char 4 = CHR ''4''" "digit_char 5 = CHR ''5''"
  "digit_char 6 = CHR ''6''" "digit_char 7 = CHR ''7''" "digit_char 8 = CHR ''8''"
  "digit_char 9 = CHR ''9''"
  by code_simp+

lemma is_digit_digit_char [num_simps]: "d < 10 \<Longrightarrow> is_digit (digit_char d)"
  by (simp add: is_digit_def ordc_digit_char)

lemma dec_nonempty [simp]: "dec n \<noteq> []"
  by (subst dec.simps) simp

lemma dec_digits: "\<forall>c \<in> set (dec n). is_digit c"
proof (induction n rule: dec.induct)
  case (1 n)
  then show ?case by (subst dec.simps) (auto simp: num_simps)
qed

lemma digits_val_append: "digits_val a (xs @ ys) = digits_val (digits_val a xs) ys"
  by (induction xs arbitrary: a) auto

lemma digits_val_dec [num_simps]: "digits_val 0 (dec n) = n"
proof (induction n rule: dec.induct)
  case (1 n)
  then show ?case
    by (subst dec.simps) (auto simp: digits_val_append num_simps)
qed

lemma digit_not_space: "is_digit c \<Longrightarrow> \<not> is_space c"
  by (auto simp: is_digit_def is_space_def)

lemma digit_not_sign: "is_digit c \<Longrightarrow> c \<noteq> CHR ''-'' \<and> c \<noteq> CHR ''+''"
  by (auto simp: is_digit_def ordc_def)

lemma strtol10_dec [num_simps]: "strtol10 (dec n) = Some (int n)"
proof -
  have digits: "\<forall>c \<in> set (dec n). is_digit c" by (rule dec_digits)
  then have d: "is_digit (hd (dec n))" by (simp add: hd_in_set)
  then have dw: "dropWhile is_space (dec n) = dec n"
    by (intro dropWhile_hd disjI2) (rule digit_not_space)
  have tw: "takeWhile is_digit (dec n) = dec n"
    using digits by (simp add: takeWhile_eq_all_conv)
  show ?thesis
    using digit_not_sign [OF d] by (simp add: strtol10_def Let_def num_simps dw tw)
qed

lemma stoi_dec [num_simps]: "int n \<le> INT_MAX \<Longrightarrow> stoi (dec n) = Inr (int n)"
  by (simp add: stoi_def num_simps)

lemma stoi_range: "stoi s = Inr v \<Longrightarrow> INT_MIN \<le> v \<and> v \<le> INT_MAX"
  by (auto simp: stoi_def split: option.splits if_splits)

lemma unat_u64 [num_simps]: "n < 2 ^ 64 \<Longrightarrow> unat (of_nat n :: u64) = n"
  by (simp add: unat_of_nat take_bit_nat_eq_self)

lemma unat_u64_diff: "k \<le> n \<Longrightarrow> n < 2 ^ 64 \<Longrightarrow> unat ((of_nat n :: u64) - of_nat k) = n - k"
  by (metis diff_le_self le_less_trans of_nat_diff unat_u64)

lemma u64_le: "m < 2 ^ 64 \<Longrightarrow> n < 2 ^ 64 \<Longrightarrow> ((of_nat m :: u64) \<le> of_nat n) = (m \<le> n)"
  by (simp add: word_le_nat_alt unat_of_nat take_bit_nat_eq_self)

section \<open>Facts on ordered maps\<close>

lemma map_of_amap_put:
  "map_of (amap_put k v m) = (map_of m)(k \<mapsto> v)"
  by (induction k v m rule: amap_put.induct) (auto simp: fun_eq_iff)

lemma set_amap_put: "fst ` set (amap_put k v m) = insert k (fst ` set m)"
  by (induction k v m rule: amap_put.induct) auto

lemma amap_ok_put: "amap_ok m \<Longrightarrow> amap_ok (amap_put k v m)"
proof (induction k v m rule: amap_put.induct)
  case (2 k v k' v' m)
  have keys: "set (map fst (amap_put k v m)) = insert k (set (map fst m))"
    using set_amap_put [of k v m] by simp
  from 2 show ?case by (auto simp: amap_ok_def keys simp del: set_map)
qed (simp add: amap_ok_def)

lemma lookup_str_upd [simp]: "lookup_str (m(k \<mapsto> v)) k' = (if k' = k then v else lookup_str m k')"
  by (simp add: lookup_str_def)

lemma lookup_str_empty [simp]: "lookup_str Map.empty k = []"
  by (simp add: lookup_str_def)

end
