(* ===== verification/HttpRequest.thy ===== *)
theory HttpRequest
  imports Prelude
begin

text \<open>
  The request object of \<open>include/http/my_http_request.h\<close> and
  \<open>src/http/my_http_request.cpp\<close>, with the \<open>FileWriter\<close> it owns. Fields keep
  their names behind the prefix \<open>rq_\<close>. The maps are HOL maps, because no code
  iterates over them; time points are integers. The file stream is the path it is open
  on, its failure flag and what has been written to disk through it.
\<close>

section \<open>FileWriter\<close>

record file_writer =
  fw_file :: "string option"
  fw_fail :: bool
  fw_disk :: "string \<rightharpoonup> bytes"

definition new_writer :: file_writer where
  "new_writer = \<lparr>fw_file = None, fw_fail = False, fw_disk = Map.empty\<rparr>"

text \<open>
  Opening for output truncates the file. A stream that is already open stays on its file
  and goes into the failed state, and the function then still answers true, because it
  asks \<open>is_open()\<close>. Whether the system lets a path be opened is \<open>can_open\<close>.
\<close>

definition initFileStream :: "(string \<Rightarrow> bool) \<Rightarrow> string \<Rightarrow> file_writer \<Rightarrow> bool \<times> file_writer" where
  "initFileStream can_open path w =
     (case fw_file w of
        Some _ \<Rightarrow> (True, w\<lparr>fw_fail := True\<rparr>)
      | None \<Rightarrow>
          if can_open path
          then (True, w\<lparr>fw_file := Some path, fw_fail := False,
                        fw_disk := (fw_disk w)(path \<mapsto> [])\<rparr>)
          else (False, w\<lparr>fw_fail := True\<rparr>))"

definition writeToFile :: "bytes \<Rightarrow> file_writer \<Rightarrow> file_writer" where
  "writeToFile d w =
     (case fw_file w of
        None \<Rightarrow> w
      | Some path \<Rightarrow>
          if fw_fail w then w
          else w\<lparr>fw_disk := (fw_disk w)(path \<mapsto> lookup_str (fw_disk w) path @ d)\<rparr>)"

definition closeFileStream :: "file_writer \<Rightarrow> file_writer" where
  "closeFileStream w = w\<lparr>fw_file := None\<rparr>"

section \<open>HttpRequest\<close>

datatype http_method = kInvalid | kGet | kPost | kHead | kPut | kDelete | kOptions

record http_request =
  rq_method :: http_method
  rq_version :: string
  rq_path :: string
  rq_pathParameters :: "string \<rightharpoonup> string"
  rq_queryParameters :: "string \<rightharpoonup> string"
  rq_receiveTime :: int
  rq_headers :: "string \<rightharpoonup> string"
  rq_content :: bytes
  rq_contentLength :: u64
  rq_boundary :: string
  rq_fileHeader :: string
  rq_fileWriter :: file_writer
  rq_formFields :: "string \<rightharpoonup> string"
  rq_uploadedFiles :: "string list"
  rq_connection :: "nat option"

definition new_request :: http_request where
  "new_request =
     \<lparr>rq_method = kInvalid, rq_version = ''Unknown'', rq_path = [],
      rq_pathParameters = Map.empty, rq_queryParameters = Map.empty, rq_receiveTime = 0,
      rq_headers = Map.empty, rq_content = [], rq_contentLength = 0, rq_boundary = [],
      rq_fileHeader = [], rq_fileWriter = new_writer, rq_formFields = Map.empty,
      rq_uploadedFiles = [], rq_connection = None\<rparr>"

definition setReceiveTime :: "int \<Rightarrow> http_request \<Rightarrow> http_request" where
  "setReceiveTime t r = r\<lparr>rq_receiveTime := t\<rparr>"

text \<open>
  \<open>setMethod\<close> starts with \<open>assert(method_ == kInvalid)\<close>; \<open>None\<close> is the failed
  assertion, which aborts the process.
\<close>

definition method_of :: "string \<Rightarrow> http_method" where
  "method_of m =
     (if m = ''GET'' then kGet
      else if m = ''POST'' then kPost
      else if m = ''PUT'' then kPut
      else if m = ''DELETE'' then kDelete
      else if m = ''OPTIONS'' then kOptions
      else kInvalid)"

definition setMethod :: "string \<Rightarrow> http_request \<Rightarrow> (bool \<times> http_request) option" where
  "setMethod m r =
     (if rq_method r \<noteq> kInvalid then None
      else Some (method_of m \<noteq> kInvalid, r\<lparr>rq_method := method_of m\<rparr>))"

definition setPath :: "string \<Rightarrow> http_request \<Rightarrow> http_request" where
  "setPath p r = r\<lparr>rq_path := p\<rparr>"

definition setPathParameters :: "string \<Rightarrow> string \<Rightarrow> http_request \<Rightarrow> http_request" where
  "setPathParameters k v r = r\<lparr>rq_pathParameters := (rq_pathParameters r)(k \<mapsto> v)\<rparr>"

definition getPathParameters :: "string \<Rightarrow> http_request \<Rightarrow> string" where
  "getPathParameters k r = lookup_str (rq_pathParameters r) k"

definition getQueryParameters :: "string \<Rightarrow> http_request \<Rightarrow> string" where
  "getQueryParameters k r = lookup_str (rq_queryParameters r) k"

text \<open>The pairs between \<open>&\<close> signs; a pair without \<open>=\<close> is dropped.\<close>

definition add_pair :: "string \<Rightarrow> (string \<rightharpoonup> string) \<Rightarrow> (string \<rightharpoonup> string)" where
  "add_pair pair m =
     (case find_char (CHR ''='') pair of
        None \<Rightarrow> m
      | Some e \<Rightarrow> m(take e pair \<mapsto> drop (Suc e) pair))"

function split_pairs :: "string \<Rightarrow> (string \<rightharpoonup> string) \<Rightarrow> (string \<rightharpoonup> string)" where
  "split_pairs s m =
     (case find_char (CHR 0x26) s of
        None \<Rightarrow> add_pair s m
      | Some pos \<Rightarrow> split_pairs (drop (Suc pos) s) (add_pair (take pos s) m))"
  by pat_completeness auto
termination
  by (relation "measure (\<lambda>(s, m). length s)") (auto dest: find_char_bound)

declare split_pairs.simps [simp del]

definition setQueryParameters :: "string \<Rightarrow> http_request \<Rightarrow> http_request" where
  "setQueryParameters s r = r\<lparr>rq_queryParameters := split_pairs s (rq_queryParameters r)\<rparr>"

definition setVersion :: "string \<Rightarrow> http_request \<Rightarrow> http_request" where
  "setVersion v r = r\<lparr>rq_version := v\<rparr>"

definition addHeader :: "string \<Rightarrow> string \<Rightarrow> http_request \<Rightarrow> http_request" where
  "addHeader k v r = r\<lparr>rq_headers := (rq_headers r)(k \<mapsto> v)\<rparr>"

definition getHeader :: "string \<Rightarrow> http_request \<Rightarrow> string" where
  "getHeader k r = lookup_str (rq_headers r) k"

definition setBody :: "bytes \<Rightarrow> http_request \<Rightarrow> http_request" where
  "setBody d r = (if d = [] then r else r\<lparr>rq_content := d\<rparr>)"

definition appendBody :: "bytes \<Rightarrow> http_request \<Rightarrow> http_request" where
  "appendBody d r = r\<lparr>rq_content := rq_content r @ d\<rparr>"

definition setContentLength :: "u64 \<Rightarrow> http_request \<Rightarrow> http_request" where
  "setContentLength n r = r\<lparr>rq_contentLength := n\<rparr>"

definition setBoundary :: "string \<Rightarrow> http_request \<Rightarrow> http_request" where
  "setBoundary b r = r\<lparr>rq_boundary := b\<rparr>"

definition savefileHeader :: "string \<Rightarrow> http_request \<Rightarrow> http_request" where
  "savefileHeader h r = r\<lparr>rq_fileHeader := h\<rparr>"

text \<open>\<open>name="..."\<close> of a part header.\<close>

definition parseFieldName :: "string \<Rightarrow> string" where
  "parseFieldName header =
     (case find_sub ''name=\"'' header of
        None \<Rightarrow> []
      | Some p \<Rightarrow>
          (let pos = p + length ''name=\"'' in
           case find_from [CHR 0x22] header pos of
             None \<Rightarrow> []
           | Some e \<Rightarrow> substr header pos (e - pos)))"

definition saveFormField :: "string \<Rightarrow> string \<Rightarrow> http_request \<Rightarrow> http_request" where
  "saveFormField partHeader d r =
     (let fieldName = parseFieldName partHeader in
      if fieldName = [] then r
      else r\<lparr>rq_formFields := (rq_formFields r)(fieldName \<mapsto> d)\<rparr>)"

text \<open>
  \<open>saveFilePart\<close> makes a file of its own, named by the clock (milliseconds) and a static
  counter, which counts also when the file cannot be opened.
\<close>

definition generateUniqueFileName :: "int \<Rightarrow> int \<Rightarrow> string \<times> int" where
  "generateUniqueFileName ms counter =
     (dec_int ms @ ''_'' @ dec_int counter, to_int32 (counter + 1))"

definition saveFilePart ::
  "(string \<Rightarrow> bool) \<Rightarrow> int \<Rightarrow> bytes \<Rightarrow> int \<times> (string \<rightharpoonup> bytes) \<times> http_request \<Rightarrow>
     int \<times> (string \<rightharpoonup> bytes) \<times> http_request" where
  "saveFilePart can_open ms d = (\<lambda>(counter, disk, r).
     (let (u, counter') = generateUniqueFileName ms counter;
          fileName = ''upload_'' @ u @ ''.dat''
      in if \<not> can_open fileName then (counter', disk, r)
         else (counter', disk(fileName \<mapsto> d),
               r\<lparr>rq_uploadedFiles := rq_uploadedFiles r @ [fileName]\<rparr>)))"

text \<open>
  \<open>swap\<close> exchanges every field but the file writer, which each object keeps. The
  result is the pair of both objects after the call.
\<close>

definition swap_request :: "http_request \<Rightarrow> http_request \<Rightarrow> http_request \<times> http_request" where
  "swap_request a b =
     (\<lparr>rq_method = rq_method b, rq_version = rq_version b, rq_path = rq_path b,
       rq_pathParameters = rq_pathParameters b, rq_queryParameters = rq_queryParameters b,
       rq_receiveTime = rq_receiveTime b, rq_headers = rq_headers b,
       rq_content = rq_content b, rq_contentLength = rq_contentLength b,
       rq_boundary = rq_boundary b, rq_fileHeader = rq_fileHeader b,
       rq_fileWriter = rq_fileWriter a, rq_formFields = rq_formFields b,
       rq_uploadedFiles = rq_uploadedFiles b, rq_connection = rq_connection b\<rparr>,
      \<lparr>rq_method = rq_method a, rq_version = rq_version a, rq_path = rq_path a,
       rq_pathParameters = rq_pathParameters a, rq_queryParameters = rq_queryParameters a,
       rq_receiveTime = rq_receiveTime a, rq_headers = rq_headers a,
       rq_content = rq_content a, rq_contentLength = rq_contentLength a,
       rq_boundary = rq_boundary a, rq_fileHeader = rq_fileHeader a,
       rq_fileWriter = rq_fileWriter b, rq_formFields = rq_formFields a,
       rq_uploadedFiles = rq_uploadedFiles a, rq_connection = rq_connection a\<rparr>)"

definition setConnection :: "nat \<Rightarrow> http_request \<Rightarrow> http_request" where
  "setConnection c r = r\<lparr>rq_connection := Some c\<rparr>"

text \<open>
  \<open>getPeerIp\<close>: \<open>addr\<close> gives the four address bytes of a live connection, and nothing
  for one that is gone.
\<close>

definition dotted :: "nat \<times> nat \<times> nat \<times> nat \<Rightarrow> string" where
  "dotted = (\<lambda>(a, b, c, d). dec a @ ''.'' @ dec b @ ''.'' @ dec c @ ''.'' @ dec d)"

definition getPeerIp :: "(nat \<rightharpoonup> nat \<times> nat \<times> nat \<times> nat) \<Rightarrow> http_request \<Rightarrow> string" where
  "getPeerIp addr r =
     (case rq_connection r of
        None \<Rightarrow> ''0.0.0.0''
      | Some c \<Rightarrow> (case addr c of None \<Rightarrow> ''0.0.0.0'' | Some a \<Rightarrow> dotted a))"

section \<open>Properties of the object\<close>

lemma getHeader_addHeader [simp]:
  "getHeader k' (addHeader k v r) = (if k' = k then v else getHeader k' r)"
  by (simp add: getHeader_def addHeader_def)

lemma method_of_addHeader [frame, simp]: "rq_method (addHeader k v r) = rq_method r"
  by (simp add: addHeader_def)

lemma swap_new:
  "swap_request r new_request = (new_request\<lparr>rq_fileWriter := rq_fileWriter r\<rparr>,
     r\<lparr>rq_fileWriter := new_writer\<rparr>)"
  by (simp add: swap_request_def new_request_def)

text \<open>How the query string is written by a client.\<close>

fun join_pairs :: "(string \<times> string) list \<Rightarrow> string" where
  "join_pairs [] = []"
| "join_pairs [(k, v)] = k @ ''='' @ v"
| "join_pairs ((k, v) # q # qs) = k @ ''='' @ v @ CHR 0x26 # join_pairs (q # qs)"

definition pair_ok :: "string \<times> string \<Rightarrow> bool" where
  "pair_ok = (\<lambda>(k, v). CHR ''='' \<notin> set k \<and> CHR 0x26 \<notin> set k \<and> CHR 0x26 \<notin> set v)"

lemma add_pair_join: "pair_ok (k, v) \<Longrightarrow> add_pair (k @ ''='' @ v) m = m(k \<mapsto> v)"
  by (simp add: add_pair_def pair_ok_def search_simps)

lemma split_pairs_last: "CHR 0x26 \<notin> set s \<Longrightarrow> split_pairs s m = add_pair s m"
  by (subst split_pairs.simps) (simp add: find_char_None [THEN iffD2])

lemma split_pairs_amp:
  "CHR 0x26 \<notin> set s \<Longrightarrow> split_pairs (s @ CHR 0x26 # t) m = split_pairs t (add_pair s m)"
  by (subst split_pairs.simps) (simp add: search_simps)

lemma split_pairs_join:
  "ps \<noteq> [] \<Longrightarrow> \<forall>p \<in> set ps. pair_ok p \<Longrightarrow> split_pairs (join_pairs ps) m = m ++ map_of (rev ps)"
proof (induction ps arbitrary: m rule: join_pairs.induct)
  case 1
  then show ?case by simp
next
  case (2 k v)
  then have ok: "pair_ok (k, v)" by simp
  then have "CHR 0x26 \<notin> set (k @ ''='' @ v)" by (simp add: pair_ok_def)
  from split_pairs_last [OF this, of m] add_pair_join [OF ok, of m]
  show ?case by (simp add: map_add_def fun_eq_iff)
next
  case (3 k v q qs)
  have ok: "pair_ok (k, v)" using 3 by simp
  then have "CHR 0x26 \<notin> set (k @ ''='' @ v)" by (simp add: pair_ok_def)
  from split_pairs_amp [OF this, of "join_pairs (q # qs)" m]
  have "split_pairs (join_pairs ((k, v) # q # qs)) m = split_pairs (join_pairs (q # qs)) (m(k \<mapsto> v))"
    using add_pair_join [OF ok] by simp
  with 3 show ?case by (simp add: map_add_def fun_eq_iff split: option.splits)
qed

end
