(* ===== verification/HttpResponse.thy ===== *)
theory HttpResponse
  imports Prelude
begin

text \<open>
  The response object of \<open>include/http/my_http_response.h\<close> and
  \<open>src/http/my_http_response.cpp\<close> and the exception type of
  \<open>include/http/HttpException.h\<close>. Headers are a \<open>std::map\<close>, which the printer
  iterates in key order, so they are an ordered association list.
\<close>

section \<open>HttpResponse\<close>

datatype http_status =
    kUnknown | k200Ok | k204NoContent | k206PartialContent | k301MovedPermanently
  | k400BadRequest | k401Unauthorized | k403Forbidden | k404NotFound | k409Conflict
  | k416RangeNotSatisfiable | k429TooManyRequests | k500InternalServerError
  | k503ServiceUnavailable

fun status_code :: "http_status \<Rightarrow> nat" where
  "status_code kUnknown = 0"
| "status_code k200Ok = 200"
| "status_code k204NoContent = 204"
| "status_code k206PartialContent = 206"
| "status_code k301MovedPermanently = 301"
| "status_code k400BadRequest = 400"
| "status_code k401Unauthorized = 401"
| "status_code k403Forbidden = 403"
| "status_code k404NotFound = 404"
| "status_code k409Conflict = 409"
| "status_code k416RangeNotSatisfiable = 416"
| "status_code k429TooManyRequests = 429"
| "status_code k500InternalServerError = 500"
| "status_code k503ServiceUnavailable = 503"

text \<open>
  What a handler, a middleware or the parser can throw: an \<open>HttpException\<close> with its
  code and message, or another \<open>std::exception\<close> with its \<open>what()\<close>.
\<close>

datatype cxx_exn =
    HttpException http_status string
  | StdException string

record http_response =
  rs_httpVersion :: string
  rs_statusCode :: http_status
  rs_statusMessage :: string
  rs_closeConnection :: bool
  rs_headers :: "(string, string) amap"
  rs_body :: bytes

definition new_response :: "bool \<Rightarrow> http_response" where
  "new_response close =
     \<lparr>rs_httpVersion = [], rs_statusCode = kUnknown, rs_statusMessage = [],
      rs_closeConnection = close, rs_headers = [], rs_body = []\<rparr>"

definition setVersion_rs :: "string \<Rightarrow> http_response \<Rightarrow> http_response" where
  "setVersion_rs v r = r\<lparr>rs_httpVersion := v\<rparr>"

definition setStatusCode :: "http_status \<Rightarrow> http_response \<Rightarrow> http_response" where
  "setStatusCode c r = r\<lparr>rs_statusCode := c\<rparr>"

definition setStatusMessage :: "string \<Rightarrow> http_response \<Rightarrow> http_response" where
  "setStatusMessage m r = r\<lparr>rs_statusMessage := m\<rparr>"

definition setCloseConnection :: "bool \<Rightarrow> http_response \<Rightarrow> http_response" where
  "setCloseConnection on r = r\<lparr>rs_closeConnection := on\<rparr>"

definition addHeader_rs :: "string \<Rightarrow> string \<Rightarrow> http_response \<Rightarrow> http_response" where
  "addHeader_rs k v r = r\<lparr>rs_headers := amap_put k v (rs_headers r)\<rparr>"

definition setContentType :: "string \<Rightarrow> http_response \<Rightarrow> http_response" where
  "setContentType t r = addHeader_rs ''Content-Type'' t r"

definition setContentLength_rs :: "u64 \<Rightarrow> http_response \<Rightarrow> http_response" where
  "setContentLength_rs n r = addHeader_rs ''Content-Length'' (dec (unat n)) r"

definition setBody_rs :: "bytes \<Rightarrow> http_response \<Rightarrow> http_response" where
  "setBody_rs b r = r\<lparr>rs_body := b\<rparr>"

definition setStatusLine :: "string \<Rightarrow> http_status \<Rightarrow> string \<Rightarrow> http_response \<Rightarrow> http_response" where
  "setStatusLine v c m r =
     r\<lparr>rs_httpVersion := v, rs_statusCode := c, rs_statusMessage := m\<rparr>"

text \<open>
  \<open>appendToBuffer\<close>. The version and the code go through a 32 byte array with
  \<open>snprintf\<close>, which keeps at most 31 characters; the rest is appended as it is.
\<close>

definition status_prefix :: "http_response \<Rightarrow> string" where
  "status_prefix r =
     take 31 (c_str (rs_httpVersion r) @ '' '' @ dec (status_code (rs_statusCode r)) @ '' '')"

definition connection_line :: "http_response \<Rightarrow> string" where
  "connection_line r =
     (if rs_closeConnection r then ''Connection: close'' @ crlf
      else ''Connection: Keep-Alive'' @ crlf)"

definition header_line :: "string \<times> string \<Rightarrow> string" where
  "header_line = (\<lambda>(k, v). k @ '': '' @ v @ crlf)"

definition appendToBuffer :: "http_response \<Rightarrow> bytes \<Rightarrow> bytes" where
  "appendToBuffer r out =
     out @ status_prefix r @ rs_statusMessage r @ crlf @ connection_line r @
     concat (map header_line (rs_headers r)) @ crlf @ rs_body r"

section \<open>Properties of the object\<close>

lemma addHeader_lookup_rs:
  "map_of (rs_headers (addHeader_rs k v r)) = (map_of (rs_headers r))(k \<mapsto> v)"
  by (simp add: addHeader_rs_def map_of_amap_put)

lemma addHeader_ok_rs: "amap_ok (rs_headers r) \<Longrightarrow> amap_ok (rs_headers (addHeader_rs k v r))"
  by (simp add: addHeader_rs_def amap_ok_put)

lemma dec_length_3: "n < 1000 \<Longrightarrow> length (dec n) \<le> 3"
proof -
  assume "n < 1000"
  then have "n div 10 < 100" "n div 100 < 10" by auto
  then show ?thesis
    by (subst dec.simps, subst dec.simps, subst dec.simps)
      (auto simp: div_mult2_eq [symmetric])
qed

lemma status_code_bound: "status_code c < 1000"
  by (cases c) simp_all

lemma status_prefix_complete:
  assumes "length (c_str (rs_httpVersion r)) \<le> 26"
  shows "status_prefix r =
    c_str (rs_httpVersion r) @ '' '' @ dec (status_code (rs_statusCode r)) @ '' ''"
  using assms dec_length_3 [OF status_code_bound [of "rs_statusCode r"]]
  by (simp add: status_prefix_def)

lemma no_crlf_c_str: "c_str ''HTTP/1.1'' = ''HTTP/1.1''" "c_str ''HTTP/1.0'' = ''HTTP/1.0''"
  by (simp_all add: c_str_def)

end
