(* ===== verification/HttpContext.thy ===== *)
theory HttpContext
  imports HttpRequest HttpResponse
begin

text \<open>
  The request parser of \<open>include/http/my_http_context.h\<close> and
  \<open>src/http/my_http_context.cpp\<close>: one context per connection, fed with the byte
  chunks the socket delivers. A state of the parser is the record \<open>http_context\<close>; one
  turn of the loop of \<open>parseRequest\<close> is \<open>parse_iter\<close>; the loop itself is
  \<open>parse_loop\<close>, a partial function whose value \<open>None\<close> is a loop that never ends,
  which this parser has for many inputs. What the parser takes from outside (the
  configured upload directory, whether the file system lets a directory or a file be
  made, the value of an uninitialised \<open>int\<close>) is the record \<open>parse_env\<close>.
\<close>

section \<open>File names\<close>

text \<open>
  \<open>urlDecode\<close>. A \<open>%\<close> needs two more characters after it, else the function throws;
  \<open>junk\<close> is the indeterminate value of \<open>hexValue\<close> before the extraction.
\<close>

fun urlDecode :: "int \<Rightarrow> string \<Rightarrow> string + string" where
  "urlDecode junk [] = Inr []"
| "urlDecode junk (ch # cs) =
     (if ch = CHR ''%'' then
        (case cs of
           a # b # r \<Rightarrow>
             map_sum id (\<lambda>t. char_of (extract_hex junk [a, b]) # t) (urlDecode junk r)
         | _ \<Rightarrow> Inl ''Invalid URL encoding.'')
      else if ch = CHR ''+'' then map_sum id (\<lambda>t. CHR '' '' # t) (urlDecode junk cs)
      else map_sum id (\<lambda>t. ch # t) (urlDecode junk cs))"

definition MAX_BASENAME_LENGTH :: nat where "MAX_BASENAME_LENGTH = 10"

definition safe_char :: "char \<Rightarrow> char" where
  "safe_char c = (if is_alnum c \<or> c = CHR ''_'' \<or> c = CHR ''.'' then c else CHR ''_'')"

definition sanitizeFilename :: "int \<Rightarrow> string \<Rightarrow> string + string" where
  "sanitizeFilename junk rawFilename =
     (case urlDecode junk rawFilename of
        Inl e \<Rightarrow> Inl e
      | Inr decoded \<Rightarrow>
          (let safe = map safe_char decoded;
               (baseName, extension) =
                 (case rfind_char (CHR ''.'') safe of
                    None \<Rightarrow> (safe, [])
                  | Some pos \<Rightarrow> (take pos safe, drop pos safe))
           in Inr (take MAX_BASENAME_LENGTH baseName @ extension)))"

section \<open>The context\<close>

datatype parse_state = kExpectRequestLine | kExpectHeaders | kExpectBody | kGotAll

text \<open>The states in the order of a request.\<close>

primrec stage :: "parse_state \<Rightarrow> nat" where
  "stage kExpectRequestLine = 0"
| "stage kExpectHeaders = 1"
| "stage kExpectBody = 2"
| "stage kGotAll = 3"

lemma stage_eq: "stage a = stage b \<Longrightarrow> a = b"
  by (cases a; cases b) simp_all

instantiation parse_state :: linorder
begin

definition less_eq_parse_state :: "parse_state \<Rightarrow> parse_state \<Rightarrow> bool" where
  "a \<le> b \<longleftrightarrow> stage a \<le> stage b"

definition less_parse_state :: "parse_state \<Rightarrow> parse_state \<Rightarrow> bool" where
  "a < b \<longleftrightarrow> stage a < stage b"

instance
  by standard (auto simp: less_eq_parse_state_def less_parse_state_def intro: stage_eq)

end

lemma stage_order [simp]:
  "kExpectRequestLine \<le> st" "st \<le> kGotAll" "kExpectHeaders \<le> kExpectBody" "\<not> kExpectBody \<le> kExpectHeaders"
  by (cases st; simp add: less_eq_parse_state_def)+

record http_context =
  cx_state :: parse_state
  cx_request :: http_request
  cx_buffer :: bytes
  cx_parsed_pos :: nat
  cx_body_bytes_received :: u64
  cx_sequence :: u32

definition new_context :: "nat \<Rightarrow> http_context" where
  "new_context conn =
     \<lparr>cx_state = kExpectRequestLine, cx_request = setConnection conn new_request,
      cx_buffer = [], cx_parsed_pos = 0, cx_body_bytes_received = 0, cx_sequence = 0\<rparr>"

definition gotAll :: "http_context \<Rightarrow> bool" where
  "gotAll cx = (cx_state cx = kGotAll)"

text \<open>
  \<open>reset\<close> closes the file and swaps in a fresh request. The file writer stays, because
  \<open>swap\<close> leaves it out, and \<open>sequence\<close> is not touched.
\<close>

definition reset :: "http_context \<Rightarrow> http_context" where
  "reset cx =
     (let r = cx_request cx;
          r' = r\<lparr>rq_fileWriter := closeFileStream (rq_fileWriter r)\<rparr>
      in cx\<lparr>cx_state := kExpectRequestLine,
            cx_request := fst (swap_request r' new_request),
            cx_buffer := [], cx_parsed_pos := 0, cx_body_bytes_received := 0\<rparr>)"

definition LARGE_FILE_THRESHOLD :: u64 where "LARGE_FILE_THRESHOLD = 1 * 1024 * 1024"

record parse_env =
  pe_videoPath :: "string option"
  pe_dirOk :: "string \<Rightarrow> bool"
  pe_canOpen :: "string \<Rightarrow> bool"
  pe_junk :: int

section \<open>The request line\<close>

definition set_target :: "string \<Rightarrow> http_request \<Rightarrow> http_request" where
  "set_target target r =
     (case find_char (CHR 0x3F) target of
        Some q \<Rightarrow> setQueryParameters (drop (Suc q) target) (setPath (take q target) r)
      | None \<Rightarrow> setPath target r)"

definition set_http_version :: "string \<Rightarrow> http_request \<Rightarrow> bool \<times> http_request" where
  "set_http_version v r =
     (if length v = 8 \<and> take 7 v = ''HTTP/1.'' then
        (if v ! 7 = CHR ''1'' then (True, setVersion ''HTTP/1.1'' r)
         else if v ! 7 = CHR ''0'' then (True, setVersion ''HTTP/1.0'' r)
         else (False, r))
      else (False, r))"

text \<open>\<open>None\<close> is the failed assertion of \<open>setMethod\<close>.\<close>

definition processRequestLine :: "string \<Rightarrow> http_request \<Rightarrow> (bool \<times> http_request) option" where
  "processRequestLine line r =
     (case find_char (CHR '' '') line of
        None \<Rightarrow> Some (False, r)
      | Some sp \<Rightarrow>
          (case setMethod (take sp line) r of
             None \<Rightarrow> None
           | Some (known, r1) \<Rightarrow>
               if \<not> known then Some (False, r1)
               else
                 (let rest = drop (Suc sp) line in
                  case find_char (CHR '' '') rest of
                    None \<Rightarrow> Some (False, r1)
                  | Some sp2 \<Rightarrow>
                      Some (set_http_version (drop (Suc sp2) rest)
                              (set_target (take sp2 rest) r1)))))"

section \<open>Outcomes\<close>

text \<open>
  A call of \<open>parseRequest\<close> returns its result and \<open>isErr\<close>, or throws, or the
  assertion of \<open>setMethod\<close> aborts the process. The two flags are the local
  \<open>ok\<close> and the reference parameter \<open>isErr\<close>.
\<close>

datatype parse_result =
    Returned bool bool http_context
  | Threw cxx_exn http_context
  | Aborted

type_synonym flags = "bool \<times> bool \<times> http_context"

definition rest :: "http_context \<Rightarrow> bytes" where
  "rest cx = drop (cx_parsed_pos cx) (cx_buffer cx)"

definition request_line_step :: "int \<Rightarrow> flags \<Rightarrow> parse_result + flags" where
  "request_line_step now = (\<lambda>(ok, isErr, cx).
     (case find_sub crlf (rest cx) of
        Some n \<Rightarrow>
          if 1024 < n then Inr (False, True, cx)
          else
            (case processRequestLine (take n (rest cx)) (cx_request cx) of
               None \<Rightarrow> Inl Aborted
             | Some (True, r) \<Rightarrow>
                 Inr (False, isErr,
                   cx\<lparr>cx_request := setReceiveTime now r,
                      cx_parsed_pos := cx_parsed_pos cx + n + 2,
                      cx_state := kExpectHeaders\<rparr>)
             | Some (False, r) \<Rightarrow> Inr (False, isErr, cx\<lparr>cx_request := r\<rparr>))
      | None \<Rightarrow>
          if 1024 < length (cx_buffer cx) - cx_parsed_pos cx then Inr (False, True, cx)
          else Inr (ok, isErr, cx)))"

section \<open>Headers\<close>

definition is_blank :: "char \<Rightarrow> bool" where
  "is_blank c = (c = CHR '' '' \<or> c = CHR 0x09)"

definition header_line_step :: "string \<Rightarrow> flags \<Rightarrow> flags" where
  "header_line_step line = (\<lambda>(ok, isErr, cx).
     (case find_char (CHR '':'') line of
        None \<Rightarrow> (False, True, cx)
      | Some c \<Rightarrow>
          (ok, isErr,
           cx\<lparr>cx_request :=
             addHeader (rdrop is_blank (take c line)) (dropWhile is_blank (drop (Suc c) line))
               (cx_request cx)\<rparr>)))"

text \<open>
  The blank line. \<open>stoi\<close> gives an \<open>int\<close>; a negative one becomes a huge
  \<open>size_t\<close>.
\<close>

definition blank_line_step :: "flags \<Rightarrow> flags" where
  "blank_line_step = (\<lambda>(ok, isErr, cx).
     (let r = cx_request cx in
      if rq_method r = kPost \<or> rq_method r = kPut then
        (let contentLen = getHeader ''Content-Length'' r in
         if contentLen = [] then (False, True, cx)
         else
           (case stoi contentLen of
              Inl _ \<Rightarrow> (False, True, cx)
            | Inr v \<Rightarrow>
                (let r' = setContentLength (word_of_int v) r;
                     st = (if 0 < rq_contentLength r' then kExpectBody else kGotAll)
                 in (st = kGotAll, isErr, cx\<lparr>cx_request := r', cx_state := st\<rparr>))))
      else (True, isErr, cx\<lparr>cx_state := kGotAll\<rparr>)))"

definition skip_line :: "nat \<Rightarrow> flags \<Rightarrow> flags" where
  "skip_line n = (\<lambda>(ok, isErr, cx). (ok, isErr, cx\<lparr>cx_parsed_pos := cx_parsed_pos cx + n + 2\<rparr>))"

function headers_loop :: "flags \<Rightarrow> flags" where
  "headers_loop (ok, isErr, cx) =
     (if cx_parsed_pos cx < length (cx_buffer cx) then
        (case find_sub crlf (rest cx) of
           None \<Rightarrow> (ok, isErr, cx)
         | Some n \<Rightarrow>
             if n = 0 then blank_line_step (skip_line 0 (ok, isErr, cx))
             else headers_loop (skip_line n (header_line_step (take n (rest cx)) (ok, isErr, cx))))
      else (ok, isErr, cx))"
  by pat_completeness auto
termination
  by (relation "measure (\<lambda>(ok, isErr, cx). length (cx_buffer cx) - cx_parsed_pos cx)")
    (auto simp: skip_line_def header_line_step_def split: option.splits)

declare headers_loop.simps [simp del]

definition strip_quotes :: "string \<Rightarrow> string" where
  "strip_quotes s =
     (if s \<noteq> [] \<and> hd s = CHR 0x22 then
        (let t = tl s in if t \<noteq> [] \<and> last t = CHR 0x22 then butlast t else t)
      else s)"

text \<open>The check of \<open>Content-Type\<close> that follows the header loop.\<close>

definition content_type_step :: "flags \<Rightarrow> flags" where
  "content_type_step = (\<lambda>(ok, isErr, cx).
     (let contentType = getHeader ''Content-Type'' (cx_request cx) in
      if contentType = [] \<or> find_sub ''multipart/form-data'' contentType = None
      then (ok, isErr, cx)
      else
        (case find_sub ''boundary='' contentType of
           None \<Rightarrow> (False, True, cx)
         | Some pos \<Rightarrow>
             (ok, isErr,
              cx\<lparr>cx_request := setBoundary (strip_quotes (drop (pos + 9) contentType))
                   (cx_request cx)\<rparr>))))"

definition headers_step :: "flags \<Rightarrow> flags" where
  "headers_step s = content_type_step (headers_loop s)"


section \<open>The body\<close>

text \<open>Without a boundary: copy until \<open>Content-Length\<close> bytes have been received.\<close>

definition plain_body_step :: "flags \<Rightarrow> flags" where
  "plain_body_step = (\<lambda>(ok, isErr, cx).
     (let needed = rq_contentLength (cx_request cx);
          remaining = length (cx_buffer cx) - cx_parsed_pos cx;
          n = min remaining (unat (needed - cx_body_bytes_received cx));
          received = cx_body_bytes_received cx + of_nat n;
          cx' = cx\<lparr>cx_request := appendBody (take n (rest cx)) (cx_request cx),
                   cx_parsed_pos := cx_parsed_pos cx + n,
                   cx_body_bytes_received := received\<rparr>
      in if needed \<le> received then (True, isErr, cx'\<lparr>cx_state := kGotAll\<rparr>)
         else (False, isErr, cx')))"

text \<open>
  With a boundary. A turn of the inner loop either leaves it (\<open>Part_break\<close>, with the
  value of \<open>ok\<close>), goes round (\<open>Part_next\<close>) or throws.
\<close>

datatype part_step =
    Part_break bool http_context
  | Part_next http_context
  | Part_throw cxx_exn http_context

definition part_filename :: "int \<Rightarrow> string \<Rightarrow> string + string" where
  "part_filename junk part_header =
     (case find_sub ''filename=\"'' part_header of
        None \<Rightarrow> Inr ''Default''
      | Some namePos \<Rightarrow>
          (let start = namePos + 10 in
           sanitizeFilename junk
             (case find_from [CHR 0x22] part_header start of
                None \<Rightarrow> drop start part_header
              | Some endQuote \<Rightarrow> substr part_header start (endQuote - start))))"

text \<open>\<open>GetString\<close> answers a null pointer for a missing item, from which no string is made.\<close>

definition open_upload :: "parse_env \<Rightarrow> string \<Rightarrow> http_context \<Rightarrow> part_step" where
  "open_upload env part_header cx =
     (case pe_videoPath env of
        None \<Rightarrow> Part_throw (StdException ''basic_string: construction from null is not valid'') cx
      | Some uploadDir \<Rightarrow>
          if \<not> pe_dirOk env uploadDir
          then Part_throw (StdException ''filesystem error'') cx
          else
            (case part_filename (pe_junk env) part_header of
               Inl e \<Rightarrow> Part_throw (StdException e) cx
             | Inr filename \<Rightarrow>
                 (let r = cx_request cx;
                      w = snd (initFileStream (pe_canOpen env) (uploadDir @ ''/'' @ filename)
                                 (rq_fileWriter r))
                  in Part_next (cx\<lparr>cx_request := r\<lparr>rq_fileWriter := w\<rparr>\<rparr>))))"

definition crlfcrlf :: bytes where "crlfcrlf = crlf @ crlf"

definition part_header_step :: "parse_env \<Rightarrow> http_context \<Rightarrow> part_step" where
  "part_header_step env cx =
     (let delim = ''--'' @ rq_boundary (cx_request cx) in
      case find_sub delim (rest cx) of
        None \<Rightarrow> Part_break False cx
      | Some b \<Rightarrow>
          (let after = drop (b + length delim) (rest cx) in
           if take 2 after = ''--'' then Part_break True (cx\<lparr>cx_state := kGotAll\<rparr>)
           else
             (let body = (if take 2 after = crlf then drop 2 after else after) in
              case find_sub crlfcrlf body of
                None \<Rightarrow> Part_break False cx
              | Some e \<Rightarrow>
                  (let part_header = take e body;
                       cx' = cx\<lparr>cx_parsed_pos := 0, cx_buffer := drop (e + 4) body,
                                cx_body_bytes_received := cx_body_bytes_received cx +
                                  of_nat (length delim + 4 + length part_header + 4),
                                cx_request := savefileHeader part_header (cx_request cx)\<rparr>
                   in if LARGE_FILE_THRESHOLD < rq_contentLength (cx_request cx')
                      then open_upload env part_header cx'
                      else Part_next cx'))))"

text \<open>Where the data of a part goes: to the file or to the body.\<close>

definition store_data :: "bytes \<Rightarrow> http_request \<Rightarrow> http_request" where
  "store_data d r =
     (if LARGE_FILE_THRESHOLD < rq_contentLength r
      then r\<lparr>rq_fileWriter := writeToFile d (rq_fileWriter r)\<rparr>
      else appendBody d r)"

definition part_data_step :: "http_context \<Rightarrow> part_step" where
  "part_data_step cx =
     (let needed = rq_contentLength (cx_request cx);
          ending = ''--'' @ rq_boundary (cx_request cx) @ ''--'';
          buf = cx_buffer cx; pos = cx_parsed_pos cx;
          received = cx_body_bytes_received cx;
          more = (\<lambda>_. (let part_end = min (unat (needed - of_nat (length ending) - received))
                                         (length buf) in
             Part_break False
               (cx\<lparr>cx_request := store_data (take (part_end - pos) (rest cx)) (cx_request cx),
                   cx_body_bytes_received := received + of_nat (part_end - pos),
                   cx_buffer := drop part_end buf, cx_parsed_pos := 0\<rparr>)))
      in case find_sub ending (rest cx) of
           None \<Rightarrow> more ()
         | Some n \<Rightarrow>
             if received + of_nat (pos + n) + of_nat (length ending) < needed then more ()
             else
               Part_break True
                 (cx\<lparr>cx_request := store_data (take n (rest cx)) (cx_request cx),
                     cx_buffer := drop (n + length ending) (rest cx), cx_parsed_pos := 0,
                     cx_state := kGotAll\<rparr>))"

definition part_iter :: "parse_env \<Rightarrow> http_context \<Rightarrow> part_step" where
  "part_iter env cx =
     (if rq_fileHeader (cx_request cx) = [] then part_header_step env cx else part_data_step cx)"

lemma open_upload_buffer:
  "open_upload env h cx = Part_next cx' \<Longrightarrow>
     cx_buffer cx' = cx_buffer cx \<and> cx_parsed_pos cx' = cx_parsed_pos cx"
  by (auto simp: open_upload_def Let_def split: option.splits if_splits sum.splits)

lemma part_iter_shrinks:
  assumes "part_iter env cx = Part_next cx'"
  shows "length (cx_buffer cx') - cx_parsed_pos cx' < length (cx_buffer cx) - cx_parsed_pos cx"
  using assms
  by (auto simp: part_iter_def part_header_step_def part_data_step_def Let_def rest_def
      crlfcrlf_def
      dest!: open_upload_buffer find_sub_bound split: option.splits if_splits)

function multipart_loop :: "parse_env \<Rightarrow> flags \<Rightarrow> parse_result + flags" where
  "multipart_loop env (ok, isErr, cx) =
     (if cx_parsed_pos cx < length (cx_buffer cx) then
        (case part_iter env cx of
           Part_break ok' cx' \<Rightarrow> Inr (ok', isErr, cx')
         | Part_next cx' \<Rightarrow> multipart_loop env (ok, isErr, cx')
         | Part_throw e cx' \<Rightarrow> Inl (Threw e cx'))
      else Inr (ok, isErr, cx))"
  by pat_completeness auto
termination
  by (relation "measure (\<lambda>(env, ok, isErr, cx). length (cx_buffer cx) - cx_parsed_pos cx)")
    (auto dest: part_iter_shrinks)

declare multipart_loop.simps [simp del]

definition body_step :: "parse_env \<Rightarrow> flags \<Rightarrow> parse_result + flags" where
  "body_step env = (\<lambda>(ok, isErr, cx).
     if rq_boundary (cx_request cx) = [] then Inr (plain_body_step (ok, isErr, cx))
     else multipart_loop env (ok, isErr, cx))"

section \<open>parseRequest\<close>

definition parse_iter :: "parse_env \<Rightarrow> int \<Rightarrow> flags \<Rightarrow> parse_result + flags" where
  "parse_iter env now s =
     (case s of (ok, isErr, cx) \<Rightarrow>
        (case cx_state cx of
           kExpectRequestLine \<Rightarrow> request_line_step now s
         | kExpectHeaders \<Rightarrow> Inr (headers_step s)
         | kExpectBody \<Rightarrow> body_step env s
         | kGotAll \<Rightarrow> Inl (Returned True isErr cx)))"

definition parse_end :: "flags \<Rightarrow> parse_result" where
  "parse_end = (\<lambda>(ok, isErr, cx). Returned ok isErr (if isErr \<and> \<not> ok then reset cx else cx))"

partial_function (option) parse_loop :: "parse_env \<Rightarrow> int \<Rightarrow> flags \<Rightarrow> parse_result option" where
  "parse_loop env now s =
     (case s of (ok, isErr, cx) \<Rightarrow>
        if cx_parsed_pos cx < length (cx_buffer cx) then
          (case parse_iter env now (ok, isErr, cx) of
             Inl res \<Rightarrow> Some res
           | Inr s' \<Rightarrow> parse_loop env now s')
        else Some (parse_end (ok, isErr, cx)))"

definition parseRequest ::
  "parse_env \<Rightarrow> bytes \<Rightarrow> int \<Rightarrow> http_context \<Rightarrow> parse_result option" where
  "parseRequest env buf now cx =
     parse_loop env now (False, False, cx\<lparr>cx_buffer := cx_buffer cx @ buf\<rparr>)"

end
