(* ===== verification/Buffer.thy ===== *)
theory Buffer
  imports Prelude
begin

text \<open>
  The byte buffer of \<open>include/http/Buffer.h\<close>: one vector with a prepend area of 8
  bytes, a read index and a write index. The data between the two indices is what the
  buffer holds (\<open>contents\<close>). The locale \<open>byte_queue\<close> is the contract the send path
  relies on: bytes leave in the order they were appended, none is lost or repeated. It
  is interpreted on the buffer's own operations at the end.
\<close>

section \<open>The class Buffer\<close>

definition kCheapPrepend :: nat where "kCheapPrepend = 8"
definition kInitialSize :: nat where "kInitialSize = 1024"

record buffer =
  bf_data :: bytes
  bf_reader :: nat
  bf_writer :: nat

definition new_buffer :: "nat \<Rightarrow> buffer" where
  "new_buffer initialSize =
     \<lparr>bf_data = replicate (initialSize + kCheapPrepend) (CHR 0x00),
      bf_reader = kCheapPrepend, bf_writer = kCheapPrepend\<rparr>"

definition readableBytes :: "buffer \<Rightarrow> nat" where
  "readableBytes b = bf_writer b - bf_reader b"

definition writableBytes :: "buffer \<Rightarrow> nat" where
  "writableBytes b = length (bf_data b) - bf_writer b"

definition prependableBytes :: "buffer \<Rightarrow> nat" where
  "prependableBytes b = bf_reader b"

text \<open>
  \<open>peek()\<close> is a pointer to the first unread byte; the reads the code makes through it
  are of \<open>n\<close> bytes from there. \<open>None\<close> is a read past the end of the vector.
\<close>

definition peek :: "buffer \<Rightarrow> nat \<Rightarrow> bytes option" where
  "peek b n =
     (if bf_reader b + n \<le> length (bf_data b) then Some (take n (drop (bf_reader b) (bf_data b)))
      else None)"

definition retrieveAll :: "buffer \<Rightarrow> buffer" where
  "retrieveAll b = b\<lparr>bf_reader := kCheapPrepend, bf_writer := kCheapPrepend\<rparr>"

definition retrieve :: "nat \<Rightarrow> buffer \<Rightarrow> buffer" where
  "retrieve n b =
     (if n < readableBytes b then b\<lparr>bf_reader := bf_reader b + n\<rparr> else retrieveAll b)"

definition retrieveAsString :: "nat \<Rightarrow> buffer \<Rightarrow> (bytes \<times> buffer) option" where
  "retrieveAsString n b = map_option (\<lambda>s. (s, retrieve n b)) (peek b n)"

definition retrieveAllAsString :: "buffer \<Rightarrow> (bytes \<times> buffer) option" where
  "retrieveAllAsString b = retrieveAsString (readableBytes b) b"

text \<open>\<open>resize\<close> keeps the bytes and fills with zeros.\<close>

definition makeSpace :: "nat \<Rightarrow> buffer \<Rightarrow> buffer" where
  "makeSpace n b =
     (if writableBytes b + prependableBytes b < n + kCheapPrepend
      then b\<lparr>bf_data := take (bf_writer b + n) (bf_data b) @
                        replicate (bf_writer b + n - length (bf_data b)) (CHR 0x00)\<rparr>
      else
        let readable = readableBytes b in
        b\<lparr>bf_data := take kCheapPrepend (bf_data b) @
                     take readable (drop (bf_reader b) (bf_data b)) @
                     drop (kCheapPrepend + readable) (bf_data b),
          bf_reader := kCheapPrepend,
          bf_writer := kCheapPrepend + readable\<rparr>)"

definition ensureWritableBytes :: "nat \<Rightarrow> buffer \<Rightarrow> buffer" where
  "ensureWritableBytes n b = (if writableBytes b < n then makeSpace n b else b)"

definition append_buf :: "bytes \<Rightarrow> buffer \<Rightarrow> buffer" where
  "append_buf d b =
     (let b' = ensureWritableBytes (length d) b in
      b'\<lparr>bf_data := take (bf_writer b') (bf_data b') @ d @
                    drop (bf_writer b' + length d) (bf_data b'),
         bf_writer := bf_writer b' + length d\<rparr>)"

section \<open>The invariant and the abstract contents\<close>

definition buf_ok :: "buffer \<Rightarrow> bool" where
  "buf_ok b \<longleftrightarrow> kCheapPrepend \<le> bf_reader b \<and> bf_reader b \<le> bf_writer b \<and>
     bf_writer b \<le> length (bf_data b)"

definition contents :: "buffer \<Rightarrow> bytes" where
  "contents b = take (readableBytes b) (drop (bf_reader b) (bf_data b))"

lemmas buffer_defs =
  buf_ok_def contents_def readableBytes_def writableBytes_def prependableBytes_def
  kCheapPrepend_def

lemma length_contents [simp]: "buf_ok b \<Longrightarrow> length (contents b) = readableBytes b"
  by (auto simp: buffer_defs)

lemma new_buffer_ok [simp]: "buf_ok (new_buffer n)"
  by (simp add: new_buffer_def buffer_defs)

lemma contents_new [simp]: "contents (new_buffer n) = []"
  by (simp add: new_buffer_def buffer_defs)

lemma retrieveAll_ok [simp]: "buf_ok b \<Longrightarrow> buf_ok (retrieveAll b)"
  by (simp add: retrieveAll_def buffer_defs)

lemma contents_retrieveAll [simp]: "contents (retrieveAll b) = []"
  by (simp add: retrieveAll_def buffer_defs)

lemma retrieve_ok [simp]: "buf_ok b \<Longrightarrow> buf_ok (retrieve n b)"
  by (auto simp: retrieve_def retrieveAll_def buffer_defs)

lemma contents_retrieve [simp]: "buf_ok b \<Longrightarrow> contents (retrieve n b) = drop n (contents b)"
  by (auto simp: retrieve_def retrieveAll_def buffer_defs drop_take add.commute)

lemma makeSpace_ok: "buf_ok b \<Longrightarrow> buf_ok (makeSpace n b)"
  by (auto simp: makeSpace_def buffer_defs Let_def)

lemma contents_makeSpace: "buf_ok b \<Longrightarrow> contents (makeSpace n b) = contents b"
  by (auto simp: makeSpace_def buffer_defs Let_def min_def drop_take)

lemma writable_makeSpace: "buf_ok b \<Longrightarrow> writableBytes b < n \<Longrightarrow> n \<le> writableBytes (makeSpace n b)"
  by (auto simp: makeSpace_def buffer_defs Let_def)

lemma ensureWritable_ok: "buf_ok b \<Longrightarrow> buf_ok (ensureWritableBytes n b)"
  by (simp add: ensureWritableBytes_def makeSpace_ok)

lemma contents_ensureWritable: "buf_ok b \<Longrightarrow> contents (ensureWritableBytes n b) = contents b"
  by (simp add: ensureWritableBytes_def contents_makeSpace)

lemma writable_ensureWritable: "buf_ok b \<Longrightarrow> n \<le> writableBytes (ensureWritableBytes n b)"
  by (simp add: ensureWritableBytes_def writable_makeSpace)

lemma append_ok [simp]: "buf_ok b \<Longrightarrow> buf_ok (append_buf d b)"
  using ensureWritable_ok [of b "length d"] writable_ensureWritable [of b "length d"]
  by (auto simp: append_buf_def Let_def buffer_defs)

lemma contents_append [simp]:
  assumes "buf_ok b"
  shows "contents (append_buf d b) = contents b @ d"
proof -
  let ?b = "ensureWritableBytes (length d) b"
  have ok: "buf_ok ?b" and room: "length d \<le> writableBytes ?b"
    using assms by (auto intro: ensureWritable_ok writable_ensureWritable)
  have "contents (append_buf d b) = contents ?b @ d"
    using ok room by (auto simp: append_buf_def Let_def buffer_defs drop_take)
  then show ?thesis using assms by (simp add: contents_ensureWritable)
qed

lemma peek_contents: "buf_ok b \<Longrightarrow> n \<le> readableBytes b \<Longrightarrow> peek b n = Some (take n (contents b))"
  by (auto simp: peek_def buffer_defs min_def)

section \<open>The contract\<close>

locale byte_queue =
  fixes mk :: "'q"
    and push :: "bytes \<Rightarrow> 'q \<Rightarrow> 'q"
    and pop :: "nat \<Rightarrow> 'q \<Rightarrow> 'q"
    and held :: "'q \<Rightarrow> bytes"
    and wf :: "'q \<Rightarrow> bool"
  assumes wf_mk: "wf mk"
    and wf_push: "wf q \<Longrightarrow> wf (push d q)"
    and wf_pop: "wf q \<Longrightarrow> wf (pop n q)"
    and held_mk: "held mk = []"
    and held_push: "wf q \<Longrightarrow> held (push d q) = held q @ d"
    and held_pop: "wf q \<Longrightarrow> held (pop n q) = drop n (held q)"
begin

text \<open>What a run of partial reads of the given sizes takes out, in order.\<close>

fun pieces :: "nat list \<Rightarrow> 'q \<Rightarrow> bytes" where
  "pieces [] q = []"
| "pieces (n # ns) q = take n (held q) @ pieces ns (pop n q)"

lemma wf_fold_pop: "wf q \<Longrightarrow> wf (fold pop ns q)"
  by (induction ns arbitrary: q) (auto simp: wf_pop)

lemma wf_fold_push: "wf q \<Longrightarrow> wf (fold push ds q)"
  by (induction ds arbitrary: q) (auto simp: wf_push)

lemma held_fold_push: "wf q \<Longrightarrow> held (fold push ds q) = held q @ concat ds"
  by (induction ds arbitrary: q) (auto simp: wf_push held_push)

lemma pieces_conserve: "wf q \<Longrightarrow> pieces ns q @ held (fold pop ns q) = held q"
  by (induction ns arbitrary: q) (auto simp: wf_pop held_pop)

lemma fifo:
  "pieces ns (fold push ds mk) @ held (fold pop ns (fold push ds mk)) = concat ds"
  by (simp add: pieces_conserve wf_fold_push wf_mk held_fold_push held_mk)

end

interpretation bq: byte_queue "new_buffer kInitialSize" append_buf retrieve contents buf_ok
  by unfold_locales simp_all

end
