(* ===== verification/Timer.thy ===== *)
theory Timer
  imports Prelude "HOL-Library.Multiset"
begin

text \<open>
  The timer queue of \<open>src/net/my_socket_time.cpp\<close>: a multimap from expiry times to
  message headers, with its size and the earliest time kept beside it. Times are seconds.
  The locale \<open>due_queue\<close> is what the monitor needs of such a queue: entries leave
  earliest first and only when they are due. It is interpreted on the queue in the mode
  in which expired entries are not put back (\<open>m_ifTimeOutKick\<close> is not 0).
\<close>

section \<open>The multimap\<close>

record msg_header =
  mh_conn :: nat
  mh_iCurrsequence :: u64
  mh_sequence :: u32

record timer_queue =
  tq_map :: "(int \<times> msg_header) list"
  tq_cur_size :: nat
  tq_timer_value :: int
  tq_iWaitTime :: int
  tq_ifTimeOutKick :: int

text \<open>\<open>emplace\<close> puts an entry behind the ones with the same key.\<close>

fun mm_emplace :: "int \<Rightarrow> 'v \<Rightarrow> (int \<times> 'v) list \<Rightarrow> (int \<times> 'v) list" where
  "mm_emplace k v [] = [(k, v)]"
| "mm_emplace k v ((k', v') # m) =
     (if k < k' then (k, v) # (k', v') # m else (k', v') # mm_emplace k v m)"

definition GetEarliestTime :: "timer_queue \<Rightarrow> int" where
  "GetEarliestTime q = (case tq_map q of [] \<Rightarrow> 0 | (k, _) # _ \<Rightarrow> k)"

definition AddToTimmerQueue :: "int \<Rightarrow> nat \<Rightarrow> u64 \<Rightarrow> timer_queue \<Rightarrow> timer_queue" where
  "AddToTimmerQueue now pConn seq q =
     (let expiration = now + tq_iWaitTime q;
          hd = \<lparr>mh_conn = pConn, mh_iCurrsequence = seq, mh_sequence = 0\<rparr>;
          q' = q\<lparr>tq_map := mm_emplace expiration hd (tq_map q), tq_cur_size := tq_cur_size q + 1\<rparr>
      in q'\<lparr>tq_timer_value := GetEarliestTime q'\<rparr>)"

text \<open>
  The size is an unsigned number, so \<open>m_cur_size_ <= 0\<close> asks whether it is 0. With an
  empty map and another size the code would dereference \<open>end()\<close>; the invariant below
  excludes it, and the model leaves the queue alone there.
\<close>

definition RemoveFirstTimer :: "timer_queue \<Rightarrow> msg_header option \<times> timer_queue" where
  "RemoveFirstTimer q =
     (if tq_cur_size q = 0 then (None, q)
      else
        (case tq_map q of
           [] \<Rightarrow> (None, q)
         | (_, h) # m \<Rightarrow> (Some h, q\<lparr>tq_map := m, tq_cur_size := tq_cur_size q - 1\<rparr>)))"

definition GetOverTimeTimer :: "int \<Rightarrow> timer_queue \<Rightarrow> msg_header option \<times> timer_queue" where
  "GetOverTimeTimer currTime q =
     (if tq_map q = [] \<or> currTime < GetEarliestTime q then (None, q)
      else
        (let (h, q1) = RemoveFirstTimer q;
             q2 = (if tq_ifTimeOutKick q = 0
                   then (case h of
                           None \<Rightarrow> q1
                         | Some newHeader \<Rightarrow>
                             q1\<lparr>tq_map := mm_emplace (currTime + tq_iWaitTime q1) newHeader (tq_map q1),
                                tq_cur_size := tq_cur_size q1 + 1\<rparr>)
                   else q1)
         in (h, q2\<lparr>tq_timer_value := (if tq_map q2 = [] then 0 else GetEarliestTime q2)\<rparr>)))"

text \<open>The loop erases every entry of the connection and counts down for each.\<close>

fun erase_conn :: "nat \<Rightarrow> (int \<times> msg_header) list \<times> nat \<Rightarrow> (int \<times> msg_header) list \<times> nat" where
  "erase_conn c ([], n) = ([], n)"
| "erase_conn c ((k, h) # m, n) =
     (if mh_conn h = c then erase_conn c (m, n - 1)
      else (case erase_conn c (m, n) of (m', n') \<Rightarrow> ((k, h) # m', n')))"

definition DeleteFromTimerQueue :: "nat \<Rightarrow> timer_queue \<Rightarrow> timer_queue" where
  "DeleteFromTimerQueue pconn q =
     (case erase_conn pconn (tq_map q, tq_cur_size q) of
        (m, n) \<Rightarrow>
          (let q' = q\<lparr>tq_map := m, tq_cur_size := n\<rparr> in q'\<lparr>tq_timer_value := GetEarliestTime q'\<rparr>))"

definition clearAllFromTimerQueue :: "timer_queue \<Rightarrow> timer_queue" where
  "clearAllFromTimerQueue q = q\<lparr>tq_map := [], tq_cur_size := 0\<rparr>"

text \<open>
  The loop of the monitor thread that collects what is due, one after the other (\<open>None\<close> is a
  loop that does not end), and one turn of the thread: nothing unless the queue has entries and
  the earliest is due.
\<close>

partial_function (option) drain ::
  "int \<Rightarrow> msg_header list \<Rightarrow> timer_queue \<Rightarrow> (msg_header list \<times> timer_queue) option" where
  "drain currTime acc q =
     (case GetOverTimeTimer currTime q of
        (None, q') \<Rightarrow> Some (acc, q')
      | (Some h, q') \<Rightarrow> drain currTime (acc @ [h]) q')"

definition procPingTimeOutChecking :: "msg_header \<Rightarrow> int \<Rightarrow> timer_queue \<Rightarrow> timer_queue" where
  "procPingTimeOutChecking h cur_time q = q"

definition monitor_turn :: "int \<Rightarrow> timer_queue \<Rightarrow> timer_queue option" where
  "monitor_turn curr_time q =
     (if 0 < tq_cur_size q \<and> tq_timer_value q \<le> curr_time then
        (case drain curr_time [] q of
           None \<Rightarrow> None
         | Some (lst, q') \<Rightarrow> Some (fold (\<lambda>h. procPingTimeOutChecking h curr_time) lst q'))
      else Some q)"

section \<open>The invariant\<close>

definition tq_ok :: "timer_queue \<Rightarrow> bool" where
  "tq_ok q \<longleftrightarrow> sorted (map fst (tq_map q)) \<and> tq_cur_size q = length (tq_map q) \<and>
     (tq_map q \<noteq> [] \<longrightarrow> tq_timer_value q = GetEarliestTime q)"

lemma set_mm_emplace: "set (mm_emplace k v m) = insert (k, v) (set m)"
  by (induction k v m rule: mm_emplace.induct) auto

lemma mset_mm_emplace: "mset (mm_emplace k v m) = add_mset (k, v) (mset m)"
  by (induction k v m rule: mm_emplace.induct) auto

lemma length_mm_emplace [simp]: "length (mm_emplace k v m) = Suc (length m)"
  by (induction k v m rule: mm_emplace.induct) auto

lemma mm_emplace_nonempty [simp]: "mm_emplace k v m \<noteq> []"
  by (induction k v m rule: mm_emplace.induct) auto

lemma sorted_mm_emplace: "sorted (map fst m) \<Longrightarrow> sorted (map fst (mm_emplace k v m))"
  by (induction k v m rule: mm_emplace.induct) (auto simp: set_mm_emplace)

lemma mm_emplace_behind:
  "\<forall>e \<in> set m. fst e \<le> k \<Longrightarrow> mm_emplace k v m = m @ [(k, v)]"
  by (induction k v m rule: mm_emplace.induct) auto

lemma erase_conn_eq:
  "length m \<le> n \<Longrightarrow> erase_conn c (m, n) =
     (filter (\<lambda>e. mh_conn (snd e) \<noteq> c) m, n - length (filter (\<lambda>e. mh_conn (snd e) = c) m))"
  by (induction m arbitrary: n) auto

lemma erase_count:
  "length m - length (filter (\<lambda>e. mh_conn (snd e) = c) m) = length (filter (\<lambda>e. mh_conn (snd e) \<noteq> c) m)"
  using sum_length_filter_compl [of "\<lambda>e. mh_conn (snd e) = c" m] by simp

lemma add_ok: "tq_ok q \<Longrightarrow> tq_ok (AddToTimmerQueue now c seq q)"
  by (simp add: tq_ok_def AddToTimmerQueue_def Let_def sorted_mm_emplace GetEarliestTime_def)

lemma add_frame [simp]:
  "tq_ifTimeOutKick (AddToTimmerQueue now c seq q) = tq_ifTimeOutKick q"
  "tq_iWaitTime (AddToTimmerQueue now c seq q) = tq_iWaitTime q"
  by (simp_all add: AddToTimmerQueue_def Let_def)

lemma delete_frame [simp]:
  "tq_ifTimeOutKick (DeleteFromTimerQueue c q) = tq_ifTimeOutKick q"
  "tq_iWaitTime (DeleteFromTimerQueue c q) = tq_iWaitTime q"
  by (simp_all add: DeleteFromTimerQueue_def Let_def split: prod.split)

lemma delete_map:
  "tq_ok q \<Longrightarrow> tq_map (DeleteFromTimerQueue c q) = filter (\<lambda>e. mh_conn (snd e) \<noteq> c) (tq_map q)"
  by (simp add: DeleteFromTimerQueue_def Let_def tq_ok_def erase_conn_eq)

lemma delete_ok: "tq_ok q \<Longrightarrow> tq_ok (DeleteFromTimerQueue c q)"
  by (simp add: DeleteFromTimerQueue_def Let_def tq_ok_def erase_conn_eq erase_count GetEarliestTime_def
      sorted_filter)

lemma clear_ok: "tq_ok (clearAllFromTimerQueue q)"
  by (simp add: clearAllFromTimerQueue_def tq_ok_def)

text \<open>What one call takes out.\<close>

lemma over_time_none:
  "fst (GetOverTimeTimer t q) = None \<Longrightarrow> tq_ok q \<Longrightarrow>
     snd (GetOverTimeTimer t q) = q \<and> (\<forall>e \<in> set (tq_map q). t < fst e)"
  by (cases "tq_map q")
    (auto simp: GetOverTimeTimer_def RemoveFirstTimer_def tq_ok_def GetEarliestTime_def Let_def
      split: if_splits prod.splits)

definition after_head :: "int \<Rightarrow> msg_header \<Rightarrow> (int \<times> msg_header) list \<Rightarrow> timer_queue \<Rightarrow> (int \<times> msg_header) list" where
  "after_head t h m q = (if tq_ifTimeOutKick q = 0 then mm_emplace (t + tq_iWaitTime q) h m else m)"

lemma over_time_some:
  assumes "tq_ok q" and "tq_map q = (k, h) # m" and "k \<le> t"
  obtains q' where "GetOverTimeTimer t q = (Some h, q')" and "tq_ok q'"
    and "tq_map q' = after_head t h m q" and "tq_iWaitTime q' = tq_iWaitTime q"
    and "tq_ifTimeOutKick q' = tq_ifTimeOutKick q"
proof -
  let ?q = "q\<lparr>tq_map := after_head t h m q, tq_cur_size := length (after_head t h m q),
    tq_timer_value := (if after_head t h m q = [] then 0 else fst (hd (after_head t h m q)))\<rparr>"
  have e: "(case l of [] \<Rightarrow> 0 | (k, _) # _ \<Rightarrow> k) = (if l = [] then 0 else fst (hd l))"
    for l :: "(int \<times> msg_header) list"
    by (cases l) auto
  have "GetOverTimeTimer t q = (Some h, ?q)"
    using assms by (simp add: GetOverTimeTimer_def RemoveFirstTimer_def tq_ok_def GetEarliestTime_def
        Let_def after_head_def e split: prod.splits)
  moreover have "tq_ok ?q"
    using assms(1,2) by (auto simp: tq_ok_def after_head_def sorted_mm_emplace GetEarliestTime_def e)
  ultimately show ?thesis using that by simp
qed

section \<open>The contract\<close>

abbreviation due :: "int \<Rightarrow> int \<times> 'v \<Rightarrow> bool" where
  "due t e \<equiv> fst e \<le> t"

locale due_queue =
  fixes ins :: "int \<Rightarrow> 'v \<Rightarrow> 'q \<Rightarrow> 'q"
    and take_due :: "int \<Rightarrow> 'q \<Rightarrow> 'v option \<times> 'q"
    and entries :: "'q \<Rightarrow> (int \<times> 'v) multiset"
    and wf :: "'q \<Rightarrow> bool"
  assumes wf_ins: "wf q \<Longrightarrow> wf (ins k v q)"
    and entries_ins: "wf q \<Longrightarrow> entries (ins k v q) = add_mset (k, v) (entries q)"
    and take_none: "wf q \<Longrightarrow> fst (take_due t q) = None \<Longrightarrow>
      snd (take_due t q) = q \<and> filter_mset (due t) (entries q) = {#}"
    and take_some: "wf q \<Longrightarrow> take_due t q = (Some v, q') \<Longrightarrow>
      wf q' \<and> (\<exists>k. k \<le> t \<and> entries q = add_mset (k, v) (entries q'))"
begin

text \<open>At most \<open>n\<close> calls, until nothing is due.\<close>

fun serve :: "nat \<Rightarrow> int \<Rightarrow> 'q \<Rightarrow> 'v list \<times> 'q" where
  "serve 0 t q = ([], q)"
| "serve (Suc n) t q =
     (case take_due t q of
        (None, q') \<Rightarrow> ([], q')
      | (Some v, q') \<Rightarrow> (case serve n t q' of (vs, q2) \<Rightarrow> (v # vs, q2)))"

text \<open>As many calls as there are entries serve exactly the ones that are due.\<close>

lemma serve_all:
  "wf q \<Longrightarrow> size (entries q) \<le> n \<Longrightarrow>
     mset (fst (serve n t q)) = image_mset snd (filter_mset (due t) (entries q)) \<and>
     entries (snd (serve n t q)) = filter_mset (\<lambda>e. \<not> due t e) (entries q) \<and> wf (snd (serve n t q))"
proof (induction n arbitrary: q)
  case 0
  then show ?case by simp
next
  case (Suc n)
  show ?case
  proof (cases "take_due t q")
    case (Pair r q')
    show ?thesis
    proof (cases r)
      case None
      with Pair take_none [OF Suc.prems(1), of t] have "q' = q"
        and none: "filter_mset (due t) (entries q) = {#}" by auto
      then have "filter_mset (\<lambda>e. \<not> due t e) (entries q) = entries q"
        by (metis add.right_neutral multiset_partition add.commute)
      with Pair None none \<open>q' = q\<close> Suc.prems(1) show ?thesis by simp
    next
      case (Some v)
      with Pair take_some [OF Suc.prems(1), of t v q'] obtain k
        where ok: "wf q'" and k: "k \<le> t" and e: "entries q = add_mset (k, v) (entries q')" by auto
      with Suc.IH [OF ok] Suc.prems(2) Pair Some show ?thesis by (auto split: prod.splits)
    qed
  qed
qed

end

text \<open>An entry as the monitor sees it: the connection and the sequence number it had.\<close>

definition ident :: "msg_header \<Rightarrow> nat \<times> u64" where
  "ident h = (mh_conn h, mh_iCurrsequence h)"

definition timer_entries :: "timer_queue \<Rightarrow> (int \<times> nat \<times> u64) multiset" where
  "timer_entries q = image_mset (\<lambda>e. (fst e, ident (snd e))) (mset (tq_map q))"

definition take_ident :: "int \<Rightarrow> timer_queue \<Rightarrow> (nat \<times> u64) option \<times> timer_queue" where
  "take_ident t q = (case GetOverTimeTimer t q of (h, q') \<Rightarrow> (map_option ident h, q'))"

lemma timer_entries_none:
  "\<forall>e \<in> set (tq_map q). t < fst e \<Longrightarrow> filter_mset (due t) (timer_entries q) = {#}"
  by (auto simp: timer_entries_def filter_mset_eq_conv not_le)

interpretation kicking: due_queue
  "\<lambda>k v q. AddToTimmerQueue (k - tq_iWaitTime q) (fst v) (snd v) q" take_ident timer_entries
  "\<lambda>q. tq_ok q \<and> tq_ifTimeOutKick q \<noteq> 0"
proof unfold_locales
  fix q :: timer_queue and k v t q'
  assume wf: "tq_ok q \<and> tq_ifTimeOutKick q \<noteq> 0"
  show "tq_ok (AddToTimmerQueue (k - tq_iWaitTime q) (fst v) (snd v) q) \<and>
      tq_ifTimeOutKick (AddToTimmerQueue (k - tq_iWaitTime q) (fst v) (snd v) q) \<noteq> 0"
    using wf add_ok [of q] add_frame [of "k - tq_iWaitTime q" "fst v" "snd v" q] by metis
  show "timer_entries (AddToTimmerQueue (k - tq_iWaitTime q) (fst v) (snd v) q) =
      add_mset (k, v) (timer_entries q)"
    by (simp add: timer_entries_def AddToTimmerQueue_def Let_def mset_mm_emplace ident_def)
  show "snd (take_ident t q) = q \<and> filter_mset (due t) (timer_entries q) = {#}"
    if "fst (take_ident t q) = None"
    using that wf over_time_none [of t q] timer_entries_none [of q t]
    by (auto simp: take_ident_def split: prod.splits)
  assume s: "take_ident t q = (Some v, q')"
  then obtain h where g: "GetOverTimeTimer t q = (Some h, q')" and v: "v = ident h"
    by (auto simp: take_ident_def split: prod.splits)
  then obtain k0 h0 m where m: "tq_map q = (k0, h0) # m" and k0: "k0 \<le> t"
    by (cases "tq_map q") (auto simp: GetOverTimeTimer_def GetEarliestTime_def split: if_splits)
  obtain q2 where "GetOverTimeTimer t q = (Some h0, q2)" "tq_ok q2" "tq_map q2 = after_head t h0 m q"
    "tq_ifTimeOutKick q2 = tq_ifTimeOutKick q"
    using wf by (auto intro: over_time_some [OF _ m k0])
  with g v wf m k0 show "(tq_ok q' \<and> tq_ifTimeOutKick q' \<noteq> 0) \<and>
      (\<exists>k. k \<le> t \<and> timer_entries q = add_mset (k, v) (timer_entries q'))"
    by (auto simp: timer_entries_def after_head_def)
qed

section \<open>Draining\<close>

lemma filter_emplace_due:
  "t < k \<Longrightarrow> filter (due t) (mm_emplace k v m) = filter (due t) m"
  by (induction k v m rule: mm_emplace.induct) auto

lemma mset_filter_emplace:
  "mset (filter P (mm_emplace k v m)) =
     (if P (k, v) then add_mset (k, v) (mset (filter P m)) else mset (filter P m))"
  by (simp add: mset_filter mset_mm_emplace)

text \<open>Entries that are put back are not due again when the waiting time is positive.\<close>

definition put_back :: "int \<Rightarrow> timer_queue \<Rightarrow> (int \<times> msg_header) list \<Rightarrow> (int \<times> msg_header) multiset" where
  "put_back t q es =
     (if tq_ifTimeOutKick q = 0 then image_mset (\<lambda>e. (t + tq_iWaitTime q, snd e)) (mset es) else {#})"

lemma drain_all:
  assumes "tq_ok q" and "tq_ifTimeOutKick q \<noteq> 0 \<or> 0 < tq_iWaitTime q"
  shows "\<exists>q'. drain t acc q = Some (acc @ map snd (filter (due t) (tq_map q)), q') \<and> tq_ok q' \<and>
    mset (tq_map q') = mset (filter (\<lambda>e. \<not> due t e) (tq_map q)) + put_back t q (filter (due t) (tq_map q))"
  using assms
proof (induction "length (filter (due t) (tq_map q))" arbitrary: q acc)
  case 0
  then have none: "filter (due t) (tq_map q) = []" by simp
  then have all: "\<forall>e \<in> set (tq_map q). t < fst e" by (auto simp: filter_empty_conv not_le)
  then have "GetOverTimeTimer t q = (None, q)"
    by (cases "tq_map q") (auto simp: GetOverTimeTimer_def GetEarliestTime_def)
  then have "drain t acc q = Some (acc, q)" by (subst drain.simps) simp
  moreover have "filter (\<lambda>e. \<not> due t e) (tq_map q) = tq_map q" using all by (simp add: filter_id_conv not_le)
  ultimately show ?case using none 0 by (simp add: put_back_def)
next
  case (Suc n)
  then obtain k h m where m: "tq_map q = (k, h) # m" by (cases "tq_map q") auto
  have s: "sorted (map fst (tq_map q))" using Suc.prems(1) by (simp add: tq_ok_def)
  have "\<exists>e \<in> set (tq_map q). due t e" using Suc.hyps(2)
    by (metis filter_False length_0_conv nat.distinct(1))
  then have k: "k \<le> t" using s m by auto
  obtain q' where step: "GetOverTimeTimer t q = (Some h, q')" and ok: "tq_ok q'"
    and m': "tq_map q' = after_head t h m q" and w: "tq_iWaitTime q' = tq_iWaitTime q"
    and kk: "tq_ifTimeOutKick q' = tq_ifTimeOutKick q"
    by (rule over_time_some [OF Suc.prems(1) m k])
  have due': "filter (due t) (tq_map q') = filter (due t) m"
    using Suc.prems(2) by (auto simp: m' after_head_def filter_emplace_due)
  have "n = length (filter (due t) (tq_map q'))" using Suc.hyps(2) m k due' by simp
  from Suc.hyps(1) [OF this ok, of "acc @ [h]"] Suc.prems(2) w kk due' obtain q2
    where d: "drain t (acc @ [h]) q' = Some ((acc @ [h]) @ map snd (filter (due t) m), q2)"
      and ok2: "tq_ok q2"
      and ms: "mset (tq_map q2) = mset (filter (\<lambda>e. \<not> due t e) (tq_map q')) + put_back t q' (filter (due t) m)"
    by auto
  have "mset (filter (\<lambda>e. \<not> due t e) (tq_map q')) =
      mset (filter (\<lambda>e. \<not> due t e) m) + put_back t q [(k, h)]"
    using Suc.prems(2) by (auto simp: m' after_head_def put_back_def mset_filter_emplace simp del: mset_filter)
  moreover have "put_back t q' es = put_back t q es" for es by (simp add: put_back_def w kk)
  moreover have "put_back t q ((k, h) # filter (due t) m) =
      put_back t q [(k, h)] + put_back t q (filter (due t) m)"
    by (simp add: put_back_def)
  ultimately have "mset (tq_map q2) = mset (filter (\<lambda>e. \<not> due t e) (tq_map q)) +
      put_back t q (filter (due t) (tq_map q))"
    using ms m k by (simp add: ac_simps del: mset_filter)
  moreover have "drain t acc q = drain t (acc @ [h]) q'" by (subst drain.simps) (simp add: step)
  ultimately show ?case using d ok2 m k by auto
qed

lemma over_time_ok:
  assumes "tq_ok q"
  shows "tq_ok (snd (GetOverTimeTimer t q))"
proof (cases "fst (GetOverTimeTimer t q)")
  case None
  then show ?thesis using over_time_none [OF None assms] assms by simp
next
  case (Some h)
  then obtain k0 h0 m where m: "tq_map q = (k0, h0) # m" and k0: "k0 \<le> t"
    by (cases "tq_map q") (auto simp: GetOverTimeTimer_def GetEarliestTime_def split: if_splits)
  then show ?thesis by (metis over_time_some [OF assms m k0] snd_conv)
qed

section \<open>Properties\<close>

text \<open>
  C16: One turn of the monitor thread, with the test of its guard, takes out exactly the entries
  whose time has come, earliest first, each for the time-out check; the entries that were
  not due stay, and in the mode that keeps connections each expired one comes back with a full
  waiting time. The turn ends, provided expired entries are dropped or the waiting time is positive:
  otherwise an entry that comes back is due again at once.
\<close>

theorem monitor_takes_due:
  assumes "tq_ok q" and "tq_ifTimeOutKick q \<noteq> 0 \<or> 0 < tq_iWaitTime q"
  shows "\<exists>q1. monitor_turn t q = Some q1 \<and> drain t [] q = Some (map snd (filter (due t) (tq_map q)), q1) \<and> tq_ok q1 \<and>
    mset (tq_map q1) = mset (filter (\<lambda>e. \<not> due t e) (tq_map q)) +
      (if tq_ifTimeOutKick q = 0
       then image_mset (\<lambda>e. (t + tq_iWaitTime q, snd e)) (mset (filter (due t) (tq_map q))) else {#})"
proof -
  obtain q1 where q1: "drain t [] q = Some (map snd (filter (due t) (tq_map q)), q1)" "tq_ok q1"
    "mset (tq_map q1) = mset (filter (\<lambda>e. \<not> due t e) (tq_map q)) + put_back t q (filter (due t) (tq_map q))"
    using drain_all [OF assms, of t "[]"] by auto
  have f: "fold (\<lambda>h. procPingTimeOutChecking h t) hs x = x" for hs x
    by (induction hs) (simp_all add: procPingTimeOutChecking_def)
  show ?thesis
  proof (cases "0 < tq_cur_size q \<and> tq_timer_value q \<le> t")
    case True
    then show ?thesis using q1 by (intro exI [of _ q1]) (simp add: monitor_turn_def f put_back_def)
  next
    case False
    have none: "filter (due t) (tq_map q) = []"
    proof (cases "tq_map q")
      case (Cons e m)
      then have "t < fst e" "\<forall>x \<in> set m. fst e \<le> fst x"
        using False assms(1) by (auto simp: tq_ok_def GetEarliestTime_def split: prod.splits)
      then show ?thesis unfolding Cons by (auto simp: filter_empty_conv)
    qed simp
    then have "tq_map q = [] \<or> t < GetEarliestTime q"
      by (cases "tq_map q") (auto simp: GetEarliestTime_def filter_empty_conv split: if_splits prod.splits)
    then have "drain t [] q = Some ([], q)" by (subst drain.simps) (simp add: GetOverTimeTimer_def)
    moreover from this have "q1 = q" using q1(1) none by simp
    moreover have "put_back t q [] = {#}" by (simp add: put_back_def)
    then have "mset (tq_map q1) = mset (filter (\<lambda>e. \<not> due t e) (tq_map q))" using q1(3) none by simp
    ultimately show ?thesis using False q1(2) none by (intro exI [of _ q]) (simp add: monitor_turn_def)
  qed
qed

definition demo_timers :: timer_queue where
  "demo_timers = \<lparr>tq_map = [], tq_cur_size = 0, tq_timer_value = 0, tq_iWaitTime = 20, tq_ifTimeOutKick = 0\<rparr>"

lemma monitor_takes_due_witness:
  "\<exists>q'. monitor_turn 25 (AddToTimmerQueue 5 2 1 (AddToTimmerQueue 8 4 1 (AddToTimmerQueue 1 3 1 demo_timers))) = Some q' \<and>
     mset (map fst (tq_map q')) = {#28, 45, 45#}"
proof -
  let ?q = "AddToTimmerQueue 5 2 1 (AddToTimmerQueue 8 4 1 (AddToTimmerQueue 1 3 1 demo_timers))"
  have ok: "tq_ok ?q" by (intro add_ok) (simp add: demo_timers_def tq_ok_def)
  have w: "tq_iWaitTime ?q = 20" "tq_ifTimeOutKick ?q = 0" by (simp_all add: demo_timers_def)
  have m: "tq_map ?q = [(21, \<lparr>mh_conn = 3, mh_iCurrsequence = 1, mh_sequence = 0\<rparr>),
      (25, \<lparr>mh_conn = 2, mh_iCurrsequence = 1, mh_sequence = 0\<rparr>),
      (28, \<lparr>mh_conn = 4, mh_iCurrsequence = 1, mh_sequence = 0\<rparr>)]"
    by (simp add: AddToTimmerQueue_def demo_timers_def Let_def)
  obtain q' where "monitor_turn 25 ?q = Some q'" "mset (tq_map q') = mset (filter (\<lambda>e. \<not> due 25 e) (tq_map ?q)) +
      image_mset (\<lambda>e. (25 + tq_iWaitTime ?q, snd e)) (mset (filter (due 25) (tq_map ?q)))"
    using monitor_takes_due [OF ok, of 25] w by auto
  then show ?thesis unfolding w m by (intro exI [of _ q']) simp
qed

text \<open>
  C27: every operation of the timer queue keeps it sorted by time, with its size and its
  earliest time up to date.
\<close>

theorem timer_invariant:
  assumes "tq_ok q"
  shows "tq_ok (AddToTimmerQueue now c seq q) \<and> tq_ok (DeleteFromTimerQueue c q) \<and>
    tq_ok (snd (GetOverTimeTimer t q)) \<and> tq_ok (clearAllFromTimerQueue q)"
  using assms by (simp add: add_ok delete_ok clear_ok over_time_ok)

lemma timer_invariant_witness:
  "tq_ok (DeleteFromTimerQueue 1 demo_timers) \<and> tq_ok (AddToTimmerQueue 3 1 7 demo_timers)"
proof -
  have "tq_ok demo_timers" by (simp add: demo_timers_def tq_ok_def)
  from timer_invariant [OF this] show ?thesis by blast
qed

text \<open>
  A connection that is deleted from the queue has no entry in it, and the entries of
  the others are untouched, in their order.
\<close>

theorem timer_deleted:
  assumes "tq_ok q"
  shows "tq_map (DeleteFromTimerQueue c q) = filter (\<lambda>e. mh_conn (snd e) \<noteq> c) (tq_map q) \<and>
    tq_cur_size (DeleteFromTimerQueue c q) = length (filter (\<lambda>e. mh_conn (snd e) \<noteq> c) (tq_map q))"
  using delete_map [OF assms] delete_ok [OF assms, of c] by (simp add: tq_ok_def)

lemma timer_deleted_witness: "tq_map (DeleteFromTimerQueue 1 (AddToTimmerQueue 3 1 7 demo_timers)) = []"
proof -
  have "tq_ok (AddToTimmerQueue 3 1 7 demo_timers)" by (intro add_ok) (simp add: demo_timers_def tq_ok_def)
  from timer_deleted [OF this, of 1] show ?thesis
    by (simp add: AddToTimmerQueue_def demo_timers_def Let_def)
qed

text \<open>
  Where expired entries are dropped, as many calls of \<open>GetOverTimeTimer\<close> as the
  queue has entries hand out exactly the due ones, each once, and leave the others.
\<close>

theorem timer_serves_due:
  assumes "tq_ok q" and "tq_ifTimeOutKick q \<noteq> 0"
  shows "mset (fst (kicking.serve (size (timer_entries q)) t q)) =
      image_mset snd (filter_mset (due t) (timer_entries q)) \<and>
    timer_entries (snd (kicking.serve (size (timer_entries q)) t q)) =
      filter_mset (\<lambda>e. \<not> due t e) (timer_entries q)"
  using kicking.serve_all [of q "size (timer_entries q)" t] assms by simp

lemma timer_serves_due_witness:
  "timer_entries (snd (kicking.serve (size (timer_entries (demo_timers\<lparr>tq_ifTimeOutKick := 1\<rparr>))) 0
     (demo_timers\<lparr>tq_ifTimeOutKick := 1\<rparr>))) = {#}"
proof -
  have ok: "tq_ok (demo_timers\<lparr>tq_ifTimeOutKick := 1\<rparr>)" by (simp add: demo_timers_def tq_ok_def)
  show ?thesis using timer_serves_due [OF ok, of 0] by (simp add: timer_entries_def demo_timers_def)
qed

end
