(* ===== verification/Systems.thy ===== *)
theory Systems
  imports Main
begin

text \<open>
  What the theories on running systems share: invariants of a step relation along its runs
  (locale \<open>invariant_system\<close>), and invariants with a budget, for steps that use up numbers of
  a fixed width: a step of cost \<open>c\<close> needs \<open>c\<close> more numbers to be left (locale
  \<open>metered_system\<close>). A system whose steps are runs of a metered one, each within the budget it
  begins with, keeps the invariant (locale \<open>metered_layer\<close>).
\<close>

section \<open>Invariants\<close>

lemmas run_start = rtranclp.rtrancl_refl
lemmas run_more = rtranclp.rtrancl_into_rtrancl
lemmas run_trans = rtranclp_trans

locale invariant_system =
  fixes step :: "'s \<Rightarrow> 's \<Rightarrow> bool"
    and inv :: "'s \<Rightarrow> bool"
  assumes kept: "step s s' \<Longrightarrow> inv s \<Longrightarrow> inv s'"
begin

lemma always: "step\<^sup>*\<^sup>* s s' \<Longrightarrow> inv s \<Longrightarrow> inv s'"
  by (induction rule: rtranclp_induct) (auto intro: kept)

end

section \<open>Invariants with a budget\<close>

inductive spends :: "(nat \<Rightarrow> 's \<Rightarrow> 's \<Rightarrow> bool) \<Rightarrow> nat \<Rightarrow> 's \<Rightarrow> 's \<Rightarrow> bool" for step where
  none: "spends step 0 s s"
| more: "spends step c s t \<Longrightarrow> step d t u \<Longrightarrow> spends step (c + d) s u"

lemma spends_step: "step d s t \<Longrightarrow> spends step d s t"
  using spends.more [OF spends.none, of step d s t] by simp

lemma spends_trans:
  assumes "spends step d t u" and "spends step c s t"
  shows "spends step (c + d) s u"
  using assms
proof induction
  case (more d t u e v)
  then show ?case using spends.more [of step "c + d" s u e v] by (simp add: add.assoc)
qed simp

lemma spends_then: "spends step c s t \<Longrightarrow> step d t u \<Longrightarrow> n = c + d \<Longrightarrow> spends step n s u"
  by (simp add: spends.more)

locale metered_system =
  fixes step :: "nat \<Rightarrow> 's \<Rightarrow> 's \<Rightarrow> bool"
    and inv :: "nat \<Rightarrow> 's \<Rightarrow> bool"
  assumes pays: "step c s s' \<Longrightarrow> inv (c + k) s \<Longrightarrow> inv k s'"
begin

lemma pays_run: "spends step c s s' \<Longrightarrow> inv (c + k) s \<Longrightarrow> inv k s'"
proof (induction arbitrary: k rule: spends.induct)
  case (more c s t d u)
  have "inv (d + k) t" using more.IH [of "d + k"] more.prems by (simp add: add.assoc)
  then show ?case by (rule pays [OF more.hyps(2)])
qed simp

end

locale metered_layer = metered_system +
  fixes big :: "'t \<Rightarrow> 't \<Rightarrow> bool"
    and view :: "'t \<Rightarrow> 's"
  assumes refined: "big t t' \<Longrightarrow> inv 0 (view t) \<Longrightarrow> \<exists>c. spends step c (view t) (view t') \<and> inv c (view t)"

sublocale metered_layer \<subseteq> layer: invariant_system big "\<lambda>t. inv 0 (view t)"
proof
  fix t t' assume "big t t'" and i: "inv 0 (view t)"
  then obtain c where "spends step c (view t) (view t')" "inv c (view t)" using refined by blast
  then show "inv 0 (view t')" using pays_run [of c "view t" "view t'" 0] by simp
qed

end
