(* ===== verification/ConnPool.thy ===== *)
theory ConnPool
  imports HttpContext Buffer Timer Systems
begin

text \<open>
  Connections and their pool: \<open>src/net/my_socket_conn.cpp\<close>,
  \<open>src/net/my_socket_accept.cpp\<close>, the epoll bookkeeping and the closing of a connection in
  \<open>src/net/my_socket.cpp\<close>, and the structures of \<open>include/net/my_socket.h\<close>. The
  pool owns its connections and never drops one while it works, so a connection is its
  index in \<open>m_connectionList\<close> and a weak pointer to it can always be locked. The
  kernel's part is the table of descriptors registered with epoll and the list of
  descriptors that were closed; whether a system call succeeds is an argument.
\<close>

section \<open>Data\<close>

datatype read_handler = No_read | Event_accept | Http_read
datatype write_handler = No_write | Http_write

type_synonym address = "nat \<times> nat \<times> nat \<times> nat"

record connection =
  cn_fd :: int
  cn_listening :: "int option"
  cn_iCurrsequence :: u64
  cn_sockaddr :: "address option"
  cn_rhandler :: read_handler
  cn_whandler :: write_handler
  cn_events :: u32
  cn_inRecyTime :: int
  cn_lastPingTime :: int
  cn_FloodKickLastTime :: u64
  cn_FloodAttackCount :: int
  cn_iSendCount :: int
  cn_context :: http_context
  cn_sendCount :: int
  cn_psendbuf :: buffer
  cn_ishttpClose :: bool
  cn_sequence :: u32
  cn_id :: int

definition new_connection :: "nat \<Rightarrow> connection" where
  "new_connection self =
     \<lparr>cn_fd = -1, cn_listening = None, cn_iCurrsequence = 0, cn_sockaddr = None,
      cn_rhandler = No_read, cn_whandler = No_write, cn_events = 0, cn_inRecyTime = 0,
      cn_lastPingTime = 0, cn_FloodKickLastTime = 0, cn_FloodAttackCount = 0, cn_iSendCount = 0,
      cn_context = new_context self, cn_sendCount = 0, cn_psendbuf = new_buffer kInitialSize,
      cn_ishttpClose = True, cn_sequence = 0, cn_id = 0\<rparr>"

text \<open>\<open>psendbuf\<close>, \<open>events\<close> and \<open>sendCount\<close> are not reset.\<close>

definition GetOneToUse :: "int \<Rightarrow> connection \<Rightarrow> connection" where
  "GetOneToUse sockfd c =
     c\<lparr>cn_inRecyTime := 0, cn_lastPingTime := 0, cn_FloodKickLastTime := 0,
       cn_FloodAttackCount := 0, cn_iSendCount := 0, cn_ishttpClose := True,
       cn_context := reset (cn_context c), cn_sequence := 0,
       cn_iCurrsequence := cn_iCurrsequence c + 1, cn_fd := sockfd\<rparr>"

definition PutOneToFree :: "connection \<Rightarrow> connection" where
  "PutOneToFree c = c\<lparr>cn_iCurrsequence := cn_iCurrsequence c + 1\<rparr>"

record csock =
  so_worker_connections :: int
  so_RecyConnectionWaitTime :: int
  so_ifkickTimeCount :: int
  so_floodAkEnable :: int
  so_floodTimeInterval :: u32
  so_floodKickCount :: int
  so_connectionList :: "connection list"
  so_freeConnectionList :: "nat list"
  so_recyconnectionList :: "nat list"
  so_total_connection_n :: int
  so_free_connection_n :: int
  so_total_recyconnection_n :: int
  so_onlineUserCount :: int
  so_timer :: timer_queue
  so_use_accept4 :: bool
  so_epoll :: "int \<rightharpoonup> u32 \<times> nat"
  so_closed :: "int list"
  so_MsgSendQueue :: "(msg_header \<times> bytes) list"
  so_iSendMsgQueueCount :: int
  so_iDiscardSendPkgCount :: int
  so_MsgRecvQueue :: "(msg_header \<times> bytes) list"

definition conn :: "nat \<Rightarrow> csock \<Rightarrow> connection" where
  "conn a s = so_connectionList s ! a"

definition upd_conn :: "nat \<Rightarrow> (connection \<Rightarrow> connection) \<Rightarrow> csock \<Rightarrow> csock" where
  "upd_conn a f s = s\<lparr>so_connectionList := (so_connectionList s)[a := f (conn a s)]\<rparr>"

section \<open>The pool\<close>

text \<open>One connection more, with the identifier it is given, free at once.\<close>

definition add_connection :: "int \<Rightarrow> csock \<Rightarrow> csock" where
  "add_connection i s =
     (let a = length (so_connectionList s);
          c = (GetOneToUse (-1) (new_connection a))\<lparr>cn_id := i\<rparr>
      in s\<lparr>so_connectionList := so_connectionList s @ [c],
           so_freeConnectionList := so_freeConnectionList s @ [a]\<rparr>)"

definition initconnection :: "csock \<Rightarrow> csock" where
  "initconnection s =
     (let s' = fold (\<lambda>i. add_connection (int i)) [0..<nat (so_worker_connections s)] s;
          n = int (length (so_connectionList s'))
      in s'\<lparr>so_total_connection_n := n, so_free_connection_n := n\<rparr>)"

definition clearconnection :: "csock \<Rightarrow> csock" where
  "clearconnection s =
     s\<lparr>so_connectionList := [], so_freeConnectionList := [],
       so_total_connection_n := 0, so_free_connection_n := 0\<rparr>"

definition create_one :: "nat \<Rightarrow> csock \<Rightarrow> csock" where
  "create_one i s =
     (let s1 = add_connection (int i + so_total_connection_n s) s
      in s1\<lparr>so_free_connection_n := so_free_connection_n s1 + 1\<rparr>)"

definition create_connection :: "csock \<Rightarrow> csock" where
  "create_connection s =
     (let s' = fold create_one [0..<nat (so_worker_connections s)] s
      in s'\<lparr>so_total_connection_n := int (length (so_connectionList s'))\<rparr>)"

text \<open>The loop goes on until the free list has an entry; \<open>None\<close> is a loop without end.\<close>

partial_function (option) ngx_get_connection :: "int \<Rightarrow> csock \<Rightarrow> (nat \<times> csock) option" where
  "ngx_get_connection isock s =
     (case so_freeConnectionList s of
        a # fr \<Rightarrow>
          Some (a, upd_conn a (GetOneToUse isock)
            (s\<lparr>so_freeConnectionList := fr,
               so_free_connection_n := so_free_connection_n s - 1,
               so_onlineUserCount := so_onlineUserCount s + 1\<rparr>))
      | [] \<Rightarrow> ngx_get_connection isock (create_connection s))"

definition ngx_free_connection :: "nat \<Rightarrow> csock \<Rightarrow> csock" where
  "ngx_free_connection a s =
     (upd_conn a PutOneToFree s)
       \<lparr>so_freeConnectionList := so_freeConnectionList s @ [a],
        so_free_connection_n := so_free_connection_n s + 1\<rparr>"

text \<open>A connection that is in the queue already, by its identifier, is left alone.\<close>

definition inRecyConnectQueue :: "int \<Rightarrow> nat \<Rightarrow> csock \<Rightarrow> csock" where
  "inRecyConnectQueue now a s =
     (if \<exists>b \<in> set (so_recyconnectionList s). cn_id (conn b s) = cn_id (conn a s) then s
      else
        (upd_conn a (\<lambda>c. c\<lparr>cn_inRecyTime := now, cn_iCurrsequence := cn_iCurrsequence c + 1\<rparr>) s)
          \<lparr>so_total_recyconnection_n := so_total_recyconnection_n s - 1,
           so_onlineUserCount := so_onlineUserCount s - 1,
           so_recyconnectionList := so_recyconnectionList s @ [a]\<rparr>)"

text \<open>One turn of the recycling thread: the entries whose time is up are freed.\<close>

fun recy_loop :: "int \<Rightarrow> nat list \<Rightarrow> csock \<Rightarrow> nat list \<times> csock" where
  "recy_loop now [] s = ([], s)"
| "recy_loop now (a # rs) s =
     (if cn_inRecyTime (conn a s) + so_RecyConnectionWaitTime s \<le> now
      then recy_loop now rs (ngx_free_connection a s)
      else (case recy_loop now rs s of (kept, s') \<Rightarrow> (a # kept, s')))"

definition ServerRecyConnection_turn :: "int \<Rightarrow> csock \<Rightarrow> csock" where
  "ServerRecyConnection_turn now s =
     (if 0 < so_total_connection_n s then
        (case recy_loop now (so_recyconnectionList s) s of
           (kept, s') \<Rightarrow> s'\<lparr>so_recyconnectionList := kept\<rparr>)
      else s)"

section \<open>Descriptors\<close>

text \<open>\<open>close\<close> takes the descriptor out of the epoll table.\<close>

definition close_fd :: "int \<Rightarrow> csock \<Rightarrow> csock" where
  "close_fd fd s = s\<lparr>so_epoll := (so_epoll s)(fd := None), so_closed := so_closed s @ [fd]\<rparr>"

definition ngx_close_connection :: "nat \<Rightarrow> csock \<Rightarrow> csock" where
  "ngx_close_connection a s =
     (let s' = (if cn_fd (conn a s) \<noteq> -1
                then upd_conn a (\<lambda>c. c\<lparr>cn_fd := -1\<rparr>) (close_fd (cn_fd (conn a s)) s) else s)
      in ngx_free_connection a s')"

datatype epoll_op = EPOLL_CTL_ADD | EPOLL_CTL_MOD | EPOLL_CTL_DEL

definition EPOLLIN :: u32 where "EPOLLIN = 0x001"
definition EPOLLOUT :: u32 where "EPOLLOUT = 0x004"
definition EPOLLERR :: u32 where "EPOLLERR = 0x008"
definition EPOLLHUP :: u32 where "EPOLLHUP = 0x010"
definition EPOLLRDHUP :: u32 where "EPOLLRDHUP = 0x2000"

text \<open>
  \<open>epoll_ctl\<close> fails when it adds a descriptor it has or changes one it does not have, and
  when the kernel has no memory (\<open>\<not> mem\<close>).
\<close>

definition epoll_ctl ::
  "bool \<Rightarrow> epoll_op \<Rightarrow> int \<Rightarrow> u32 \<Rightarrow> nat \<Rightarrow> csock \<Rightarrow> bool \<times> csock" where
  "epoll_ctl mem op fd ev a s =
     (case op of
        EPOLL_CTL_ADD \<Rightarrow>
          if so_epoll s fd = None \<and> mem then (True, s\<lparr>so_epoll := (so_epoll s)(fd \<mapsto> (ev, a))\<rparr>)
          else (False, s)
      | EPOLL_CTL_MOD \<Rightarrow>
          if so_epoll s fd \<noteq> None \<and> mem then (True, s\<lparr>so_epoll := (so_epoll s)(fd \<mapsto> (ev, a))\<rparr>)
          else (False, s)
      | EPOLL_CTL_DEL \<Rightarrow>
          if so_epoll s fd \<noteq> None then (True, s\<lparr>so_epoll := (so_epoll s)(fd := None)\<rparr>)
          else (False, s))"

unbundle bit_operations_syntax

definition ngx_epoll_oper_event ::
  "bool \<Rightarrow> int \<Rightarrow> epoll_op \<Rightarrow> u32 \<Rightarrow> int \<Rightarrow> nat \<Rightarrow> csock \<Rightarrow> bool \<times> csock" where
  "ngx_epoll_oper_event mem fd eventtype flag bcaction a s =
     (case eventtype of
        EPOLL_CTL_ADD \<Rightarrow> epoll_ctl mem EPOLL_CTL_ADD fd flag a s
      | EPOLL_CTL_MOD \<Rightarrow>
          (let old = cn_events (conn a s);
               ev = (if bcaction = 0 then old OR flag
                     else if bcaction = 1 then old AND (NOT flag)
                     else flag)
           in epoll_ctl mem EPOLL_CTL_MOD fd ev a (upd_conn a (\<lambda>c. c\<lparr>cn_events := ev\<rparr>) s))
      | EPOLL_CTL_DEL \<Rightarrow> epoll_ctl mem EPOLL_CTL_DEL fd 0 a s)"

definition zdClosesocketProc :: "int \<Rightarrow> nat \<Rightarrow> csock \<Rightarrow> csock" where
  "zdClosesocketProc now a s =
     (let s1 = (if so_ifkickTimeCount s = 1
                then s\<lparr>so_timer := DeleteFromTimerQueue a (so_timer s)\<rparr> else s);
          fd = cn_fd (conn a s1);
          s2 = (if fd \<noteq> -1
                then upd_conn a (\<lambda>c. c\<lparr>cn_fd := -1\<rparr>)
                       (close_fd fd (snd (ngx_epoll_oper_event True fd EPOLL_CTL_DEL 0 0 a s1)))
                else s1)
      in inRecyConnectQueue now a s2)"

section \<open>Accepting\<close>

text \<open>
  What one \<open>accept4\<close> or \<open>accept\<close> gives: a descriptor with the peer's address, and
  whether it can be made non-blocking and registered, or an error.
\<close>

datatype accept_errno = EAGAIN | ECONNABORTED | EMFILE | ENFILE | ENOSYS | Other_errno

datatype accept_result = Accepted int address bool bool | Failed accept_errno

text \<open>
  A new descriptor. The boolean says whether the loop goes on; \<open>None\<close> is the endless
  loop of \<open>ngx_get_connection\<close>.
\<close>

definition accept_one ::
  "int \<Rightarrow> nat \<Rightarrow> int \<Rightarrow> address \<Rightarrow> bool \<Rightarrow> bool \<Rightarrow> csock \<Rightarrow> (bool \<times> csock) option" where
  "accept_one now oldc sockfd addr nonblock_ok mem s =
     (if so_worker_connections s \<le> so_onlineUserCount s then Some (False, close_fd sockfd s)
      else if word_of_int (so_worker_connections s * 5) < (of_nat (length (so_connectionList s)) :: u64) \<and>
        (of_nat (length (so_freeConnectionList s)) :: u64) < word_of_int (so_worker_connections s)
      then Some (False, close_fd sockfd s)
      else
        (case ngx_get_connection sockfd s of
           None \<Rightarrow> None
         | Some (a, s1) \<Rightarrow>
             (let s2 = upd_conn a (\<lambda>c. c\<lparr>cn_sockaddr := Some addr\<rparr>) s1 in
              if \<not> so_use_accept4 s2 \<and> \<not> nonblock_ok then Some (False, ngx_close_connection a s2)
              else
                (let s3 = upd_conn a (\<lambda>c. c\<lparr>cn_listening := cn_listening (conn oldc s2),
                            cn_rhandler := Http_read, cn_whandler := Http_write\<rparr>) s2;
                     (added, s4) = ngx_epoll_oper_event mem sockfd EPOLL_CTL_ADD EPOLLIN 0 a s3
                 in if \<not> added then Some (False, ngx_close_connection a s4)
                    else
                      Some (True, if so_ifkickTimeCount s4 = 1
                        then s4\<lparr>so_timer := AddToTimmerQueue now a (cn_iCurrsequence (conn a s4)) (so_timer s4)\<rparr>
                        else s4)))))"

text \<open>
  The loop over what the kernel gives; at the end of the list nothing is waiting
  (\<open>EAGAIN\<close>). Without \<open>accept4\<close> the loop switches to \<open>accept\<close> and goes on.
\<close>

fun ngx_event_accept :: "int \<Rightarrow> nat \<Rightarrow> accept_result list \<Rightarrow> csock \<Rightarrow> csock option" where
  "ngx_event_accept now oldc [] s = Some s"
| "ngx_event_accept now oldc (Failed e # rs) s =
     (if so_use_accept4 s \<and> e = ENOSYS
      then ngx_event_accept now oldc rs (s\<lparr>so_use_accept4 := False\<rparr>)
      else Some s)"
| "ngx_event_accept now oldc (Accepted fd addr nb mem # rs) s =
     (case accept_one now oldc fd addr nb mem s of
        None \<Rightarrow> None
      | Some (goes_on, s') \<Rightarrow> if goes_on then ngx_event_accept now oldc rs s' else Some s')"

section \<open>Flood detection\<close>

text \<open>The milliseconds are cut to 16 bits; the difference is taken in 64 bits.\<close>

definition TestFlood :: "int \<Rightarrow> int \<Rightarrow> nat \<Rightarrow> csock \<Rightarrow> bool \<times> csock" where
  "TestFlood tv_sec tv_usec a s =
     (let iCurrTime = (word_of_int (tv_sec * 1000 + tv_usec div 1000) :: u16);
          now = (ucast iCurrTime :: u64);
          c = conn a s;
          c' = (if now - cn_FloodKickLastTime c < ucast (so_floodTimeInterval s)
                then c\<lparr>cn_FloodAttackCount := cn_FloodAttackCount c + 1, cn_FloodKickLastTime := now\<rparr>
                else c\<lparr>cn_FloodAttackCount := 0, cn_FloodKickLastTime := now\<rparr>)
      in (so_floodKickCount s \<le> cn_FloodAttackCount c', upd_conn a (\<lambda>_. c') s))"

section \<open>Connections under update\<close>

lemma conn_upd:
  "conn b (upd_conn a f s) =
     (if b = a \<and> a < length (so_connectionList s) then f (conn a s) else conn b s)"
  by (auto simp: conn_def upd_conn_def nth_list_update list_update_beyond)

lemma upd_conn_simps [simp]:
  "so_freeConnectionList (upd_conn a f s) = so_freeConnectionList s"
  "so_recyconnectionList (upd_conn a f s) = so_recyconnectionList s"
  "length (so_connectionList (upd_conn a f s)) = length (so_connectionList s)"
  "so_epoll (upd_conn a f s) = so_epoll s" "so_closed (upd_conn a f s) = so_closed s"
  "so_total_connection_n (upd_conn a f s) = so_total_connection_n s"
  "so_free_connection_n (upd_conn a f s) = so_free_connection_n s"
  "so_onlineUserCount (upd_conn a f s) = so_onlineUserCount s"
  "so_worker_connections (upd_conn a f s) = so_worker_connections s"
  "so_RecyConnectionWaitTime (upd_conn a f s) = so_RecyConnectionWaitTime s"
  "so_ifkickTimeCount (upd_conn a f s) = so_ifkickTimeCount s"
  "so_timer (upd_conn a f s) = so_timer s" "so_use_accept4 (upd_conn a f s) = so_use_accept4 s"
  "so_MsgSendQueue (upd_conn a f s) = so_MsgSendQueue s"
  "so_MsgRecvQueue (upd_conn a f s) = so_MsgRecvQueue s"
  "so_iSendMsgQueueCount (upd_conn a f s) = so_iSendMsgQueueCount s"
  "so_iDiscardSendPkgCount (upd_conn a f s) = so_iDiscardSendPkgCount s"
  by (simp_all add: upd_conn_def)

lemma conn_frame [simp]:
  "conn b (s\<lparr>so_freeConnectionList := fr\<rparr>) = conn b s"
  "conn b (s\<lparr>so_recyconnectionList := rl\<rparr>) = conn b s"
  "conn b (s\<lparr>so_free_connection_n := n\<rparr>) = conn b s"
  "conn b (s\<lparr>so_total_connection_n := n\<rparr>) = conn b s"
  "conn b (s\<lparr>so_total_recyconnection_n := n\<rparr>) = conn b s"
  "conn b (s\<lparr>so_onlineUserCount := n\<rparr>) = conn b s"
  "conn b (s\<lparr>so_epoll := e\<rparr>) = conn b s" "conn b (s\<lparr>so_closed := cl\<rparr>) = conn b s"
  "conn b (s\<lparr>so_timer := t\<rparr>) = conn b s" "conn b (s\<lparr>so_use_accept4 := u\<rparr>) = conn b s"
  "conn b (s\<lparr>so_MsgSendQueue := q\<rparr>) = conn b s" "conn b (s\<lparr>so_MsgRecvQueue := q\<rparr>) = conn b s"
  "conn b (s\<lparr>so_iSendMsgQueueCount := n\<rparr>) = conn b s"
  "conn b (s\<lparr>so_iDiscardSendPkgCount := n\<rparr>) = conn b s"
  by (simp_all add: conn_def)

lemma reuse_simps [simp]:
  "cn_id (GetOneToUse fd c) = cn_id c" "cn_fd (GetOneToUse fd c) = fd"
  "cn_id (PutOneToFree c) = cn_id c" "cn_fd (PutOneToFree c) = cn_fd c"
  "cn_psendbuf (GetOneToUse fd c) = cn_psendbuf c"
  "cn_events (GetOneToUse fd c) = cn_events c"
  by (simp_all add: GetOneToUse_def PutOneToFree_def)

section \<open>The invariant of the pool\<close>

text \<open>
  Idle connections (free or waiting to be freed) are in one list only, once, and have no
  descriptor; identifiers are positions; every registered descriptor belongs to a
  connection that knows it; the counters agree with the lists.
\<close>

definition idle :: "csock \<Rightarrow> nat list" where
  "idle s = so_freeConnectionList s @ so_recyconnectionList s"

definition pool_ok :: "csock \<Rightarrow> bool" where
  "pool_ok s \<longleftrightarrow>
     distinct (idle s) \<and> (\<forall>a \<in> set (idle s). a < length (so_connectionList s) \<and> cn_fd (conn a s) = -1) \<and>
     (\<forall>a < length (so_connectionList s). cn_id (conn a s) = int a) \<and>
     (\<forall>fd ev a. so_epoll s fd = Some (ev, a) \<longrightarrow>
        a < length (so_connectionList s) \<and> cn_fd (conn a s) = fd \<and> fd \<noteq> -1) \<and>
     so_free_connection_n s = int (length (so_freeConnectionList s)) \<and>
     so_total_connection_n s = int (length (so_connectionList s))"

definition in_use :: "nat \<Rightarrow> csock \<Rightarrow> bool" where
  "in_use a s \<longleftrightarrow> a < length (so_connectionList s) \<and> a \<notin> set (idle s)"

lemma registered_in_use: "pool_ok s \<Longrightarrow> so_epoll s fd = Some (ev, a) \<Longrightarrow> in_use a s"
  by (auto simp: pool_ok_def in_use_def)

text \<open>Changing fields other than the identifier and the descriptor keeps the invariant.\<close>

lemma upd_conn_ok:
  "pool_ok s \<Longrightarrow> (\<And>c. cn_id (f c) = cn_id c) \<Longrightarrow> (\<And>c. cn_fd (f c) = cn_fd c) \<Longrightarrow>
     pool_ok (upd_conn a f s)"
  by (simp add: pool_ok_def idle_def conn_upd)

lemma add_connection_simps [simp]:
  "so_connectionList (add_connection i s) = so_connectionList s @
     [(GetOneToUse (-1) (new_connection (length (so_connectionList s))))\<lparr>cn_id := i\<rparr>]"
  "so_freeConnectionList (add_connection i s) = so_freeConnectionList s @ [length (so_connectionList s)]"
  "so_recyconnectionList (add_connection i s) = so_recyconnectionList s"
  "so_epoll (add_connection i s) = so_epoll s"
  "so_free_connection_n (add_connection i s) = so_free_connection_n s"
  "so_total_connection_n (add_connection i s) = so_total_connection_n s"
  "so_worker_connections (add_connection i s) = so_worker_connections s"
  by (simp_all add: add_connection_def Let_def)

text \<open>The invariant without the counters, and one more connection.\<close>

definition lists_ok :: "csock \<Rightarrow> bool" where
  "lists_ok s \<longleftrightarrow>
     distinct (idle s) \<and> (\<forall>a \<in> set (idle s). a < length (so_connectionList s) \<and> cn_fd (conn a s) = -1) \<and>
     (\<forall>a < length (so_connectionList s). cn_id (conn a s) = int a) \<and>
     (\<forall>fd ev a. so_epoll s fd = Some (ev, a) \<longrightarrow>
        a < length (so_connectionList s) \<and> cn_fd (conn a s) = fd \<and> fd \<noteq> -1)"

lemma pool_ok_lists:
  "pool_ok s \<longleftrightarrow> lists_ok s \<and> so_free_connection_n s = int (length (so_freeConnectionList s)) \<and>
     so_total_connection_n s = int (length (so_connectionList s))"
  by (auto simp: pool_ok_def lists_ok_def)

lemma lists_ok_counts [simp]:
  "lists_ok (s\<lparr>so_free_connection_n := n\<rparr>) = lists_ok s"
  "lists_ok (s\<lparr>so_total_connection_n := n\<rparr>) = lists_ok s"
  by (simp_all add: lists_ok_def idle_def)

lemma add_connection_lists_ok:
  assumes "lists_ok s"
  shows "lists_ok (add_connection (int (length (so_connectionList s))) s)"
proof -
  let ?n = "length (so_connectionList s)" and ?s = "add_connection (int (length (so_connectionList s))) s"
  have new: "?n \<notin> set (idle s)" using assms(1) by (auto simp: lists_ok_def)
  have old: "conn b ?s = conn b s" if "b < ?n" for b
    using that by (simp add: conn_def nth_append)
  have last: "conn ?n ?s = (GetOneToUse (-1) (new_connection ?n))\<lparr>cn_id := int ?n\<rparr>"
    by (simp add: conn_def)
  have idle: "set (idle ?s) = insert ?n (set (idle s))" "distinct (idle ?s) = distinct (?n # idle s)"
    by (auto simp: idle_def)
  show ?thesis
    using assms new unfolding lists_ok_def idle
    by (auto simp: old last less_Suc_eq)
qed

lemma fold_add_ok:
  assumes "lists_ok s" and "length (so_connectionList s) = m"
  shows "lists_ok (fold (\<lambda>i. add_connection (int i)) [m..<m + n] s) \<and>
    length (so_connectionList (fold (\<lambda>i. add_connection (int i)) [m..<m + n] s)) = m + n"
proof (induction n)
  case 0
  then show ?case using assms by simp
next
  case (Suc n)
  let ?s = "fold (\<lambda>i. add_connection (int i)) [m..<m + n] s"
  have "lists_ok (add_connection (int (m + n)) ?s)"
    using Suc add_connection_lists_ok [of ?s] by simp
  with Suc show ?case by simp
qed

definition started :: "csock \<Rightarrow> bool" where
  "started s \<longleftrightarrow> so_connectionList s = [] \<and> so_freeConnectionList s = [] \<and> so_recyconnectionList s = [] \<and>
     so_epoll s = Map.empty"

lemma fold_add_free:
  "so_freeConnectionList s = [0..<length (so_connectionList s)] \<Longrightarrow>
     so_freeConnectionList (fold (\<lambda>i. add_connection (int i)) is s) =
       [0..<length (so_connectionList (fold (\<lambda>i. add_connection (int i)) is s))]"
  by (induction "is" arbitrary: s) simp_all

lemma initconnection_ok:
  assumes "started s"
  shows "pool_ok (initconnection s)"
proof -
  let ?s = "fold (\<lambda>i. add_connection (int i)) [0..<nat (so_worker_connections s)] s"
  have "lists_ok s" using assms by (simp add: started_def lists_ok_def idle_def)
  then have "lists_ok ?s" using fold_add_ok [of s 0 "nat (so_worker_connections s)"] assms
    by (simp add: started_def)
  moreover have "length (so_freeConnectionList ?s) = length (so_connectionList ?s)"
    using fold_add_free [of s "[0..<nat (so_worker_connections s)]"] assms by (simp add: started_def)
  ultimately show ?thesis by (simp add: initconnection_def Let_def pool_ok_lists)
qed

text \<open>Growing the pool.\<close>

lemma create_one_simps [simp]:
  "length (so_connectionList (create_one i s)) = Suc (length (so_connectionList s))"
  "so_total_connection_n (create_one i s) = so_total_connection_n s"
  "so_free_connection_n (create_one i s) = so_free_connection_n s + 1"
  "length (so_freeConnectionList (create_one i s)) = Suc (length (so_freeConnectionList s))"
  "so_epoll (create_one i s) = so_epoll s"
  "so_worker_connections (create_one i s) = so_worker_connections s"
  by (simp_all add: create_one_def Let_def)

lemma create_one_ok:
  "lists_ok s \<Longrightarrow> int i + so_total_connection_n s = int (length (so_connectionList s)) \<Longrightarrow>
     lists_ok (create_one i s)"
  using add_connection_lists_ok [of s] by (simp add: create_one_def Let_def)

lemma create_run:
  assumes "pool_ok s"
  shows "lists_ok (fold create_one [0..<n] s) \<and>
    length (so_connectionList (fold create_one [0..<n] s)) = length (so_connectionList s) + n \<and>
    so_total_connection_n (fold create_one [0..<n] s) = so_total_connection_n s \<and>
    so_epoll (fold create_one [0..<n] s) = so_epoll s \<and>
    so_free_connection_n (fold create_one [0..<n] s) =
      int (length (so_freeConnectionList (fold create_one [0..<n] s)))"
proof (induction n)
  case 0
  then show ?case using assms by (simp add: pool_ok_lists)
next
  case (Suc n)
  then show ?case using assms create_one_ok [of "fold create_one [0..<n] s" n]
    by (simp add: pool_ok_lists)
qed

lemma create_connection_ok: "pool_ok s \<Longrightarrow> pool_ok (create_connection s)"
  using create_run [of s "nat (so_worker_connections s)"]
  by (simp add: create_connection_def Let_def pool_ok_lists)

lemma create_connection_epoll: "pool_ok s \<Longrightarrow> so_epoll (create_connection s) = so_epoll s"
  using create_run [of s "nat (so_worker_connections s)"]
  by (simp add: create_connection_def Let_def)

text \<open>What the pool hands out.\<close>

definition handed_out :: "int \<Rightarrow> nat \<Rightarrow> csock \<Rightarrow> bool" where
  "handed_out fd a s \<longleftrightarrow> pool_ok s \<and> in_use a s \<and> cn_fd (conn a s) = fd"

lemma take_free_ok:
  assumes "pool_ok s" and "so_freeConnectionList s = a # fr"
  shows "handed_out fd a (upd_conn a (GetOneToUse fd)
    (s\<lparr>so_freeConnectionList := fr, so_free_connection_n := so_free_connection_n s - 1,
       so_onlineUserCount := n\<rparr>))"
proof -
  have a: "a < length (so_connectionList s)" "a \<notin> set fr" "a \<notin> set (so_recyconnectionList s)"
      "cn_fd (conn a s) = -1"
    using assms by (auto simp: pool_ok_def idle_def)
  have "so_epoll s fd' \<noteq> Some (ev, a)" for fd' ev
    using assms(1) a(4) unfolding pool_ok_def by metis
  then show ?thesis
    using assms a by (auto simp: handed_out_def in_use_def pool_ok_def idle_def conn_upd)
qed

lemma get_connection_ok:
  assumes "ngx_get_connection fd s = Some (a, s')" and "pool_ok s"
  shows "handed_out fd a s' \<and> so_epoll s' = so_epoll s"
proof -
  have "pool_ok s \<longrightarrow> handed_out fd (fst (a, s')) (snd (a, s')) \<and> so_epoll (snd (a, s')) = so_epoll s"
  proof (rule ngx_get_connection.raw_induct [OF _ assms(1), where
        P = "\<lambda>fd s r. pool_ok s \<longrightarrow> handed_out fd (fst r) (snd r) \<and> so_epoll (snd r) = so_epoll s"])
    fix get isock s r
    assume IH: "\<And>isock s r. get isock s = Some r \<Longrightarrow>
        pool_ok s \<longrightarrow> handed_out isock (fst r) (snd r) \<and> so_epoll (snd r) = so_epoll s"
      and body: "(case so_freeConnectionList s of
          [] \<Rightarrow> get isock (create_connection s)
        | a # fr \<Rightarrow> Some (a, upd_conn a (GetOneToUse isock)
            (s\<lparr>so_freeConnectionList := fr, so_free_connection_n := so_free_connection_n s - 1,
               so_onlineUserCount := so_onlineUserCount s + 1\<rparr>))) = Some r"
    show "pool_ok s \<longrightarrow> handed_out isock (fst r) (snd r) \<and> so_epoll (snd r) = so_epoll s"
    proof (cases "so_freeConnectionList s")
      case Nil
      with body have "get isock (create_connection s) = Some r" by simp
      from IH [OF this] show ?thesis by (simp add: create_connection_ok create_connection_epoll)
    next
      case (Cons a fr)
      with body take_free_ok [of s a fr isock "so_onlineUserCount s + 1"] show ?thesis by auto
    qed
  qed
  with assms(2) show ?thesis by simp
qed

text \<open>With at least one connection per worker the pool never runs dry.\<close>

lemma get_connection_total:
  assumes "0 < so_worker_connections s"
  shows "\<exists>r. ngx_get_connection fd s = Some r"
proof -
  have free: "so_freeConnectionList s' \<noteq> [] \<Longrightarrow> \<exists>r. ngx_get_connection fd s' = Some r" for s'
    by (subst ngx_get_connection.simps) (auto split: list.splits)
  have "so_freeConnectionList (fold create_one is s') \<noteq> []" if "is \<noteq> []" for "is" s'
    using that
  proof (induction "is" rule: rev_induct)
    case (snoc i js)
    then show ?case by (metis create_one_simps(4) fold_append fold_simps(1,2) comp_apply length_0_conv nat.distinct(1))
  qed simp
  then have "so_freeConnectionList (create_connection s) \<noteq> []"
    using assms by (simp add: create_connection_def Let_def)
  then show ?thesis
    using free [of s] free [of "create_connection s"]
    by (cases "so_freeConnectionList s") (subst ngx_get_connection.simps, auto)
qed


section \<open>Every operation keeps the invariant\<close>

lemma free_connection_ok:
  assumes "pool_ok s" and "in_use a s" and "cn_fd (conn a s) = -1"
  shows "pool_ok (ngx_free_connection a s)"
  using assms by (auto simp: pool_ok_def in_use_def idle_def ngx_free_connection_def conn_upd)

lemma pool_ok_counters [simp]:
  "pool_ok (s\<lparr>so_onlineUserCount := n\<rparr>) = pool_ok s"
  "pool_ok (s\<lparr>so_total_recyconnection_n := n\<rparr>) = pool_ok s"
  "pool_ok (s\<lparr>so_timer := t\<rparr>) = pool_ok s"
  "pool_ok (s\<lparr>so_use_accept4 := u\<rparr>) = pool_ok s"
  "in_use a (s\<lparr>so_timer := t\<rparr>) = in_use a s"
  "in_use a (s\<lparr>so_use_accept4 := u\<rparr>) = in_use a s"
  by (simp_all add: pool_ok_def idle_def in_use_def)

lemma same_id:
  "pool_ok s \<Longrightarrow> a < length (so_connectionList s) \<Longrightarrow> b < length (so_connectionList s) \<Longrightarrow>
     cn_id (conn b s) = cn_id (conn a s) \<longleftrightarrow> b = a"
  by (simp add: pool_ok_def)

lemma inRecy_ok:
  assumes "pool_ok s" and "in_use a s \<or> a \<in> set (so_recyconnectionList s)" and "cn_fd (conn a s) = -1"
  shows "pool_ok (inRecyConnectQueue now a s)"
proof -
  have lt: "a < length (so_connectionList s)" and rl: "\<forall>b \<in> set (so_recyconnectionList s). b < length (so_connectionList s)"
    using assms by (auto simp: pool_ok_def in_use_def idle_def)
  then have there: "(\<exists>b \<in> set (so_recyconnectionList s). cn_id (conn b s) = cn_id (conn a s)) \<longleftrightarrow>
      a \<in> set (so_recyconnectionList s)"
    using same_id [OF assms(1) lt] by auto
  show ?thesis
  proof (cases "a \<in> set (so_recyconnectionList s)")
    case True
    then show ?thesis using assms(1) there by (simp add: inRecyConnectQueue_def)
  next
    case False
    with assms(2) have "a \<notin> set (idle s)" by (auto simp: in_use_def)
    with False there assms(1,3) lt show ?thesis
      by (auto simp: inRecyConnectQueue_def pool_ok_def idle_def conn_upd)
  qed
qed

text \<open>The recycling loop moves entries from one idle list to the other.\<close>

lemma recy_loop_ok:
  assumes "recy_loop now rs s = (kept, s')" and "pool_ok (s\<lparr>so_recyconnectionList := rs @ ks\<rparr>)"
  shows "pool_ok (s'\<lparr>so_recyconnectionList := kept @ ks\<rparr>) \<and>
    so_recyconnectionList s' = so_recyconnectionList s"
  using assms
proof (induction now rs s arbitrary: kept s' ks rule: recy_loop.induct)
  case (1 now s)
  then show ?case by auto
next
  case (2 now a rs s)
  have a: "a < length (so_connectionList s)" "a \<notin> set rs" "a \<notin> set ks" "a \<notin> set (so_freeConnectionList s)"
    "cn_fd (conn a s) = -1"
    using "2.prems"(2) by (auto simp: pool_ok_def idle_def)
  show ?case
  proof (cases "cn_inRecyTime (conn a s) + so_RecyConnectionWaitTime s \<le> now")
    case True
    have "pool_ok ((ngx_free_connection a s)\<lparr>so_recyconnectionList := rs @ ks\<rparr>)"
      using "2.prems"(2) a by (auto simp: pool_ok_def idle_def ngx_free_connection_def conn_upd)
    with "2.IH"(1) [OF True] "2.prems"(1) True show ?thesis
      by (auto simp: ngx_free_connection_def)
  next
    case False
    then obtain kept1 where l: "recy_loop now rs s = (kept1, s')" and k: "kept = a # kept1"
      using "2.prems"(1) by (auto split: prod.splits)
    have "pool_ok (s\<lparr>so_recyconnectionList := rs @ (ks @ [a])\<rparr>)"
      using "2.prems"(2) by (auto simp: pool_ok_def idle_def)
    from "2.IH"(2) [OF False l this] k show ?thesis
      by (auto simp: pool_ok_def idle_def)
  qed
qed

lemma recy_turn_ok: "pool_ok s \<Longrightarrow> pool_ok (ServerRecyConnection_turn now s)"
  using recy_loop_ok [of now "so_recyconnectionList s" s _ _ "[]"]
  by (auto simp: ServerRecyConnection_turn_def split: prod.splits)

lemma close_fd_simps [simp]:
  "conn b (close_fd fd s) = conn b s" "idle (close_fd fd s) = idle s"
  "so_connectionList (close_fd fd s) = so_connectionList s"
  "so_freeConnectionList (close_fd fd s) = so_freeConnectionList s"
  "so_recyconnectionList (close_fd fd s) = so_recyconnectionList s"
  "so_epoll (close_fd fd s) = (so_epoll s)(fd := None)"
  "so_free_connection_n (close_fd fd s) = so_free_connection_n s"
  "so_total_connection_n (close_fd fd s) = so_total_connection_n s"
  by (simp_all add: close_fd_def idle_def)

lemma close_fd_ok: "pool_ok s \<Longrightarrow> pool_ok (close_fd fd s)"
  by (auto simp: pool_ok_def split: if_splits)

text \<open>Dropping the descriptor of a connection together with its registration.\<close>

lemma drop_fd_ok:
  assumes "pool_ok s" and "so_epoll s (cn_fd (conn a s)) = None"
  shows "pool_ok (upd_conn a (\<lambda>c. c\<lparr>cn_fd := -1\<rparr>) s)"
proof -
  have "b \<noteq> a" if "so_epoll s fd = Some (ev, b)" for fd ev b
    using assms that by (auto simp: pool_ok_def)
  with assms(1) show ?thesis
    by (auto simp: pool_ok_def idle_def conn_upd)
qed

lemma close_connection_ok:
  assumes "pool_ok s" and "in_use a s"
  shows "pool_ok (ngx_close_connection a s)"
proof (cases "cn_fd (conn a s) = -1")
  case True
  then show ?thesis using assms by (simp add: ngx_close_connection_def free_connection_ok)
next
  case False
  let ?s = "upd_conn a (\<lambda>c. c\<lparr>cn_fd := -1\<rparr>) (close_fd (cn_fd (conn a s)) s)"
  have "pool_ok ?s" using close_fd_ok [OF assms(1)] by (intro drop_fd_ok) simp_all
  moreover have "in_use a ?s" "cn_fd (conn a ?s) = -1"
    using assms(2) by (simp_all add: in_use_def conn_upd idle_def)
  ultimately show ?thesis using False by (simp add: ngx_close_connection_def free_connection_ok)
qed

text \<open>Registering and changing a registration.\<close>

lemma ctl_ok:
  assumes "pool_ok s" and "op = EPOLL_CTL_DEL \<or> (a < length (so_connectionList s) \<and> cn_fd (conn a s) = fd \<and> fd \<noteq> -1)"
  shows "pool_ok (snd (epoll_ctl mem op fd ev a s))"
  using assms by (auto simp: epoll_ctl_def pool_ok_def idle_def conn_def split: epoll_op.splits)

lemma ctl_frame [simp]:
  "conn b (snd (epoll_ctl mem op fd ev a s)) = conn b s"
  "idle (snd (epoll_ctl mem op fd ev a s)) = idle s"
  "so_connectionList (snd (epoll_ctl mem op fd ev a s)) = so_connectionList s"
  "so_recyconnectionList (snd (epoll_ctl mem op fd ev a s)) = so_recyconnectionList s"
  by (auto simp: epoll_ctl_def idle_def conn_def split: epoll_op.splits)

lemma oper_event_ok:
  assumes "pool_ok s" and "op = EPOLL_CTL_DEL \<or> (a < length (so_connectionList s) \<and> cn_fd (conn a s) = fd \<and> fd \<noteq> -1)"
  shows "pool_ok (snd (ngx_epoll_oper_event mem fd op flag bc a s))"
proof -
  have "pool_ok (upd_conn a (\<lambda>c. c\<lparr>cn_events := ev\<rparr>) s)" for ev
    using assms(1) by (rule upd_conn_ok) simp_all
  with assms show ?thesis
    by (cases op) (auto simp: ngx_epoll_oper_event_def Let_def intro!: ctl_ok simp: conn_upd)
qed

lemma oper_event_frame [simp]:
  "idle (snd (ngx_epoll_oper_event mem fd op flag bc a s)) = idle s"
  "length (so_connectionList (snd (ngx_epoll_oper_event mem fd op flag bc a s))) = length (so_connectionList s)"
  "so_recyconnectionList (snd (ngx_epoll_oper_event mem fd op flag bc a s)) = so_recyconnectionList s"
  "cn_fd (conn b (snd (ngx_epoll_oper_event mem fd op flag bc a s))) = cn_fd (conn b s)"
  by (cases op; simp add: ngx_epoll_oper_event_def Let_def conn_upd; simp add: idle_def)+

lemma idle_upd [simp]: "idle (upd_conn a f s) = idle s"
  by (simp add: idle_def)

lemma zdClose_ok:
  assumes "pool_ok s" and "in_use a s \<or> a \<in> set (so_recyconnectionList s)"
  shows "pool_ok (zdClosesocketProc now a s)"
proof -
  let ?s1 = "if so_ifkickTimeCount s = 1
    then s\<lparr>so_timer := DeleteFromTimerQueue a (so_timer s)\<rparr> else s"
  have ok1: "pool_ok ?s1" and c1: "conn a ?s1 = conn a s" and i1: "idle ?s1 = idle s"
    and r1: "so_recyconnectionList ?s1 = so_recyconnectionList s"
    and l1: "length (so_connectionList ?s1) = length (so_connectionList s)"
    using assms(1) by (simp_all add: idle_def)
  show ?thesis
  proof (cases "cn_fd (conn a s) = -1")
    case True
    then have "zdClosesocketProc now a s = inRecyConnectQueue now a ?s1"
      by (simp add: zdClosesocketProc_def Let_def c1)
    moreover have "pool_ok (inRecyConnectQueue now a ?s1)"
      using assms(2) True c1 i1 l1 r1 by (intro inRecy_ok [OF ok1]) (simp_all add: in_use_def)
    ultimately show ?thesis by simp
  next
    case False
    let ?fd = "cn_fd (conn a s)"
    let ?s2 = "close_fd ?fd (snd (ngx_epoll_oper_event True ?fd EPOLL_CTL_DEL 0 0 a ?s1))"
    let ?s3 = "upd_conn a (\<lambda>c. c\<lparr>cn_fd := -1\<rparr>) ?s2"
    have ok2: "pool_ok ?s2" by (intro close_fd_ok oper_event_ok ok1) simp
    have ok3: "pool_ok ?s3" by (rule drop_fd_ok [OF ok2]) (simp add: c1)
    have a: "a < length (so_connectionList s)"
      using assms by (auto simp: pool_ok_def in_use_def idle_def)
    have "zdClosesocketProc now a s = inRecyConnectQueue now a ?s3"
      using False by (simp add: zdClosesocketProc_def Let_def c1)
    moreover have "pool_ok (inRecyConnectQueue now a ?s3)"
    proof (rule inRecy_ok [OF ok3])
      have "idle ?s3 = idle ?s1" by (simp only: idle_upd close_fd_simps oper_event_frame)
      with i1 have "idle ?s3 = idle s" by simp
      then show "in_use a ?s3 \<or> a \<in> set (so_recyconnectionList ?s3)"
        using assms(2) a by (simp add: in_use_def r1)
      show "cn_fd (conn a ?s3) = -1" using a by (simp add: conn_upd)
    qed
    ultimately show ?thesis by simp
  qed
qed

lemma accept_one_ok:
  assumes "pool_ok s" and "so_epoll s fd = None" and "fd \<noteq> -1"
    and "accept_one now oldc fd addr nb mem s = Some (b, s')"
  shows "pool_ok s'"
proof -
  consider (refused) "s' = close_fd fd s" | (taken) a s1 where "ngx_get_connection fd s = Some (a, s1)"
    using assms(4) by (auto simp: accept_one_def split: if_splits option.splits)
  then show ?thesis
  proof cases
    case refused
    then show ?thesis using assms(1) by (simp add: close_fd_ok)
  next
    case (taken a s1)
    note g = get_connection_ok [OF taken assms(1)]
    let ?s2 = "upd_conn a (\<lambda>c. c\<lparr>cn_sockaddr := Some addr\<rparr>) s1"
    let ?s3 = "upd_conn a (\<lambda>c. c\<lparr>cn_listening := cn_listening (conn oldc ?s2),
                            cn_rhandler := Http_read, cn_whandler := Http_write\<rparr>) ?s2"
    let ?s4 = "snd (ngx_epoll_oper_event mem fd EPOLL_CTL_ADD EPOLLIN 0 a ?s3)"
    have ok2: "pool_ok ?s2" and ok3: "pool_ok ?s3"
      using g by (auto simp: handed_out_def intro!: upd_conn_ok)
    have use: "in_use a ?s2" "in_use a ?s3" and fd: "cn_fd (conn a ?s3) = fd"
      using g by (auto simp: handed_out_def in_use_def idle_def conn_upd)
    have ok4: "pool_ok ?s4"
      using use(2) fd assms(3) by (intro oper_event_ok [OF ok3]) (simp add: in_use_def)
    have use4: "in_use a ?s4" using use(2) by (simp add: in_use_def)
    have "pool_ok (ngx_close_connection a ?s2)" "pool_ok (ngx_close_connection a ?s4)"
      using close_connection_ok [OF ok2 use(1)] close_connection_ok [OF ok4 use4] by simp_all
    then show ?thesis
      using assms(1,4) taken ok4 close_fd_ok [OF assms(1)]
      by (auto simp: accept_one_def Let_def split: if_splits prod.splits)
  qed
qed

section \<open>Reachable states\<close>

text \<open>
  What happens to the pool of a worker: a connection is accepted (the kernel hands out a
  descriptor that is not registered), a registration is changed, a connection in use or
  waiting is closed, the recycling thread takes a turn.
\<close>

inductive sock_step :: "csock \<Rightarrow> csock \<Rightarrow> bool" where
  accepted: "so_epoll s fd = None \<Longrightarrow> fd \<noteq> -1 \<Longrightarrow>
    accept_one now oldc fd addr nb mem s = Some (b, s') \<Longrightarrow> sock_step s s'"
| interest: "in_use a s \<Longrightarrow> cn_fd (conn a s) \<noteq> -1 \<Longrightarrow>
    sock_step s (snd (ngx_epoll_oper_event mem (cn_fd (conn a s)) EPOLL_CTL_MOD flag bc a s))"
| closed: "in_use a s \<or> a \<in> set (so_recyconnectionList s) \<Longrightarrow> sock_step s (zdClosesocketProc now a s)"
| recycled: "sock_step s (ServerRecyConnection_turn now s)"

abbreviation reachable :: "csock \<Rightarrow> csock \<Rightarrow> bool" where
  "reachable s0 \<equiv> sock_step\<^sup>*\<^sup>* (initconnection s0)"

lemmas sock_more = run_more [where r = sock_step]

inductive_cases sock_stepE: "sock_step s s'"

lemma sock_step_ok: "sock_step s s' \<Longrightarrow> pool_ok s \<Longrightarrow> pool_ok s'"
  by (erule sock_stepE)
    (auto intro: accept_one_ok oper_event_ok zdClose_ok recy_turn_ok simp: in_use_def)

interpretation socks: invariant_system sock_step pool_ok
  by unfold_locales (rule sock_step_ok)

lemma reachable_ok: "reachable s0 s \<Longrightarrow> started s0 \<Longrightarrow> pool_ok s"
  using socks.always initconnection_ok by blast

section \<open>Counting users\<close>

lemma get_connection_counts:
  assumes "ngx_get_connection fd s = Some (a, s')"
  shows "so_onlineUserCount s' = so_onlineUserCount s + 1 \<and> so_worker_connections s' = so_worker_connections s \<and>
    so_ifkickTimeCount s' = so_ifkickTimeCount s \<and> so_use_accept4 s' = so_use_accept4 s"
proof -
  have one: "so_onlineUserCount (create_one i s) = so_onlineUserCount s \<and>
      so_worker_connections (create_one i s) = so_worker_connections s \<and>
      so_ifkickTimeCount (create_one i s) = so_ifkickTimeCount s \<and>
      so_use_accept4 (create_one i s) = so_use_accept4 s" for i s
    by (simp add: create_one_def Let_def add_connection_def)
  have "so_onlineUserCount (fold create_one is s) = so_onlineUserCount s \<and>
      so_worker_connections (fold create_one is s) = so_worker_connections s \<and>
      so_ifkickTimeCount (fold create_one is s) = so_ifkickTimeCount s \<and>
      so_use_accept4 (fold create_one is s) = so_use_accept4 s" for "is" s
    by (induction "is" arbitrary: s) (simp_all add: one)
  then have grow: "so_onlineUserCount (create_connection s) = so_onlineUserCount s \<and>
      so_worker_connections (create_connection s) = so_worker_connections s \<and>
      so_ifkickTimeCount (create_connection s) = so_ifkickTimeCount s \<and>
      so_use_accept4 (create_connection s) = so_use_accept4 s" for s
    by (simp add: create_connection_def Let_def)
  let ?P = "\<lambda>s r :: nat \<times> csock. so_onlineUserCount (snd r) = so_onlineUserCount s + 1 \<and>
    so_worker_connections (snd r) = so_worker_connections s \<and>
    so_ifkickTimeCount (snd r) = so_ifkickTimeCount s \<and> so_use_accept4 (snd r) = so_use_accept4 s"
  have "?P s (a, s')"
  proof (rule ngx_get_connection.raw_induct [OF _ assms, where P = "\<lambda>_. ?P"])
    fix get isock s r
    assume IH: "\<And>isock s r. get isock s = Some r \<Longrightarrow> ?P s r"
      and body: "(case so_freeConnectionList s of
          [] \<Rightarrow> get isock (create_connection s)
        | a # fr \<Rightarrow> Some (a, upd_conn a (GetOneToUse isock)
            (s\<lparr>so_freeConnectionList := fr, so_free_connection_n := so_free_connection_n s - 1,
               so_onlineUserCount := so_onlineUserCount s + 1\<rparr>))) = Some r"
    show "?P s r"
    proof (cases "so_freeConnectionList s")
      case Nil
      with body have "get isock (create_connection s) = Some r" by simp
      from IH [OF this] show ?thesis by (simp add: grow)
    next
      case (Cons b fr)
      with body show ?thesis by auto
    qed
  qed
  then show ?thesis by simp
qed

lemma close_counts [simp]:
  "so_onlineUserCount (ngx_close_connection a s) = so_onlineUserCount s"
  "so_worker_connections (ngx_close_connection a s) = so_worker_connections s"
  "so_onlineUserCount (close_fd fd s) = so_onlineUserCount s"
  "so_worker_connections (close_fd fd s) = so_worker_connections s"
  by (simp_all add: ngx_close_connection_def ngx_free_connection_def close_fd_def)

lemma oper_event_counts [simp]:
  "so_onlineUserCount (snd (ngx_epoll_oper_event mem fd op flag bc a s)) = so_onlineUserCount s"
  "so_worker_connections (snd (ngx_epoll_oper_event mem fd op flag bc a s)) = so_worker_connections s"
  by (cases op; simp add: ngx_epoll_oper_event_def Let_def epoll_ctl_def)+

lemma accept_one_counts:
  assumes "accept_one now oldc fd addr nb mem s = Some (b, s')"
    and "so_onlineUserCount s \<le> so_worker_connections s"
  shows "so_onlineUserCount s' \<le> so_worker_connections s' \<and> so_worker_connections s' = so_worker_connections s"
proof -
  consider (refused) "s' = close_fd fd s"
    | (taken) a s1 where "ngx_get_connection fd s = Some (a, s1)" "so_onlineUserCount s < so_worker_connections s"
    using assms(1) by (auto simp: accept_one_def split: if_splits option.splits)
  then show ?thesis
  proof cases
    case refused
    then show ?thesis using assms(2) by simp
  next
    case (taken a s1)
    let ?s2 = "upd_conn a (\<lambda>c. c\<lparr>cn_sockaddr := Some addr\<rparr>) s1"
    let ?s3 = "upd_conn a (\<lambda>c. c\<lparr>cn_listening := cn_listening (conn oldc ?s2),
                            cn_rhandler := Http_read, cn_whandler := Http_write\<rparr>) ?s2"
    obtain ok s4 where e: "ngx_epoll_oper_event mem fd EPOLL_CTL_ADD EPOLLIN 0 a ?s3 = (ok, s4)"
      by (cases "ngx_epoll_oper_event mem fd EPOLL_CTL_ADD EPOLLIN 0 a ?s3") auto
    have c4: "so_onlineUserCount s4 = so_onlineUserCount s + 1 \<and> so_worker_connections s4 = so_worker_connections s"
      using oper_event_counts [of mem fd EPOLL_CTL_ADD EPOLLIN 0 a ?s3] get_connection_counts [OF taken(1)]
      by (simp add: e)
    show ?thesis
      using assms(1) taken get_connection_counts [OF taken(1)] c4
      by (auto simp: accept_one_def Let_def e split: if_splits)
  qed
qed

lemma recy_loop_users:
  "so_onlineUserCount (snd (recy_loop now rs s)) = so_onlineUserCount s \<and>
   so_worker_connections (snd (recy_loop now rs s)) = so_worker_connections s"
  by (induction now rs s rule: recy_loop.induct)
    (auto simp: ngx_free_connection_def split: prod.splits)

lemma recy_turn_users:
  "so_onlineUserCount (ServerRecyConnection_turn now s) = so_onlineUserCount s"
  "so_worker_connections (ServerRecyConnection_turn now s) = so_worker_connections s"
  using recy_loop_users [of now "so_recyconnectionList s" s]
  by (auto simp: ServerRecyConnection_turn_def split: prod.splits)

lemma zdClose_users:
  "so_onlineUserCount (zdClosesocketProc now a s) \<le> so_onlineUserCount s \<and>
   so_worker_connections (zdClosesocketProc now a s) = so_worker_connections s"
  by (simp add: zdClosesocketProc_def inRecyConnectQueue_def Let_def)

lemma initconnection_users:
  "so_onlineUserCount (initconnection s) = so_onlineUserCount s \<and>
   so_worker_connections (initconnection s) = so_worker_connections s"
proof -
  have "so_onlineUserCount (fold (\<lambda>i. add_connection (int i)) is s) = so_onlineUserCount s \<and>
      so_worker_connections (fold (\<lambda>i. add_connection (int i)) is s) = so_worker_connections s" for "is"
    by (induction "is" arbitrary: s) (simp_all add: add_connection_def Let_def)
  then show ?thesis by (simp add: initconnection_def Let_def)
qed

lemma sock_step_users:
  "sock_step s s' \<Longrightarrow> so_onlineUserCount s \<le> so_worker_connections s \<Longrightarrow>
     so_onlineUserCount s' \<le> so_worker_connections s' \<and> so_worker_connections s' = so_worker_connections s"
proof (erule sock_stepE, goal_cases)
  case (1 fd now oldc addr nb mem b)
  then show ?case using accept_one_counts by blast
next
  case (2 a mem flag bc)
  then show ?case by simp
next
  case (3 a now)
  then show ?case using zdClose_users [of now a s] by simp
next
  case (4 now)
  then show ?case by (simp add: recy_turn_users)
qed

interpretation users: invariant_system sock_step
    "\<lambda>s. so_onlineUserCount s \<le> so_worker_connections s \<and> so_worker_connections s = wc" for wc
  by unfold_locales (metis sock_step_users)

lemma reachable_users:
  "reachable s0 s \<Longrightarrow> so_onlineUserCount s0 \<le> so_worker_connections s0 \<Longrightarrow>
     so_onlineUserCount s \<le> so_worker_connections s \<and> so_worker_connections s = so_worker_connections s0"
  using users.always [of "initconnection s0" s] initconnection_users [of s0] by simp

text \<open>An empty pool that grows by nothing is searched for ever.\<close>

lemma get_connection_needs:
  assumes "ngx_get_connection fd s = Some r"
  shows "so_freeConnectionList s \<noteq> [] \<or> 0 < so_worker_connections s"
proof (rule ngx_get_connection.raw_induct [OF _ assms, where
      P = "\<lambda>_ s _. so_freeConnectionList s \<noteq> [] \<or> 0 < so_worker_connections s"])
  fix get isock s r
  assume IH: "\<And>isock s r. get isock s = Some r \<Longrightarrow> so_freeConnectionList s \<noteq> [] \<or> 0 < so_worker_connections s"
    and body: "(case so_freeConnectionList s of
        [] \<Rightarrow> get isock (create_connection s)
      | a # fr \<Rightarrow> Some (a, upd_conn a (GetOneToUse isock)
          (s\<lparr>so_freeConnectionList := fr, so_free_connection_n := so_free_connection_n s - 1,
             so_onlineUserCount := so_onlineUserCount s + 1\<rparr>))) = Some r"
  show "so_freeConnectionList s \<noteq> [] \<or> 0 < so_worker_connections s"
  proof (rule ccontr)
    assume no: "\<not> ?thesis"
    then have "get isock (create_connection s) = Some r" using body by simp
    from IH [OF this] no show False by (simp add: create_connection_def Let_def)
  qed
qed

section \<open>Properties\<close>

text \<open>A worker's socket component before \<open>initconnection\<close>.\<close>

definition fresh_sock :: "int \<Rightarrow> csock" where
  "fresh_sock wc =
     \<lparr>so_worker_connections = wc, so_RecyConnectionWaitTime = 60, so_ifkickTimeCount = 0,
      so_floodAkEnable = 0, so_floodTimeInterval = 100, so_floodKickCount = 10,
      so_connectionList = [], so_freeConnectionList = [], so_recyconnectionList = [],
      so_total_connection_n = 0, so_free_connection_n = 0, so_total_recyconnection_n = 0,
      so_onlineUserCount = 0, so_timer = \<lparr>tq_map = [], tq_cur_size = 0, tq_timer_value = 0, tq_iWaitTime = 5, tq_ifTimeOutKick = 0\<rparr>,
      so_use_accept4 = True, so_epoll = Map.empty, so_closed = [], so_MsgSendQueue = [],
      so_iSendMsgQueueCount = 0, so_iDiscardSendPkgCount = 0, so_MsgRecvQueue = []\<rparr>"

lemma fresh_started [simp]: "started (fresh_sock wc)"
  by (simp add: started_def fresh_sock_def)

text \<open>
  Whatever a worker accepts, changes, closes and recycles, no connection is in the free
  list and the recycling queue at once or twice in one of them, the idle ones hold no
  descriptor, every descriptor registered with epoll belongs to a connection in use that
  carries it, and \<open>m_free_connection_n\<close> and \<open>m_total_connection_n\<close> are the lengths of their
  lists.
\<close>

theorem pool_conservation:
  assumes "started s0" and "reachable s0 s"
  shows "distinct (so_freeConnectionList s @ so_recyconnectionList s) \<and>
    (\<forall>a \<in> set (so_freeConnectionList s @ so_recyconnectionList s). cn_fd (conn a s) = -1) \<and>
    (\<forall>fd ev a. so_epoll s fd = Some (ev, a) \<longrightarrow>
       a < length (so_connectionList s) \<and> cn_fd (conn a s) = fd \<and>
       a \<notin> set (so_freeConnectionList s) \<and> a \<notin> set (so_recyconnectionList s)) \<and>
    so_free_connection_n s = int (length (so_freeConnectionList s)) \<and>
    so_total_connection_n s = int (length (so_connectionList s))"
proof -
  have ok: "pool_ok s" using reachable_ok [OF assms(2,1)] .
  have reg: "a \<notin> set (so_freeConnectionList s) \<and> a \<notin> set (so_recyconnectionList s)"
    if "so_epoll s fd = Some (ev, a)" for fd ev a
    using registered_in_use [OF ok that] by (simp add: in_use_def idle_def)
  with ok show ?thesis unfolding pool_ok_def idle_def by blast
qed

theorem pool_conservation_witness:
  "distinct (so_freeConnectionList (ServerRecyConnection_turn 100 (initconnection (fresh_sock 2))) @
     so_recyconnectionList (ServerRecyConnection_turn 100 (initconnection (fresh_sock 2))))"
  using pool_conservation [of "fresh_sock 2" "ServerRecyConnection_turn 100 (initconnection (fresh_sock 2))",
      OF fresh_started sock_more [OF run_start sock_step.recycled]]
  by (rule conjunct1)

text \<open>
  The number of users a worker counts never exceeds \<open>worker_connections\<close>, which never
  changes, whatever it accepts, closes and recycles.
\<close>

theorem users_bounded:
  assumes "so_onlineUserCount s0 \<le> so_worker_connections s0" and "reachable s0 s"
  shows "so_onlineUserCount s \<le> so_worker_connections s \<and> so_worker_connections s = so_worker_connections s0"
  using reachable_users [OF assms(2,1)] .

theorem users_bounded_witness:
  "so_onlineUserCount (ServerRecyConnection_turn 7 (initconnection (fresh_sock 2))) \<le> 2"
  using users_bounded [of "fresh_sock 2" "ServerRecyConnection_turn 7 (initconnection (fresh_sock 2))",
      OF _ sock_more [OF run_start sock_step.recycled]]
  by (simp add: fresh_sock_def)

text \<open>
  \<open>ngx_get_connection\<close> returns exactly when the free list has an entry or the
  configured number of connections is positive; otherwise it never returns.
\<close>

theorem get_connection_returns:
  "(\<exists>a s'. ngx_get_connection fd s = Some (a, s')) =
     (\<not> (so_freeConnectionList s = [] \<and> so_worker_connections s \<le> 0))"
proof -
  have "(\<exists>a s'. ngx_get_connection fd s = Some (a, s')) \<longleftrightarrow>
     so_freeConnectionList s \<noteq> [] \<or> 0 < so_worker_connections s"
proof
  assume "\<exists>a s'. ngx_get_connection fd s = Some (a, s')"
  then show "so_freeConnectionList s \<noteq> [] \<or> 0 < so_worker_connections s"
    using get_connection_needs by blast
next
  assume "so_freeConnectionList s \<noteq> [] \<or> 0 < so_worker_connections s"
  then show "\<exists>a s'. ngx_get_connection fd s = Some (a, s')"
  proof
    assume "so_freeConnectionList s \<noteq> []"
    then show ?thesis by (subst ngx_get_connection.simps) (auto split: list.splits)
  next
    assume "0 < so_worker_connections s"
    then show ?thesis using get_connection_total [of s fd] by auto
  qed
qed
  then show ?thesis by auto
qed

text \<open>
  \<open>events\<close> of a connection is never set when it is registered, so the first change of
  its interest replaces \<open>EPOLLIN\<close> instead of adding to it: after the change that adds
  \<open>EPOLLOUT\<close> epoll watches \<open>EPOLLOUT\<close> only, and after the one that takes it away again it
  watches nothing, so the connection's further requests are not seen.
\<close>

theorem interest_lost:
  assumes "a < length (so_connectionList s)" and "cn_events (conn a s) = 0" and "so_epoll s fd = None"
    and "ngx_epoll_oper_event True fd EPOLL_CTL_ADD EPOLLIN 0 a s = (b1, s1)"
    and "ngx_epoll_oper_event True fd EPOLL_CTL_MOD EPOLLOUT 0 a s1 = (b2, s2)"
    and "ngx_epoll_oper_event True fd EPOLL_CTL_MOD EPOLLOUT 1 a s2 = (b3, s3)"
  shows "so_epoll s1 fd = Some (EPOLLIN, a) \<and> so_epoll s2 fd = Some (EPOLLOUT, a) \<and>
    so_epoll s3 fd = Some (0, a)"
proof -
  have s1: "s1 = s\<lparr>so_epoll := (so_epoll s)(fd \<mapsto> (EPOLLIN, a))\<rparr>"
    using assms(3,4) by (simp add: ngx_epoll_oper_event_def epoll_ctl_def)
  have c1: "cn_events (conn a s1) = 0" "a < length (so_connectionList s1)"
    using assms(1,2) by (simp_all add: s1)
  have s2: "s2 = (upd_conn a (\<lambda>c. c\<lparr>cn_events := EPOLLOUT\<rparr>) s1)
      \<lparr>so_epoll := (so_epoll s1)(fd \<mapsto> (EPOLLOUT, a))\<rparr>"
    using assms(5) c1 by (simp add: ngx_epoll_oper_event_def epoll_ctl_def s1)
  have c2: "cn_events (conn a s2) = EPOLLOUT"
    using c1(2) by (simp add: s2 conn_upd)
  have "so_epoll s3 fd = Some (0, a)"
    using assms(6) c2 by (auto simp: ngx_epoll_oper_event_def epoll_ctl_def s2 EPOLLOUT_def)
  then show ?thesis by (simp add: s1 s2)
qed

theorem interest_lost_witness:
  "\<exists>s :: csock. so_epoll s 5 = Some (0, 0)"
proof -
  let ?s = "initconnection (fresh_sock 1)"
  have s: "0 < length (so_connectionList ?s) \<and> cn_events (conn 0 ?s) = 0 \<and> so_epoll ?s 5 = None"
    by (simp add: initconnection_def fresh_sock_def Let_def conn_def new_connection_def)
  obtain b1 s1 where e1: "ngx_epoll_oper_event True 5 EPOLL_CTL_ADD EPOLLIN 0 0 ?s = (b1, s1)" by fastforce
  obtain b2 s2 where e2: "ngx_epoll_oper_event True 5 EPOLL_CTL_MOD EPOLLOUT 0 0 s1 = (b2, s2)" by fastforce
  obtain b3 s3 where e3: "ngx_epoll_oper_event True 5 EPOLL_CTL_MOD EPOLLOUT 1 0 s2 = (b3, s3)" by fastforce
  have "so_epoll s3 5 = Some (0, 0)"
    using interest_lost [OF s [THEN conjunct1] s [THEN conjunct2, THEN conjunct1]
        s [THEN conjunct2, THEN conjunct2] e1 e2 e3] by simp
  then show ?thesis by blast
qed

text \<open>
  When epoll refuses a new descriptor, the connection goes back to the free list and
  the descriptor is closed, but the user stays counted: the worker loses one of its
  \<open>worker_connections\<close> places for good.
\<close>

theorem refused_registration_leaks_user:
  assumes "pool_ok s" and "so_freeConnectionList s = a # fr" and "so_use_accept4 s" and "fd \<noteq> -1"
    and "so_onlineUserCount s < so_worker_connections s"
    and "word_of_int (so_worker_connections s) \<le> (of_nat (length (so_freeConnectionList s)) :: u64)"
  shows "\<exists>s'. accept_one now oldc fd addr nb False s = Some (False, s') \<and>
    so_freeConnectionList s' = fr @ [a] \<and> fd \<in> set (so_closed s') \<and>
    so_onlineUserCount s' = so_onlineUserCount s + 1"
proof -
  let ?t = "s\<lparr>so_freeConnectionList := fr, so_free_connection_n := so_free_connection_n s - 1,
               so_onlineUserCount := so_onlineUserCount s + 1\<rparr>"
  have g: "ngx_get_connection fd s = Some (a, upd_conn a (GetOneToUse fd) ?t)"
    by (subst ngx_get_connection.simps) (simp add: assms(2))
  have a: "a < length (so_connectionList s)"
    using assms(1,2) by (auto simp: pool_ok_def idle_def)
  have nf: "\<not> (of_nat (length (so_freeConnectionList s)) :: u64) < word_of_int (so_worker_connections s)"
    using assms(6) by simp
  show ?thesis
    using a assms(3,4,5) nf
    by (simp add: accept_one_def g Let_def ngx_epoll_oper_event_def epoll_ctl_def
        ngx_close_connection_def ngx_free_connection_def conn_upd close_fd_def)
qed

theorem refused_registration_leaks_user_witness:
  "\<exists>s :: csock. so_onlineUserCount s = 1 \<and> so_freeConnectionList s = [1, 0] \<and> 9 \<in> set (so_closed s)"
proof -
  let ?s = "initconnection (fresh_sock 2)"
  have "pool_ok ?s" by (simp add: initconnection_ok)
  moreover have "so_freeConnectionList ?s = 0 # [1]" "so_use_accept4 ?s"
      "so_onlineUserCount ?s = 0" "so_worker_connections ?s = 2"
    by (simp_all add: initconnection_def fresh_sock_def Let_def add_connection_def upt_rec)
  ultimately obtain s' :: csock where "so_freeConnectionList s' = [1, 0]" "9 \<in> set (so_closed s')"
      "so_onlineUserCount s' = 1"
    using refused_registration_leaks_user [of ?s 0 "[1]" 9 0 0 "(127, 0, 0, 1)" True]
    by (auto simp del: One_nat_def)
  then show ?thesis by blast
qed

end
