(* ===== verification/Conf.thy ===== *)
theory Conf
  imports Prelude
begin

text \<open>
  The configuration file: \<open>src/config/my_conf.cpp\<close> and \<open>include/conf/my_conf.h\<close>.
  What the system gives the loader (the path of the executable, the contents of files) is a
  parameter. An item is the pair of its two character arrays, as the C strings they hold.
\<close>

section \<open>Loading\<close>

type_synonym conf_item = "string \<times> string"

definition trim :: "string \<Rightarrow> string" where
  "trim s = rdrop is_space (dropWhile is_space s)"

text \<open>\<open>std::getline\<close> until the end of the file.\<close>

function getlines :: "string \<Rightarrow> string list" where
  "getlines s =
     (if s = [] then []
      else takeWhile (\<lambda>c. c \<noteq> LF) s # getlines (drop 1 (dropWhile (\<lambda>c. c \<noteq> LF) s)))"
  by pat_completeness auto
termination
proof (relation "measure length")
  fix s :: string
  assume "s \<noteq> []"
  moreover have "length (dropWhile (\<lambda>c. c \<noteq> LF) s) \<le> length s" by (rule length_dropWhile_le)
  moreover have "0 < length s" using \<open>s \<noteq> []\<close> by simp
  ultimately have "length (drop 1 (dropWhile (\<lambda>c. c \<noteq> LF) s)) < length s"
    unfolding length_drop by linarith
  then show "(drop 1 (dropWhile (\<lambda>c. c \<noteq> LF) s), s) \<in> measure length" by simp
qed simp

declare getlines.simps [simp del]

definition is_comment :: "string \<Rightarrow> bool" where
  "is_comment line = (line = [] \<or> hd line = CHR '';'' \<or> hd line = CHR ''#'' \<or> hd line = CHR ''['')"

text \<open>
  \<open>strncpy\<close> into a zeroed array of 50 and of 500 characters, leaving the last one.
\<close>

definition make_item :: "string \<Rightarrow> string \<Rightarrow> conf_item" where
  "make_item key value = (take 49 (c_str key), take 499 (c_str value))"

definition conf_line :: "string \<Rightarrow> conf_item list \<Rightarrow> conf_item list" where
  "conf_line raw items =
     (let line = trim raw in
      if is_comment line then items
      else
        (case find_char (CHR ''='') line of
           None \<Rightarrow> items
         | Some d \<Rightarrow> items @ [make_item (trim (take d line)) (trim (drop (Suc d) line))]))"

definition config_path :: "string \<Rightarrow> string \<Rightarrow> string" where
  "config_path exePath myconfname =
     (let exeDir = (case rfind_char (CHR ''/'') exePath of None \<Rightarrow> exePath | Some p \<Rightarrow> take p exePath)
      in exeDir @ ''/../config/'' @ myconfname)"

definition LoadConf ::
  "string option \<Rightarrow> (string \<rightharpoonup> string) \<Rightarrow> string \<Rightarrow> conf_item list \<Rightarrow> bool \<times> conf_item list" where
  "LoadConf exe files myconfname items =
     (case exe of
        None \<Rightarrow> (False, items)
      | Some exePath \<Rightarrow>
          (case files (config_path exePath myconfname) of
             None \<Rightarrow> (False, items)
           | Some text \<Rightarrow> (True, fold conf_line (getlines text) items)))"

section \<open>Reading\<close>

definition GetString :: "string \<Rightarrow> conf_item list \<Rightarrow> string option" where
  "GetString key items = map_option snd (find (\<lambda>it. fst it = key) items)"

definition GetIntDefault :: "string \<Rightarrow> int \<Rightarrow> conf_item list \<Rightarrow> int" where
  "GetIntDefault key default_value items =
     (case find (\<lambda>it. strcaseeq (fst it) key) items of
        Some it \<Rightarrow> atoi (snd it)
      | None \<Rightarrow> default_value)"

section \<open>A file and what is read from it\<close>

text \<open>A line of a file: a setting written with blanks around its parts, or a comment.\<close>

datatype entry = Setting string string string string string string | Remark string

fun render_entry :: "entry \<Rightarrow> string" where
  "render_entry (Setting a k b c v d) = a @ k @ b @ ''='' @ c @ v @ d"
| "render_entry (Remark r) = r"

definition blank_text :: "string \<Rightarrow> bool" where
  "blank_text s \<longleftrightarrow> (\<forall>x \<in> set s. is_space x \<and> x \<noteq> LF)"

definition no_edge_space :: "string \<Rightarrow> bool" where
  "no_edge_space s \<longleftrightarrow> s = [] \<or> (\<not> is_space (hd s) \<and> \<not> is_space (last s))"

definition plain_text :: "string \<Rightarrow> bool" where
  "plain_text s \<longleftrightarrow> LF \<notin> set s \<and> CHR 0x00 \<notin> set s \<and> no_edge_space s"

fun entry_ok :: "entry \<Rightarrow> bool" where
  "entry_ok (Setting a k b c v d) \<longleftrightarrow>
     blank_text a \<and> blank_text b \<and> blank_text c \<and> blank_text d \<and>
     plain_text k \<and> plain_text v \<and> \<not> is_comment k \<and> CHR ''='' \<notin> set k \<and>
     length k \<le> 49 \<and> length v \<le> 499"
| "entry_ok (Remark r) \<longleftrightarrow> LF \<notin> set r \<and> is_comment (trim r)"

fun settings :: "entry list \<Rightarrow> conf_item list" where
  "settings [] = []"
| "settings (Setting a k b c v d # es) = (k, v) # settings es"
| "settings (Remark r # es) = settings es"

definition render_file :: "entry list \<Rightarrow> string" where
  "render_file es = concat (map (\<lambda>e. render_entry e @ [LF]) es)"

lemma trim_pad:
  assumes "\<forall>x \<in> set a. is_space x" and "\<forall>x \<in> set d. is_space x" and "no_edge_space s"
  shows "trim (a @ s @ d) = s"
proof (cases "s = []")
  case True
  moreover have "dropWhile is_space (a @ d) = []" using assms by (auto simp: dropWhile_eq_Nil_conv)
  ultimately have e: "dropWhile is_space (a @ s @ d) = []" by (simp only: append_Nil)
  show ?thesis unfolding trim_def e by (simp add: rdrop_def True)
next
  case False
  then have h: "\<not> is_space (hd s)" and l: "\<not> is_space (last s)" using assms(3) by (auto simp: no_edge_space_def)
  have "dropWhile is_space (a @ s @ d) = dropWhile is_space (s @ d)"
    using assms(1) by (simp add: dropWhile_append2)
  also have "\<dots> = s @ d" using False h by (cases s) simp_all
  finally have 1: "dropWhile is_space (a @ s @ d) = s @ d" .
  have "dropWhile is_space (rev (s @ d)) = dropWhile is_space (rev s)"
    using assms(2) dropWhile_append2 [of "rev d" is_space "rev s"] by simp
  also have "\<dots> = rev s" using False l by (intro dropWhile_hd) (simp add: hd_rev)
  finally show ?thesis by (simp add: trim_def rdrop_def 1)
qed

lemma c_str_plain: "CHR 0x00 \<notin> set s \<Longrightarrow> c_str s = s"
  by (auto simp: c_str_def takeWhile_eq_all_conv)

lemma conf_line_core:
  assumes "CHR ''='' \<notin> set (k @ b)" and "\<not> is_comment k" and "trim (k @ b) = k"
    and "trim (k @ b @ CHR ''='' # r) = k @ b @ CHR ''='' # r'" and "trim r' = v"
    and "trim raw = trim (k @ b @ CHR ''='' # r)"
    and "plain_text k" and "plain_text v" and "length k \<le> 49" and "length v \<le> 499"
  shows "conf_line raw items = items @ [(k, v)]"
proof -
  have "find_char (CHR ''='') ((k @ b) @ CHR ''='' # r') = Some (length (k @ b))"
    using assms(1) by (rule find_char_skip)
  moreover have "\<not> is_comment (k @ b @ CHR ''='' # r')"
    using assms(2) by (cases k) (simp_all add: is_comment_def)
  moreover have "make_item k v = (k, v)"
    using assms(7-10) by (simp add: make_item_def plain_text_def c_str_plain)
  ultimately show ?thesis
    using assms(3-6) by (simp add: conf_line_def Let_def)
qed

lemma conf_line_setting:
  assumes "entry_ok (Setting a k b c v d)"
  shows "conf_line (render_entry (Setting a k b c v d)) items = items @ [(k, v)]"
proof -
  have sp: "\<forall>x \<in> set a. is_space x" "\<forall>x \<in> set b. is_space x" "\<forall>x \<in> set c. is_space x"
      "\<forall>x \<in> set d. is_space x"
    using assms by (auto simp: blank_text_def)
  have k: "k \<noteq> []" "no_edge_space k" "no_edge_space v" "CHR ''='' \<notin> set k" "\<not> is_comment k"
      "plain_text k" "plain_text v" "length k \<le> 49" "length v \<le> 499"
    using assms by (auto simp: plain_text_def is_comment_def)
  have eq: "\<not> is_space (CHR ''='')" by (simp add: is_space_def ordc_def)
  have eq_b: "CHR ''='' \<notin> set (k @ b)" using sp(2) k(4) eq by auto
  have kb: "trim (k @ b) = k" using trim_pad [of "[]" b k] sp(2) k(2) by simp
  have hk: "\<not> is_space (hd k)" using k(1,2) by (simp add: no_edge_space_def)
  show ?thesis
  proof (cases "v = []")
    case True
    let ?core = "k @ b @ [CHR ''='']"
    have "no_edge_space ?core" using hk k(1) eq by (simp add: no_edge_space_def)
    moreover have "\<forall>x \<in> set (c @ d). is_space x" using sp(3,4) by auto
    ultimately have "trim (a @ ?core @ (c @ d)) = ?core" and "trim ([] @ ?core @ []) = ?core"
      using sp(1) by (metis trim_pad empty_iff list.set(1))+
    then show ?thesis
      using True by (intro conf_line_core [of k b "[]" "[]", OF eq_b k(5) kb _ _ _ k(6-9)])
        (simp_all add: trim_def rdrop_def)
  next
    case False
    let ?core = "k @ b @ CHR ''='' # c @ v"
    have "no_edge_space ?core" using hk k(1,3) False by (simp add: no_edge_space_def)
    then have "trim (a @ ?core @ d) = ?core" and "trim ([] @ ?core @ []) = ?core"
      using sp(1,4) by (metis trim_pad empty_iff list.set(1))+
    moreover have "trim (c @ v) = v" using trim_pad [of c "[]" v] sp(3) k(3) by simp
    ultimately show ?thesis
      by (intro conf_line_core [of k b "c @ v" "c @ v", OF eq_b k(5) kb _ _ _ k(6-9)]) simp_all
  qed
qed

lemma conf_line_remark: "is_comment (trim r) \<Longrightarrow> conf_line r items = items"
  by (simp add: conf_line_def)

lemma fold_lines:
  "\<forall>e \<in> set es. entry_ok e \<Longrightarrow> fold conf_line (map render_entry es) items = items @ settings es"
proof (induction es arbitrary: items rule: settings.induct)
  case (2 a k b c v d es)
  then show ?case using conf_line_setting [of a k b c v d] by simp
qed (auto simp: conf_line_remark)

lemma getlines_line: "LF \<notin> set l \<Longrightarrow> getlines (l @ LF # t) = l # getlines t"
proof -
  assume "LF \<notin> set l"
  then have "takeWhile (\<lambda>c. c \<noteq> LF) (l @ LF # t) = l" "dropWhile (\<lambda>c. c \<noteq> LF) (l @ LF # t) = LF # t"
    by (induction l) auto
  then show ?thesis by (subst getlines.simps) simp
qed

lemma entry_no_LF: "entry_ok e \<Longrightarrow> LF \<notin> set (render_entry e)"
  by (cases e) (auto simp: blank_text_def plain_text_def)

lemma getlines_file: "\<forall>e \<in> set es. entry_ok e \<Longrightarrow> getlines (render_file es) = map render_entry es"
proof (induction es)
  case Nil
  then show ?case by (simp add: render_file_def getlines.simps)
next
  case (Cons e es)
  then show ?case using entry_no_LF [of e]
    by (simp add: render_file_def getlines_line)
qed

section \<open>Properties\<close>

text \<open>
  C23: a configuration file is read back: after loading a file of settings (with blanks
  around names and values), comments and empty lines, \<open>GetString\<close> gives for every
  key the value of its first setting, exactly as it was written without the blanks, and
  nothing for a key without a setting.
\<close>

theorem conf_roundtrip:
  assumes "\<forall>e \<in> set es. entry_ok e" and "files (config_path exe name) = Some (render_file es)"
  shows "fst (LoadConf (Some exe) files name []) \<and>
    GetString key (snd (LoadConf (Some exe) files name [])) = map_of (settings es) key"
proof -
  have find: "map_option snd (find (\<lambda>it. fst it = key) xs) = map_of xs key" for xs :: "conf_item list"
    by (induction xs) auto
  show ?thesis
    using assms by (simp add: LoadConf_def getlines_file fold_lines GetString_def find)
qed

definition demo_entries :: "entry list" where
  "demo_entries =
     [Remark ''[Net]'', Remark '' '', Remark ''# listen on'',
      Setting [] ''ListenPort'' '' '' '' '' ''8080'' [], Setting '' '' ''ListenPort'' [] [] ''9'' []]"

lemma conf_roundtrip_witness:
  "GetString ''ListenPort''
     (snd (LoadConf (Some ''/srv/bin/nginx'')
        [''/srv/bin/../config/nginx.conf'' \<mapsto> render_file demo_entries] ''nginx.conf'' [])) = Some ''8080'' \<and>
   config_path ''/srv/bin/nginx'' ''nginx.conf'' = ''/srv/bin/../config/nginx.conf''"
proof -
  have ok: "\<forall>e \<in> set demo_entries. entry_ok e" and path: "config_path ''/srv/bin/nginx'' ''nginx.conf'' =
      ''/srv/bin/../config/nginx.conf''" and
    v: "map_of (settings demo_entries) ''ListenPort'' = Some ''8080''"
    by code_simp+
  have "[''/srv/bin/../config/nginx.conf'' \<mapsto> render_file demo_entries]
      (config_path ''/srv/bin/nginx'' ''nginx.conf'') = Some (render_file demo_entries)"
    using path by simp
  from conf_roundtrip [where files = "[''/srv/bin/../config/nginx.conf'' \<mapsto> render_file demo_entries]",
      OF ok this] path v show ?thesis by simp
qed

end
