(* ===== verification/SendPath.thy ===== *)
theory SendPath
  imports ConnPool Conf
begin

text \<open>
  Reading, sending and the event loop of a worker: \<open>src/net/my_socket.cpp\<close>
  (\<open>ReadConf\<close>, \<open>ngx_epoll_init\<close>, \<open>msgSend\<close>, \<open>ServerSendQueueThread\<close>,
  \<open>ngx_epoll_process_events\<close>, \<open>Shotdown_subproc\<close>) and
  \<open>src/net/my_http_request_callback.cpp\<close>. What the kernel answers to \<open>recv\<close>,
  \<open>send\<close> and \<open>epoll_wait\<close> is an argument; what was sent is recorded on a wire, per
  descriptor and call.
\<close>

section \<open>The worker's network state\<close>

record net =
  nt_sock :: csock
  nt_wire :: "(int \<times> bytes) list"
  nt_sem :: nat

definition on_sock :: "(csock \<Rightarrow> csock) \<Rightarrow> net \<Rightarrow> net" where
  "on_sock f w = w\<lparr>nt_sock := f (nt_sock w)\<rparr>"

definition nconn :: "nat \<Rightarrow> net \<Rightarrow> connection" where
  "nconn a w = conn a (nt_sock w)"

definition nupd :: "nat \<Rightarrow> (connection \<Rightarrow> connection) \<Rightarrow> net \<Rightarrow> net" where
  "nupd a f = on_sock (upd_conn a f)"

section \<open>Settings\<close>

text \<open>
  The members the configuration sets; the former value is the default where the code has
  it so, also for \<open>m_iWaitTime\<close>, which nothing sets before.
\<close>

definition ReadConf :: "conf_item list \<Rightarrow> csock \<Rightarrow> csock" where
  "ReadConf items s =
     (let wait = GetIntDefault ''Sock_MaxWaitTime'' (tq_iWaitTime (so_timer s)) items
      in s\<lparr>so_worker_connections := GetIntDefault ''worker_connections'' (so_worker_connections s) items,
           so_RecyConnectionWaitTime :=
             GetIntDefault ''Sock_RecyConnectionWaitTime'' (so_RecyConnectionWaitTime s) items,
           so_ifkickTimeCount := GetIntDefault ''Sock_WaitTimeEnable'' 0 items,
           so_timer := (so_timer s)
             \<lparr>tq_iWaitTime := (if 5 < wait then wait else 5),
              tq_ifTimeOutKick := GetIntDefault ''Sock_TimeOutKick'' 0 items\<rparr>,
           so_floodAkEnable := GetIntDefault ''Sock_FloodAttackKickEnable'' 0 items,
           so_floodTimeInterval := word_of_int (GetIntDefault ''Sock_FloodTimeInterval'' 100 items),
           so_floodKickCount := GetIntDefault ''Sock_FloodKickCounter'' 5 items\<rparr>)"

text \<open>
  \<open>CSocket::CSocket\<close>; members it leaves alone are those of \<open>s\<close> (the queues are
  empty in a new object).
\<close>

definition new_CSocket :: "csock \<Rightarrow> csock" where
  "new_CSocket s =
     s\<lparr>so_worker_connections := 1, so_RecyConnectionWaitTime := 600, so_iSendMsgQueueCount := 0,
       so_total_recyconnection_n := 0,
       so_timer := (so_timer s)\<lparr>tq_cur_size := 0, tq_timer_value := 0\<rparr>,
       so_iDiscardSendPkgCount := 0, so_onlineUserCount := 0\<rparr>"

section \<open>Sending\<close>

datatype send_errno = S_EAGAIN | S_EINTR | S_EPIPE | S_ECONNRESET | S_other

datatype send_result = Sent nat | Send_failed send_errno

text \<open>
  \<open>sendproc\<close>: the answers of the kernel to its calls of \<open>send\<close>, the bytes that go
  out, the result and the \<open>errno\<close> behind it. A call sends at most what it is given. When
  the kernel has no answer the call is still blocked (\<open>None\<close>).
\<close>

fun sendproc :: "bytes \<Rightarrow> send_result list \<Rightarrow> (bytes \<times> int \<times> send_errno \<times> send_result list) option" where
  "sendproc d [] = None"
| "sendproc d (Sent k # rs) = Some (take k d, int (min k (length d)), S_other, rs)"
| "sendproc d (Send_failed e # rs) =
     (case e of
        S_EAGAIN \<Rightarrow> Some ([], -1, e, rs)
      | S_EINTR \<Rightarrow> sendproc d rs
      | S_EPIPE \<Rightarrow> Some ([], -1, e, rs)
      | S_ECONNRESET \<Rightarrow> Some ([], -1, e, rs)
      | S_other \<Rightarrow> Some ([], -2, e, rs))"

definition put_wire :: "int \<Rightarrow> bytes \<Rightarrow> net \<Rightarrow> net" where
  "put_wire fd d w = (if d = [] then w else w\<lparr>nt_wire := nt_wire w @ [(fd, d)]\<rparr>)"

text \<open>A message for a connection; \<open>sem_post\<close> wakes a send thread.\<close>

definition msgSend :: "int \<Rightarrow> bytes \<Rightarrow> nat \<Rightarrow> net \<Rightarrow> net" where
  "msgSend now psendbuf a w =
     (let s = nt_sock w in
      if 50000 < length (so_MsgSendQueue s)
      then on_sock (\<lambda>s. s\<lparr>so_iDiscardSendPkgCount := so_iDiscardSendPkgCount s + 1\<rparr>) w
      else if 400 < cn_iSendCount (conn a s)
      then on_sock (\<lambda>s. zdClosesocketProc now a
             (s\<lparr>so_iDiscardSendPkgCount := so_iDiscardSendPkgCount s + 1\<rparr>)) w
      else
        (let s1 = upd_conn a (\<lambda>c. c\<lparr>cn_iSendCount := cn_iSendCount c + 1\<rparr>) s;
             h = \<lparr>mh_conn = a, mh_iCurrsequence = cn_iCurrsequence (conn a s1), mh_sequence = 0\<rparr>
         in w\<lparr>nt_sock := s1\<lparr>so_MsgSendQueue := so_MsgSendQueue s1 @ [(h, psendbuf)],
                          so_iSendMsgQueueCount := so_iSendMsgQueueCount s1 + 1\<rparr>,
              nt_sem := nt_sem w + 1\<rparr>))"

definition bad_request :: bytes where
  "bad_request = ''HTTP/1.1 400 Bad Request'' @ crlf @ crlf"

definition close_now :: "int \<Rightarrow> nat \<Rightarrow> net \<Rightarrow> net" where
  "close_now now a = on_sock (zdClosesocketProc now a)"

definition wants_out :: "bool \<Rightarrow> nat \<Rightarrow> int \<Rightarrow> net \<Rightarrow> net" where
  "wants_out mem a bc w =
     on_sock (\<lambda>s. snd (ngx_epoll_oper_event mem (cn_fd (conn a s)) EPOLL_CTL_MOD EPOLLOUT bc a s)) w"

text \<open>
  What \<open>send\<close> could not take is kept in the connection; \<open>sendCount\<close> is an \<open>int\<close>.
\<close>

definition keep_rest :: "bool \<Rightarrow> msg_header \<Rightarrow> bytes \<Rightarrow> net \<Rightarrow> net" where
  "keep_rest mem h d w =
     wants_out mem (mh_conn h) 0
       (nupd (mh_conn h) (\<lambda>c. c\<lparr>cn_psendbuf := append_buf d (cn_psendbuf c),
          cn_sendCount := sint (ucast (mh_iCurrsequence h) :: u32)\<rparr>) w)"

definition drop_and_close :: "int \<Rightarrow> nat \<Rightarrow> net \<Rightarrow> net" where
  "drop_and_close now a w =
     close_now now a (nupd a (\<lambda>c. c\<lparr>cn_psendbuf := retrieveAll (cn_psendbuf c)\<rparr>) w)"

text \<open>The message taken from the queue, sent on its connection.\<close>

definition send_message ::
  "bool \<Rightarrow> int \<Rightarrow> msg_header \<Rightarrow> bytes \<Rightarrow> bytes \<times> int \<times> send_errno \<Rightarrow> net \<Rightarrow> net" where
  "send_message mem now h d res w =
     (case res of (out, sendsize, err) \<Rightarrow>
        let a = mh_conn h; w1 = put_wire (cn_fd (nconn a w)) out w in
        if 0 < sendsize then
          if sendsize = int (length d) then
            (let w2 = (if d = bad_request then close_now now a w1 else w1)
             in if cn_ishttpClose (nconn a w2) then close_now now a w2 else w2)
          else keep_rest mem h (drop (nat sendsize) d) w1
        else if sendsize = -1 then
          if err = S_EAGAIN then keep_rest mem h d w1 else drop_and_close now a w1
        else if sendsize = 0 \<and> readableBytes (cn_psendbuf (nconn a w1)) = 0 then w1
        else drop_and_close now a w1)"

text \<open>
  One turn of a send thread that got past \<open>sem_wait\<close>. \<open>Ended\<close> is the end of the
  thread, \<open>Null_deref\<close> the use of the null pointer in the header of a message that
  \<open>TryDequeue\<close> did not fill in, \<open>Blocked\<close> a \<open>send\<close> the kernel has not answered.
\<close>

datatype turn = Ended | Null_deref | Blocked | Turned net "send_result list"

definition count_down :: "net \<Rightarrow> net" where
  "count_down = on_sock (\<lambda>s. s\<lparr>so_iSendMsgQueueCount := so_iSendMsgQueueCount s - 1\<rparr>)"

definition ServerSendQueue_turn :: "bool \<Rightarrow> bool \<Rightarrow> int \<Rightarrow> send_result list \<Rightarrow> net \<Rightarrow> turn" where
  "ServerSendQueue_turn stop mem now rs w =
     (if stop then Ended
      else
        (case so_MsgSendQueue (nt_sock w) of
           [] \<Rightarrow> Null_deref
         | (h, d) # q \<Rightarrow>
             (let w1 = on_sock (\<lambda>s. s\<lparr>so_MsgSendQueue := q\<rparr>) w in
              if cn_iCurrsequence (nconn (mh_conn h) w1) \<noteq> mh_iCurrsequence h
              then Turned (count_down w1) rs
              else
                (case sendproc d rs of
                   None \<Rightarrow> Blocked
                 | Some (out, n, err, rs') \<Rightarrow>
                     Turned (count_down (send_message mem now h d (out, n, err) w1)) rs'))))"

section \<open>The write handler\<close>

lemma sendproc_shorter: "sendproc d rs = Some (out, n, e, rs') \<Longrightarrow> length rs' < length rs"
  by (induction d rs rule: sendproc.induct) (auto split: send_errno.splits)

text \<open>The loop of the handler; \<open>None\<close> is a \<open>send\<close> without answer.\<close>

function write_loop :: "bool \<Rightarrow> int \<Rightarrow> nat \<Rightarrow> send_result list \<Rightarrow> net \<Rightarrow> (net \<times> send_result list) option" where
  "write_loop mem now a rs w =
     (case sendproc (contents (cn_psendbuf (nconn a w))) rs of
        None \<Rightarrow> None
      | Some (out, n, err, rs') \<Rightarrow>
          (let w1 = put_wire (cn_fd (nconn a w)) out w in
           if 0 < n then
             (let w2 = nupd a (\<lambda>c. c\<lparr>cn_psendbuf := retrieve (nat n) (cn_psendbuf c)\<rparr>) w1 in
              if readableBytes (cn_psendbuf (nconn a w2)) = 0 then
                (let w3 = wants_out mem a 1 w2
                 in Some (if cn_ishttpClose (nconn a w3) then close_now now a w3 else w3, rs'))
              else write_loop mem now a rs' w2)
           else if n = -1 \<and> err = S_EAGAIN then Some (wants_out mem a 0 w1, rs')
           else Some (close_now now a w1, rs')))"
  by pat_completeness auto
termination
  by (relation "measure (\<lambda>(mem, now, a, rs, w). length rs)") (auto dest: sendproc_shorter)

declare write_loop.simps [simp del]

definition ngx_http_write_response_handler ::
  "bool \<Rightarrow> int \<Rightarrow> nat \<Rightarrow> send_result list \<Rightarrow> net \<Rightarrow> (net \<times> send_result list) option" where
  "ngx_http_write_response_handler mem now a rs w =
     (let c = nconn a w in
      if cn_fd c = -1 \<or> readableBytes (cn_psendbuf c) = 0 \<or>
         cn_iCurrsequence c \<noteq> word_of_int (cn_sendCount c)
      then Some (w, rs)
      else write_loop mem now a rs w)"

section \<open>The read handler\<close>

datatype recv_result = Received bytes | Recv_failed send_errno

definition inMsgRecvQueueAndSignal :: "msg_header \<Rightarrow> bytes \<Rightarrow> csock \<Rightarrow> csock" where
  "inMsgRecvQueueAndSignal h buf s = s\<lparr>so_MsgRecvQueue := so_MsgRecvQueue s @ [(h, buf)]\<rparr>"

text \<open>At most the megabyte of the buffer is received; 0 bytes are the end of the stream.\<close>

definition ngx_http_read_request_handler :: "int \<Rightarrow> nat \<Rightarrow> recv_result \<Rightarrow> csock \<Rightarrow> csock" where
  "ngx_http_read_request_handler now a r s =
     (case r of
        Received d \<Rightarrow>
          if d = [] then zdClosesocketProc now a s
          else
            (let c = conn a s;
                 h = \<lparr>mh_conn = a, mh_iCurrsequence = cn_iCurrsequence c, mh_sequence = cn_sequence c\<rparr>
             in inMsgRecvQueueAndSignal h (take (1024 * 1024) d)
                  (upd_conn a (\<lambda>c. c\<lparr>cn_sequence := cn_sequence c + 1\<rparr>) s))
      | Recv_failed e \<Rightarrow>
          if e = S_EAGAIN \<or> e = S_EINTR then s else zdClosesocketProc now a s)"

section \<open>The event loop\<close>

text \<open>
  One event: the connection epoll was given, the events that are ready, and what the
  kernel answers to the handlers. An exception is the call of an empty
  \<open>std::function\<close>, which leaves the loop.
\<close>

record ready_event =
  re_conn :: nat
  re_events :: u32
  re_accepts :: "accept_result list"
  re_recv :: recv_result
  re_sends :: "send_result list"
  re_mem :: bool

datatype handled = Handled net | Bad_function_call net | Stuck

definition hangup :: "u32 \<Rightarrow> bool" where
  "hangup ev \<longleftrightarrow> ev AND (EPOLLHUP OR EPOLLERR OR EPOLLRDHUP) \<noteq> 0"

definition call_rhandler :: "int \<Rightarrow> ready_event \<Rightarrow> net \<Rightarrow> handled" where
  "call_rhandler now e w =
     (let a = re_conn e in
      case cn_rhandler (nconn a w) of
        No_read \<Rightarrow> Bad_function_call w
      | Event_accept \<Rightarrow>
          (case ngx_event_accept now a (re_accepts e) (nt_sock w) of
             None \<Rightarrow> Stuck
           | Some s \<Rightarrow> Handled (w\<lparr>nt_sock := s\<rparr>))
      | Http_read \<Rightarrow> Handled (on_sock (ngx_http_read_request_handler now a (re_recv e)) w))"

definition call_whandler :: "int \<Rightarrow> ready_event \<Rightarrow> net \<Rightarrow> handled" where
  "call_whandler now e w =
     (let a = re_conn e in
      case cn_whandler (nconn a w) of
        No_write \<Rightarrow> Bad_function_call w
      | Http_write \<Rightarrow>
          (case ngx_http_write_response_handler (re_mem e) now a (re_sends e) w of
             None \<Rightarrow> Stuck
           | Some (w', _) \<Rightarrow> Handled w'))"

definition process_event :: "int \<Rightarrow> ready_event \<Rightarrow> net \<Rightarrow> handled" where
  "process_event now e w =
     (let ev = re_events e;
          r1 = (if ev AND EPOLLIN \<noteq> 0 \<and> \<not> hangup ev then call_rhandler now e w else Handled w)
      in case r1 of
           Handled w1 \<Rightarrow>
             if ev AND EPOLLOUT \<noteq> 0 \<and> \<not> hangup ev then call_whandler now e w1 else Handled w1
         | other \<Rightarrow> other)"

fun process_all :: "int \<Rightarrow> ready_event list \<Rightarrow> net \<Rightarrow> handled" where
  "process_all now [] w = Handled w"
| "process_all now (e # es) w =
     (case process_event now e w of
        Handled w' \<Rightarrow> process_all now es w'
      | other \<Rightarrow> other)"

datatype wait_result = Wait_failed send_errno | Ready "ready_event list"

text \<open>The result of \<open>ngx_epoll_process_events\<close> is 1 or 0.\<close>

definition ngx_epoll_process_events :: "int \<Rightarrow> int \<Rightarrow> wait_result \<Rightarrow> net \<Rightarrow> int \<times> handled" where
  "ngx_epoll_process_events now timer r w =
     (case r of
        Wait_failed e \<Rightarrow> (if e = S_EINTR then 1 else 0, Handled w)
      | Ready es \<Rightarrow>
          if es = [] then (if timer \<noteq> -1 then 1 else 0, Handled w)
          else (1, process_all now es w))"

text \<open>
  The start of a worker: the pool, then a connection for the listening socket, which is
  \<open>None\<close> when it could not be opened; the code follows that null pointer. \<open>exit(2)\<close>
  ends the process.
\<close>

datatype init_result = Worker_ready csock | Exit_process | Null_listening | Pool_loop

definition ngx_epoll_init :: "bool \<Rightarrow> int option \<Rightarrow> bool \<Rightarrow> csock \<Rightarrow> init_result" where
  "ngx_epoll_init created listening mem s =
     (if \<not> created then Exit_process
      else
        (let s1 = initconnection s in
         case listening of
           None \<Rightarrow> Null_listening
         | Some fd \<Rightarrow>
             (case ngx_get_connection fd s1 of
                None \<Rightarrow> Pool_loop
              | Some (a, s2) \<Rightarrow>
                  (let s3 = upd_conn a (\<lambda>c. c\<lparr>cn_listening := Some fd, cn_rhandler := Event_accept\<rparr>) s2;
                       (ok, s4) = ngx_epoll_oper_event mem fd EPOLL_CTL_ADD (EPOLLIN OR EPOLLRDHUP) 0 a s3
                   in if ok then Worker_ready s4 else Exit_process))))"

text \<open>
  The state \<open>Shotdown_subproc\<close> leaves when the threads have ended: the send queue is not
  cleared, the pool and the timer queue are.
\<close>

definition Shotdown_subproc :: "nat \<Rightarrow> net \<Rightarrow> net" where
  "Shotdown_subproc sendThreads w =
     on_sock (\<lambda>s. let s1 = clearconnection s
              in s1\<lparr>so_timer := clearAllFromTimerQueue (so_timer s1)\<rparr>)
       (w\<lparr>nt_sem := nt_sem w + sendThreads\<rparr>)"

section \<open>What the steps leave alone\<close>

lemma nconn_simps [simp]:
  "nconn a (put_wire fd d w) = nconn a w"
  "nconn a (on_sock f w) = conn a (f (nt_sock w))"
  "nt_sock (put_wire fd d w) = nt_sock w"
  "nt_sock (on_sock f w) = f (nt_sock w)"
  "nt_wire (on_sock f w) = nt_wire w"
  "nt_wire (put_wire fd d w) = nt_wire w @ (if d = [] then [] else [(fd, d)])"
  by (simp_all add: nconn_def put_wire_def on_sock_def)

lemma nt_wire_frame [simp]:
  "nt_wire (nupd a f w) = nt_wire w" "nt_wire (wants_out mem a bc w) = nt_wire w"
  "nt_wire (close_now now a w) = nt_wire w" "nt_wire (count_down w) = nt_wire w"
  by (simp_all add: nupd_def wants_out_def close_now_def count_down_def)

lemma nt_sock_frame [simp]:
  "nt_sock (nupd a f w) = upd_conn a f (nt_sock w)"
  "nt_sock (close_now now a w) = zdClosesocketProc now a (nt_sock w)"
  by (simp_all add: nupd_def close_now_def)

text \<open>A change of interest touches \<open>events\<close> only.\<close>

lemma oper_event_conn [simp]:
  "cn_psendbuf (conn b (snd (ngx_epoll_oper_event mem fd op flag bc a s))) = cn_psendbuf (conn b s)"
  "cn_iSendCount (conn b (snd (ngx_epoll_oper_event mem fd op flag bc a s))) = cn_iSendCount (conn b s)"
  "cn_iCurrsequence (conn b (snd (ngx_epoll_oper_event mem fd op flag bc a s))) = cn_iCurrsequence (conn b s)"
  "cn_sendCount (conn b (snd (ngx_epoll_oper_event mem fd op flag bc a s))) = cn_sendCount (conn b s)"
  "cn_ishttpClose (conn b (snd (ngx_epoll_oper_event mem fd op flag bc a s))) = cn_ishttpClose (conn b s)"
  "cn_id (conn b (snd (ngx_epoll_oper_event mem fd op flag bc a s))) = cn_id (conn b s)"
  by (cases op; simp add: ngx_epoll_oper_event_def Let_def conn_upd)+

lemma conn_recy [simp]: "conn b (s\<lparr>so_recyconnectionList := r\<rparr>) = conn b s"
  by (simp add: conn_def)

lemma zdClose_conn [simp]:
  "cn_psendbuf (conn b (zdClosesocketProc now a s)) = cn_psendbuf (conn b s)"
  "cn_iSendCount (conn b (zdClosesocketProc now a s)) = cn_iSendCount (conn b s)"
  "cn_sendCount (conn b (zdClosesocketProc now a s)) = cn_sendCount (conn b s)"
  "cn_ishttpClose (conn b (zdClosesocketProc now a s)) = cn_ishttpClose (conn b s)"
  by (auto simp: zdClosesocketProc_def inRecyConnectQueue_def Let_def conn_upd)

lemma zdClose_length [simp]:
  "length (so_connectionList (zdClosesocketProc now a s)) = length (so_connectionList s)"
  by (simp add: zdClosesocketProc_def inRecyConnectQueue_def Let_def)

lemma wants_out_conn [simp]:
  "cn_psendbuf (nconn b (wants_out mem a bc w)) = cn_psendbuf (nconn b w)"
  "cn_ishttpClose (nconn b (wants_out mem a bc w)) = cn_ishttpClose (nconn b w)"
  "cn_iSendCount (nconn b (wants_out mem a bc w)) = cn_iSendCount (nconn b w)"
  "cn_fd (nconn b (wants_out mem a bc w)) = cn_fd (nconn b w)"
  "cn_iCurrsequence (nconn b (wants_out mem a bc w)) = cn_iCurrsequence (nconn b w)"
  "cn_sendCount (nconn b (wants_out mem a bc w)) = cn_sendCount (nconn b w)"
  "length (so_connectionList (nt_sock (wants_out mem a bc w))) = length (so_connectionList (nt_sock w))"
  by (simp_all add: wants_out_def) (simp_all add: nconn_def)

lemma close_now_conn [simp]:
  "cn_psendbuf (nconn b (close_now now a w)) = cn_psendbuf (nconn b w)"
  "cn_iSendCount (nconn b (close_now now a w)) = cn_iSendCount (nconn b w)"
  by (simp_all add: close_now_def nconn_def)

lemma nupd_conn:
  "nconn b (nupd a f w) =
     (if b = a \<and> a < length (so_connectionList (nt_sock w)) then f (nconn a w) else nconn b w)"
  by (simp add: nupd_def nconn_def conn_upd)

lemma sendproc_prefix:
  "sendproc d rs = Some (out, n, e, rs') \<Longrightarrow>
     out = take (nat n) d \<and> n \<le> int (length d) \<and> (n \<le> 0 \<longrightarrow> out = [])"
  by (induction d rs rule: sendproc.induct) (auto split: send_errno.splits if_splits simp: min_def)

lemma zdClose_fd [simp]:
  "a < length (so_connectionList s) \<Longrightarrow> cn_fd (conn a (zdClosesocketProc now a s)) = -1"
  by (simp add: zdClosesocketProc_def inRecyConnectQueue_def Let_def conn_upd)

lemma close_now_fd [simp]:
  "a < length (so_connectionList (nt_sock w)) \<Longrightarrow> cn_fd (nconn a (close_now now a w)) = -1"
  by (simp add: close_now_def)

lemma count_down_conn [simp]: "nconn b (count_down w) = nconn b w"
  by (simp add: count_down_def) (simp add: nconn_def conn_def)

lemma zdClose_queue [simp]:
  "so_MsgSendQueue (zdClosesocketProc now a s) = so_MsgSendQueue s"
  by (auto simp: zdClosesocketProc_def inRecyConnectQueue_def Let_def ngx_epoll_oper_event_def
      epoll_ctl_def close_fd_def)

lemma wants_out_queue [simp]:
  "so_MsgSendQueue (nt_sock (wants_out mem a bc w)) = so_MsgSendQueue (nt_sock w)"
  by (simp add: wants_out_def ngx_epoll_oper_event_def epoll_ctl_def Let_def)

lemma send_message_queue [simp]:
  "so_MsgSendQueue (nt_sock (send_message mem now h d res w)) = so_MsgSendQueue (nt_sock w)"
  by (cases res) (simp add: send_message_def Let_def keep_rest_def drop_and_close_def)

lemma sendproc_minus:
  "sendproc d rs = Some (out, n, e, rs') \<Longrightarrow> n = 0 \<Longrightarrow> Sent 0 \<notin> set rs \<Longrightarrow> d = []"
  by (induction d rs rule: sendproc.induct) (auto split: send_errno.splits if_splits simp: min_def)

lemma zdClose_seq:
  assumes "a < length (so_connectionList s)" and "\<forall>b \<in> set (so_recyconnectionList s). cn_id (conn b s) \<noteq> cn_id (conn a s)"
  shows "cn_iCurrsequence (conn a (zdClosesocketProc now a s)) = cn_iCurrsequence (conn a s) + 1"
  using assms by (auto simp: zdClosesocketProc_def inRecyConnectQueue_def Let_def conn_upd)

lemma conn_nt_sock [simp]: "conn b (nt_sock w) = nconn b w"
  by (simp only: nconn_def)

section \<open>Properties\<close>

lemma readable_contents: "buf_ok b \<Longrightarrow> readableBytes b = 0 \<longleftrightarrow> contents b = []"
  by (simp flip: length_0_conv)

lemma write_loop_keeps_order:
  assumes "write_loop mem now a rs w = Some (w', rs')"
    and "a < length (so_connectionList (nt_sock w))" and "buf_ok (cn_psendbuf (nconn a w))"
  shows "\<exists>outs. nt_wire w' = nt_wire w @ map (Pair (cn_fd (nconn a w))) outs \<and>
    concat outs @ contents (cn_psendbuf (nconn a w')) = contents (cn_psendbuf (nconn a w))"
  using assms
proof (induction mem now a rs w rule: write_loop.induct)
  case (1 mem now a rs w)
  let ?fd = "cn_fd (nconn a w)" and ?b = "cn_psendbuf (nconn a w)"
  obtain out n err r1 where sp: "sendproc (contents ?b) rs = Some (out, n, err, r1)"
    using "1.prems"(1) by (subst (asm) write_loop.simps) (auto split: option.splits)
  note pre = sendproc_prefix [OF sp]
  let ?w1 = "put_wire ?fd out w"
  let ?w2 = "nupd a (\<lambda>c. c\<lparr>cn_psendbuf := retrieve (nat n) (cn_psendbuf c)\<rparr>) ?w1"
  have b2: "cn_psendbuf (nconn a ?w2) = retrieve (nat n) ?b" "cn_fd (nconn a ?w2) = ?fd"
    using "1.prems"(2) by (simp_all add: nupd_conn)
  show ?case
  proof (cases "0 < n \<and> readableBytes (cn_psendbuf (nconn a ?w2)) \<noteq> 0")
    case True
    then have "write_loop mem now a r1 ?w2 = Some (w', rs')"
      using "1.prems"(1) sp by (subst (asm) write_loop.simps) (simp add: Let_def)
    moreover have "buf_ok (cn_psendbuf (nconn a ?w2))" "a < length (so_connectionList (nt_sock ?w2))"
      using "1.prems"(2,3) by (simp_all add: b2)
    ultimately obtain outs where outs: "nt_wire w' = nt_wire ?w2 @ map (Pair ?fd) outs"
        "concat outs @ contents (cn_psendbuf (nconn a w')) = contents (cn_psendbuf (nconn a ?w2))"
      using "1.IH" [OF sp refl refl refl refl _ refl _] True b2(2) by auto
    show ?thesis
      using outs pre b2 "1.prems"(3)
      by (intro exI [of _ "(if out = [] then [] else [out]) @ outs"]) auto
  next
    case False
    then have "nt_wire w' = nt_wire ?w1" and
      "contents (cn_psendbuf (nconn a w')) = drop (length out) (contents ?b)"
      using "1.prems" sp pre b2 readable_contents [of "retrieve (nat n) ?b"]
      by (subst (asm) write_loop.simps; auto simp: Let_def split: if_splits)+
    then show ?thesis
      using pre by (intro exI [of _ "if out = [] then [] else [out]"]) (auto simp: min_def)
  qed
qed

text \<open>
  C13: The write handler sends what a connection has kept in order, once: what goes out on
  its descriptor, followed by what is still kept, is what was kept before, whatever
  \<open>send\<close> answers.
\<close>

theorem write_handler_keeps_order:
  assumes "ngx_http_write_response_handler mem now a rs w = Some (w', rs')"
    and "a < length (so_connectionList (nt_sock w))" and "buf_ok (cn_psendbuf (nconn a w))"
  shows "\<exists>outs. nt_wire w' = nt_wire w @ map (Pair (cn_fd (nconn a w))) outs \<and>
    concat outs @ contents (cn_psendbuf (nconn a w')) = contents (cn_psendbuf (nconn a w))"
  using assms write_loop_keeps_order [of mem now a rs w w' rs']
  by (auto simp: ngx_http_write_response_handler_def Let_def split: if_splits intro: exI [of _ "[]"])

text \<open>A worker with one accepted connection on descriptor 7 that keeps some bytes.\<close>

definition one_client :: "bytes \<Rightarrow> net" where
  "one_client kept =
     \<lparr>nt_sock = (fresh_sock 1)
        \<lparr>so_connectionList := [(GetOneToUse 7 (new_connection 0))
             \<lparr>cn_psendbuf := append_buf kept (new_buffer kInitialSize), cn_sendCount := 1,
               cn_rhandler := Http_read, cn_whandler := Http_write\<rparr>],
         so_epoll := [7 \<mapsto> (EPOLLIN, 0)], so_total_connection_n := 1\<rparr>,
      nt_wire = [], nt_sem = 0\<rparr>"

lemma one_client_simps [simp]:
  "length (so_connectionList (nt_sock (one_client d))) = 1"
  "cn_psendbuf (nconn 0 (one_client d)) = append_buf d (new_buffer kInitialSize)"
  "cn_fd (nconn 0 (one_client d)) = 7" "cn_sendCount (nconn 0 (one_client d)) = 1"
  "cn_iCurrsequence (nconn 0 (one_client d)) = 1" "cn_iSendCount (nconn 0 (one_client d)) = 0"
  "nt_wire (one_client d) = []" "so_MsgSendQueue (nt_sock (one_client d)) = []"
  "so_freeConnectionList (nt_sock (one_client d)) = []"
  "so_recyconnectionList (nt_sock (one_client d)) = []"
  by (simp_all add: one_client_def nconn_def conn_def fresh_sock_def GetOneToUse_def new_connection_def)

theorem write_handler_keeps_order_witness:
  "\<exists>w' outs. nt_wire w' = map (Pair 7) outs \<and> concat outs @ contents (cn_psendbuf (nconn 0 w')) = ''abc''"
proof -
  have c: "contents (cn_psendbuf (nconn 0 (one_client ''abc''))) = ''abc''" by simp
  have "ngx_http_write_response_handler True 0 0 [Sent 2, Send_failed S_EAGAIN] (one_client ''abc'') \<noteq> None"
    by (simp add: ngx_http_write_response_handler_def Let_def write_loop.simps split: option.splits)
  then obtain w' rs' where
    "ngx_http_write_response_handler True 0 0 [Sent 2, Send_failed S_EAGAIN] (one_client ''abc'') = Some (w', rs')"
    by auto
  from write_handler_keeps_order [OF this] c show ?thesis by auto
qed

text \<open>
  C14: A send thread that takes a message for a live connection that keeps nothing puts a
  prefix of it on the wire, in one piece on the connection's descriptor; what \<open>send\<close> did
  not take is kept for the write handler, byte for byte, or the connection is closed.
\<close>

theorem message_sent_or_kept:
  assumes "so_MsgSendQueue (nt_sock w) = (h, d) # q" and "mh_conn h = a"
    and "a < length (so_connectionList (nt_sock w))" and "buf_ok (cn_psendbuf (nconn a w))"
    and "contents (cn_psendbuf (nconn a w)) = []"
    and "cn_iCurrsequence (nconn a w) = mh_iCurrsequence h" and "Sent 0 \<notin> set rs"
    and "ServerSendQueue_turn False mem now rs w = Turned w' rs'"
  shows "so_MsgSendQueue (nt_sock w') = q \<and>
    (\<exists>out kept. nt_wire w' = nt_wire w @ (if out = [] then [] else [(cn_fd (nconn a w), out)]) \<and>
       out @ kept = d \<and> (contents (cn_psendbuf (nconn a w')) = kept \<or> cn_fd (nconn a w') = -1))"
proof -
  let ?w1 = "on_sock (\<lambda>s. s\<lparr>so_MsgSendQueue := q\<rparr>) w"
  have c1: "nconn b ?w1 = nconn b w" for b by simp
  obtain out n err where sp: "sendproc d rs = Some (out, n, err, rs')"
      and w': "w' = count_down (send_message mem now h d (out, n, err) ?w1)"
    using assms(1,2,6,8) by (auto simp: ServerSendQueue_turn_def Let_def c1 split: option.splits)
  note pre = sendproc_prefix [OF sp]
  have wire: "nt_wire w' = nt_wire w @ (if out = [] then [] else [(cn_fd (nconn a w), out)])"
    unfolding w' send_message_def
    by (simp add: Let_def keep_rest_def drop_and_close_def assms(2) c1)
  have a1: "a < length (so_connectionList (nt_sock ?w1))" using assms(3) by (simp add: on_sock_def)
  have kept: "contents (cn_psendbuf (nconn a w')) = drop (length out) d \<or> cn_fd (nconn a w') = -1"
    unfolding w' using pre a1 assms(2,4,5) sendproc_minus [OF sp _ assms(7)]
    by (auto simp: send_message_def Let_def keep_rest_def drop_and_close_def c1 nupd_conn)
  have "out @ drop (length out) d = d" using pre by (auto simp: min_def)
  moreover have "so_MsgSendQueue (nt_sock w') = q" by (simp add: w' count_down_def on_sock_def)
  ultimately show ?thesis using wire kept by blast
qed

theorem message_sent_or_kept_witness:
  "\<exists>w' :: net. nt_wire w' = [(7, ''ab'')] \<and> contents (cn_psendbuf (nconn 0 w')) = ''c''"
proof -
  let ?h = "\<lparr>mh_conn = 0, mh_iCurrsequence = 1, mh_sequence = 0\<rparr>"
  let ?w = "on_sock (\<lambda>s. s\<lparr>so_MsgSendQueue := [(?h, ''abc'')]\<rparr>) (one_client [])"
  have "\<exists>w'. ServerSendQueue_turn False True 0 [Sent 2] ?w = Turned w' [] \<and> nt_wire w' = [(7, ''ab'')] \<and>
      cn_fd (nconn 0 w') = 7"
    by (simp add: ServerSendQueue_turn_def Let_def send_message_def keep_rest_def nupd_conn)
  then obtain w' where w': "ServerSendQueue_turn False True 0 [Sent 2] ?w = Turned w' []"
      "nt_wire w' = [(7, ''ab'')]" "cn_fd (nconn 0 w') = 7" by blast
  have q: "so_MsgSendQueue (nt_sock ?w) = (?h, ''abc'') # []" by simp
  have "contents (cn_psendbuf (nconn 0 w')) = ''c''"
    using message_sent_or_kept [OF q _ _ _ _ _ _ w'(1)] w'(2,3) by (auto split: if_splits)
  with w'(2) show ?thesis by blast
qed

lemma seq_int:
  assumes "unat s < 2 ^ 31"
  shows "word_of_int (sint (ucast s :: u32)) = (s :: u64)"
proof -
  have "int (unat s) < int (2 ^ 31)" using assms by (simp only: of_nat_less_iff)
  then have u: "uint s < 2 ^ 31" by simp
  moreover have "uint (ucast s :: u32) = uint s"
    using u by (simp only: unsigned_ucast_eq) (simp add: take_bit_int_eq_self)
  ultimately have "sint (ucast s :: u32) = uint s"
    using u order_trans [OF _ uint_ge_0 [of s], of "- (2 ^ 31)"]
      signed_take_bit_int_eq_self [of 31 "uint s"] by (simp add: sint_uint)
  then show ?thesis by simp
qed

lemma write_handler_all:
  assumes "a < length (so_connectionList (nt_sock w))" and "buf_ok (cn_psendbuf (nconn a w))"
    and "contents (cn_psendbuf (nconn a w)) = p" and "p \<noteq> []" and "length p \<le> m"
    and "cn_fd (nconn a w) \<noteq> -1" and "cn_iCurrsequence (nconn a w) = word_of_int (cn_sendCount (nconn a w))"
  shows "\<exists>w'. ngx_http_write_response_handler mem now a (Sent m # rs) w = Some (w', rs) \<and>
    nt_wire w' = nt_wire w @ [(cn_fd (nconn a w), p)]"
proof -
  have l: "0 < readableBytes (cn_psendbuf (nconn a w))"
    using assms(2,3,4) by (simp flip: length_contents)
  then have "ngx_http_write_response_handler mem now a (Sent m # rs) w = write_loop mem now a (Sent m # rs) w"
    using assms(6,7) by (simp add: ngx_http_write_response_handler_def Let_def)
  moreover have "readableBytes (retrieve (length p) (cn_psendbuf (nconn a w))) = 0"
    using assms(2,3) readable_contents [of "retrieve (length p) (cn_psendbuf (nconn a w))"] by simp
  ultimately show ?thesis
    using assms(1,3,4,5)
    by (simp add: write_loop.simps Let_def nupd_conn min_def)
qed

text \<open>A response that is queued: what \<open>msgSend\<close> does to a connection that is not cut off.\<close>

lemma msgSend_state:
  assumes "so_MsgSendQueue (nt_sock w) = []" and "cn_iSendCount (nconn a w) \<le> 400"
    and "a < length (so_connectionList (nt_sock w))"
  shows "so_MsgSendQueue (nt_sock (msgSend now d a w)) =
      [(\<lparr>mh_conn = a, mh_iCurrsequence = cn_iCurrsequence (nconn a w), mh_sequence = 0\<rparr>, d)]"
    and "nconn a (msgSend now d a w) = (nconn a w)\<lparr>cn_iSendCount := cn_iSendCount (nconn a w) + 1\<rparr>"
    and "so_MsgRecvQueue (nt_sock (msgSend now d a w)) = so_MsgRecvQueue (nt_sock w)"
    and "length (so_connectionList (nt_sock (msgSend now d a w))) = length (so_connectionList (nt_sock w))"
proof -
  let ?u = "upd_conn a (\<lambda>c. c\<lparr>cn_iSendCount := cn_iSendCount c + 1\<rparr>) (nt_sock w)"
  let ?h = "\<lparr>mh_conn = a, mh_iCurrsequence = cn_iCurrsequence (nconn a w), mh_sequence = 0\<rparr>"
  have c: "conn a ?u = (nconn a w)\<lparr>cn_iSendCount := cn_iSendCount (nconn a w) + 1\<rparr>"
    using assms(3) by (simp add: conn_upd)
  have m: "msgSend now d a w = w\<lparr>nt_sock := ?u\<lparr>so_MsgSendQueue := [(?h, d)],
        so_iSendMsgQueueCount := so_iSendMsgQueueCount ?u + 1\<rparr>, nt_sem := nt_sem w + 1\<rparr>"
    using assms(1,2) c by (simp add: msgSend_def Let_def)
  show "so_MsgSendQueue (nt_sock (msgSend now d a w)) = [(?h, d)]"
    and "nconn a (msgSend now d a w) = (nconn a w)\<lparr>cn_iSendCount := cn_iSendCount (nconn a w) + 1\<rparr>"
    and "so_MsgRecvQueue (nt_sock (msgSend now d a w)) = so_MsgRecvQueue (nt_sock w)"
    and "length (so_connectionList (nt_sock (msgSend now d a w))) = length (so_connectionList (nt_sock w))"
    using c by (simp_all add: m nconn_def del: conn_nt_sock)
qed

lemma msgSend_wire: "nt_wire (msgSend now d a w) = nt_wire w"
  by (simp add: msgSend_def Let_def)

text \<open>A response that \<open>send\<close> cuts: the rest is kept behind what the connection kept already.\<close>

lemma response_cut:
  assumes "so_MsgSendQueue (nt_sock w) = (h, d) # q" and "a < length (so_connectionList (nt_sock w))"
    and "buf_ok (cn_psendbuf (nconn a w))" and "mh_conn h = a" and "mh_iCurrsequence h = cn_iCurrsequence (nconn a w)"
    and "unat (cn_iCurrsequence (nconn a w)) < 2 ^ 31" and "0 < k" and "k < length d"
  shows "\<exists>w'. ServerSendQueue_turn False mem now (Sent k # rs) w = Turned w' rs \<and>
    nt_wire w' = nt_wire w @ [(cn_fd (nconn a w), take k d)] \<and>
    contents (cn_psendbuf (nconn a w')) = contents (cn_psendbuf (nconn a w)) @ drop k d \<and>
    buf_ok (cn_psendbuf (nconn a w')) \<and> cn_fd (nconn a w') = cn_fd (nconn a w) \<and>
    cn_iCurrsequence (nconn a w') = word_of_int (cn_sendCount (nconn a w')) \<and>
    a < length (so_connectionList (nt_sock w'))"
proof -
  let ?v = "put_wire (cn_fd (nconn a w)) (take k d) (on_sock (\<lambda>s. s\<lparr>so_MsgSendQueue := q\<rparr>) w)"
  have v: "nconn a ?v = nconn a w" "a < length (so_connectionList (nt_sock ?v))" using assms(2) by simp_all
  have s: "send_message mem now h d (take k d, int k, S_other) (on_sock (\<lambda>s. s\<lparr>so_MsgSendQueue := q\<rparr>) w) =
      keep_rest mem h (drop k d) ?v"
    using assms(4,7,8) by (simp add: send_message_def Let_def)
  have t: "ServerSendQueue_turn False mem now (Sent k # rs) w = Turned (count_down (keep_rest mem h (drop k d) ?v)) rs"
    using assms(1,4,5,8) s by (simp add: ServerSendQueue_turn_def Let_def)
  have "d \<noteq> []" using assms(8) by auto
  then show ?thesis
    unfolding t keep_rest_def
    using v assms(3,4,7,8) seq_int [OF assms(6)] assms(5) by (simp add: nupd_conn count_down_def)
qed

text \<open>
  C38: What a connection kept for a client that went away is not cleared when the
  connection is handed out again: as soon as a response to the next client cannot be sent
  in one piece, the write handler sends the next client the old client's bytes, and then
  the rest of its own response.
\<close>

theorem kept_bytes_reach_next_client:
  assumes "so_freeConnectionList (nt_sock w) = a # fr" and "a < length (so_connectionList (nt_sock w))"
    and "buf_ok (cn_psendbuf (nconn a w))" and "contents (cn_psendbuf (nconn a w)) = old"
    and "so_MsgSendQueue (nt_sock w) = []" and "fd \<noteq> -1"
    and "ngx_get_connection fd (nt_sock w) = Some (b, s1)" and "unat (cn_iCurrsequence (conn b s1)) < 2 ^ 31"
    and "0 < k" and "k < length d" and "length old + length d \<le> m"
  shows "\<exists>w2 w3. ServerSendQueue_turn False mem now [Sent k, Sent m] (msgSend now d b (w\<lparr>nt_sock := s1\<rparr>)) =
      Turned w2 [Sent m] \<and>
    ngx_http_write_response_handler mem now b [Sent m] w2 = Some (w3, []) \<and>
    nt_wire w3 = nt_wire w @ [(fd, take k d), (fd, old @ drop k d)]"
proof -
  let ?t = "(nt_sock w)\<lparr>so_freeConnectionList := fr, so_free_connection_n := so_free_connection_n (nt_sock w) - 1,
       so_onlineUserCount := so_onlineUserCount (nt_sock w) + 1\<rparr>"
  let ?w = "w\<lparr>nt_sock := s1\<rparr>"
  have b: "b = a" and s1: "s1 = upd_conn a (GetOneToUse fd) ?t"
    using assms(1,7) by (auto simp: ngx_get_connection.simps)
  have c: "nconn a ?w = GetOneToUse fd (nconn a w)"
    using assms(2) by (simp add: nconn_def s1 conn_upd del: conn_nt_sock)
  have w: "so_MsgSendQueue (nt_sock ?w) = []" "cn_iSendCount (nconn a ?w) \<le> 400" "a < length (so_connectionList (nt_sock ?w))"
    using assms(2,5) by (simp_all add: c) (simp_all add: s1 GetOneToUse_def)
  note m = msgSend_state [OF this, of now d]
  let ?w1 = "msgSend now d a ?w"
  have seq: "unat (cn_iCurrsequence (nconn a ?w)) < 2 ^ 31"
    using assms(8) b by (simp add: nconn_def del: conn_nt_sock)
  have w1: "a < length (so_connectionList (nt_sock ?w1))" "buf_ok (cn_psendbuf (nconn a ?w1))"
      "contents (cn_psendbuf (nconn a ?w1)) = old" "cn_fd (nconn a ?w1) = fd"
      "unat (cn_iCurrsequence (nconn a ?w1)) < 2 ^ 31"
    using assms(3,4) w(3) seq by (simp_all add: m(2,4) c)
  obtain w2 where w2: "ServerSendQueue_turn False mem now [Sent k, Sent m] ?w1 = Turned w2 [Sent m]"
      "nt_wire w2 = nt_wire w @ [(fd, take k d)]" "contents (cn_psendbuf (nconn a w2)) = old @ drop k d"
      "buf_ok (cn_psendbuf (nconn a w2))" "cn_fd (nconn a w2) = fd"
      "cn_iCurrsequence (nconn a w2) = word_of_int (cn_sendCount (nconn a w2))" "a < length (so_connectionList (nt_sock w2))"
    using response_cut [OF m(1) w1(1,2) _ _ w1(5) assms(9,10), of mem now "[Sent m]"] w1(3,4)
    by (auto simp: m(2) msgSend_wire)
  have "length (old @ drop k d) \<le> m" "old @ drop k d \<noteq> []" using assms(10,11) by auto
  from write_handler_all [OF w2(7,4,3) this(2,1) _ w2(6), of mem now "[]"] assms(6) w2(1,2,5) b
  show ?thesis by auto
qed
definition next_client :: "bytes \<Rightarrow> net" where
  "next_client kept =
     on_sock (\<lambda>s. s\<lparr>so_freeConnectionList := [0]\<rparr>) (one_client kept)"

theorem kept_bytes_reach_next_client_witness:
  "\<exists>w' :: net. nt_wire w' = [(9, ''NEW''), (9, ''oldDATA'')]"
proof -
  let ?w = "next_client ''old''"
  have w: "so_freeConnectionList (nt_sock ?w) = [0]" "0 < length (so_connectionList (nt_sock ?w))"
    "cn_psendbuf (nconn 0 ?w) = append_buf ''old'' (new_buffer kInitialSize)"
    "so_MsgSendQueue (nt_sock ?w) = []" "nt_wire ?w = []" "cn_iCurrsequence (nconn 0 ?w) = 1"
    by (simp_all add: next_client_def)
  obtain s1 where g: "ngx_get_connection 9 (nt_sock ?w) = Some (0, s1)"
      "conn 0 s1 = GetOneToUse 9 (nconn 0 ?w)"
    using w(1,2) by (auto simp: ngx_get_connection.simps conn_upd)
  have u: "unat (cn_iCurrsequence (conn 0 s1)) < 2 ^ 31"
    by (simp add: g(2) w(6) GetOneToUse_def)
  obtain w3 :: net where "nt_wire w3 = [(9, ''NEW''), (9, ''oldDATA'')]"
    using kept_bytes_reach_next_client [OF w(1,2) _ _ w(4) _ g(1) u, of "''old''" 3 "''NEWDATA''" 100 True 0]
      w(3,5) by auto
  then show ?thesis by blast
qed

text \<open>
  A response that can be sent at once overtakes what the connection still keeps of an
  earlier one: on a connection that stays open the client gets the later response in the
  middle of the earlier one.
\<close>

theorem response_overtakes_kept_bytes:
  assumes "so_MsgSendQueue (nt_sock w) = (h, d) # q" and "mh_conn h = a"
    and "a < length (so_connectionList (nt_sock w))" and "buf_ok (cn_psendbuf (nconn a w))"
    and "contents (cn_psendbuf (nconn a w)) = rest_of_first" and "rest_of_first \<noteq> []"
    and "cn_iCurrsequence (nconn a w) = mh_iCurrsequence h"
    and "cn_iCurrsequence (nconn a w) = word_of_int (cn_sendCount (nconn a w))"
    and "cn_fd (nconn a w) = fd" and "fd \<noteq> -1" and "\<not> cn_ishttpClose (nconn a w)"
    and "d \<noteq> []" and "d \<noteq> bad_request" and "length d \<le> k" and "length rest_of_first \<le> m"
  shows "\<exists>w1 w2. ServerSendQueue_turn False mem now [Sent k, Sent m] w = Turned w1 [Sent m] \<and>
    ngx_http_write_response_handler mem now a [Sent m] w1 = Some (w2, []) \<and>
    nt_wire w2 = nt_wire w @ [(fd, d), (fd, rest_of_first)]"
proof -
  let ?v = "on_sock (\<lambda>s. s\<lparr>so_MsgSendQueue := q\<rparr>) w"
  let ?w1 = "count_down (put_wire fd d ?v)"
  have k0: "0 < k" using assms(12,14) by (cases d) auto
  have t: "ServerSendQueue_turn False mem now [Sent k, Sent m] w = Turned ?w1 [Sent m]"
    using assms k0 by (simp add: ServerSendQueue_turn_def Let_def send_message_def)
  have w1: "length (so_connectionList (nt_sock ?w1)) = length (so_connectionList (nt_sock w))"
      "nconn a ?w1 = nconn a w" "nt_wire ?w1 = nt_wire w @ [(fd, d)]"
    using assms(12) by (simp_all add: count_down_def)
  from write_handler_all [of a ?w1 rest_of_first m mem now "[]"] assms w1 t show ?thesis by auto
qed

theorem response_overtakes_kept_bytes_witness:
  "\<exists>w' :: net. nt_wire w' = [(7, ''second''), (7, ''first'')]"
proof -
  let ?h = "\<lparr>mh_conn = 0, mh_iCurrsequence = 1, mh_sequence = 0\<rparr>"
  let ?w = "on_sock (\<lambda>s. (upd_conn 0 (\<lambda>c. c\<lparr>cn_ishttpClose := False\<rparr>) s)\<lparr>so_MsgSendQueue := [(?h, ''second'')]\<rparr>)
    (one_client ''first'')"
  obtain w2 :: net where "nt_wire w2 = [(7, ''second''), (7, ''first'')]"
    using response_overtakes_kept_bytes [of ?w ?h "''second''" "[]" 0 "''first''" 7 100 100 True 0]
    by (auto simp: conn_upd bad_request_def)
  then show ?thesis by blast
qed

text \<open>What a worker's threads do for one connection: queue a response, run a send thread.\<close>

datatype act = Respond bytes | Send_turn bool int "send_result list"

fun serve :: "int \<Rightarrow> nat \<Rightarrow> act list \<Rightarrow> net \<Rightarrow> net option" where
  "serve now a [] w = Some w"
| "serve now a (Respond d # acts) w = serve now a acts (msgSend now d a w)"
| "serve now a (Send_turn mem t rs # acts) w =
     (case ServerSendQueue_turn False mem t rs w of
        Turned w' _ \<Rightarrow> serve now a acts w'
      | _ \<Rightarrow> None)"

fun responses :: "act list \<Rightarrow> nat" where
  "responses [] = 0"
| "responses (Respond d # acts) = Suc (responses acts)"
| "responses (Send_turn mem t rs # acts) = responses acts"

lemma wants_out_count [simp]:
  "cn_iSendCount (nconn a (keep_rest mem h d w)) = cn_iSendCount (nconn a w)"
  "cn_iSendCount (nconn a (drop_and_close now b w)) = cn_iSendCount (nconn a w)"
  "length (so_connectionList (nt_sock (keep_rest mem h d w))) = length (so_connectionList (nt_sock w))"
  "length (so_connectionList (nt_sock (drop_and_close now b w))) = length (so_connectionList (nt_sock w))"
  by (simp_all add: keep_rest_def drop_and_close_def nupd_conn)

lemma send_message_count:
  "cn_iSendCount (nconn a (send_message mem now h d res w)) = cn_iSendCount (nconn a w) \<and>
   length (so_connectionList (nt_sock (send_message mem now h d res w))) = length (so_connectionList (nt_sock w))"
  by (cases res) (simp add: send_message_def Let_def)

lemma turn_count:
  assumes "ServerSendQueue_turn False mem now rs w = Turned w' rs'"
  shows "cn_iSendCount (nconn a w') = cn_iSendCount (nconn a w) \<and>
    length (so_connectionList (nt_sock w')) = length (so_connectionList (nt_sock w)) \<and>
    length (so_MsgSendQueue (nt_sock w')) < length (so_MsgSendQueue (nt_sock w))"
proof -
  obtain h d q where q: "so_MsgSendQueue (nt_sock w) = (h, d) # q"
    using assms by (auto simp: ServerSendQueue_turn_def split: list.splits)
  let ?v = "on_sock (\<lambda>s. s\<lparr>so_MsgSendQueue := q\<rparr>) w"
  have v: "nconn a ?v = nconn a w" "length (so_connectionList (nt_sock ?v)) = length (so_connectionList (nt_sock w))"
    by simp_all
  have "w' = count_down ?v \<or> (\<exists>res. w' = count_down (send_message mem now h d res ?v))"
    using assms q by (auto simp: ServerSendQueue_turn_def Let_def split: if_splits option.splits)
  then show ?thesis
    using v q send_message_count [of a mem now h d _ ?v] by (auto simp: count_down_def)
qed

lemma msgSend_queued:
  assumes "length (so_MsgSendQueue (nt_sock w)) \<le> 50000" and "cn_iSendCount (nconn a w) \<le> 400"
    and "a < length (so_connectionList (nt_sock w))"
  shows "cn_iSendCount (nconn a (msgSend now d a w)) = cn_iSendCount (nconn a w) + 1 \<and>
    length (so_connectionList (nt_sock (msgSend now d a w))) = length (so_connectionList (nt_sock w)) \<and>
    length (so_MsgSendQueue (nt_sock (msgSend now d a w))) = Suc (length (so_MsgSendQueue (nt_sock w)))"
  using assms by (simp add: msgSend_def Let_def) (simp add: nconn_def conn_upd del: conn_nt_sock)

lemma serve_count:
  assumes "serve now a acts w = Some w'" and "a < length (so_connectionList (nt_sock w))"
    and "cn_iSendCount (nconn a w) + int (responses acts) \<le> 401"
    and "length (so_MsgSendQueue (nt_sock w)) + responses acts \<le> 50000"
  shows "cn_iSendCount (nconn a w') = cn_iSendCount (nconn a w) + int (responses acts) \<and>
    length (so_connectionList (nt_sock w')) = length (so_connectionList (nt_sock w)) \<and>
    length (so_MsgSendQueue (nt_sock w')) \<le> length (so_MsgSendQueue (nt_sock w)) + responses acts"
  using assms
proof (induction now a acts w rule: serve.induct)
  case (2 now a d acts w)
  then show ?case using msgSend_queued [of w a now d] by auto
next
  case (3 now a mem t rs acts w)
  then obtain w1 rs1 where t: "ServerSendQueue_turn False mem t rs w = Turned w1 rs1"
    by (auto split: turn.splits)
  with 3 turn_count [OF t, of a] show ?case by auto
qed simp

text \<open>
  The count of messages waiting on a connection only grows: after 401 responses on one
  connection, however they were interleaved with the send threads and even if every one
  of them was sent at once, the next response is discarded and the connection closed.
\<close>

theorem connection_cut_after_401:
  assumes "serve now a acts w = Some w'" and "responses acts = 401"
    and "cn_iSendCount (nconn a w) = 0" and "a < length (so_connectionList (nt_sock w))"
    and "length (so_MsgSendQueue (nt_sock w)) \<le> 40000"
  shows "cn_fd (nconn a (msgSend t d a w')) = -1 \<and>
    so_MsgSendQueue (nt_sock (msgSend t d a w')) = so_MsgSendQueue (nt_sock w')"
proof -
  have "cn_iSendCount (nconn a w') = 401" "a < length (so_connectionList (nt_sock w'))"
      "\<not> 50000 < length (so_MsgSendQueue (nt_sock w'))"
    using serve_count [OF assms(1,4)] assms(2,3,4,5) by auto
  then show ?thesis by (simp add: msgSend_def Let_def)
qed

text \<open>
  Events with a hang-up, an error or a peer that closed its side are passed over: they
  change nothing, so the connection keeps its descriptor, its place in the pool and its
  registration, and epoll reports it again at once.
\<close>

theorem hangup_ignored:
  assumes "\<forall>e \<in> set es. hangup (re_events e)"
  shows "ngx_epoll_process_events now timer (Ready es) w =
    (if es = [] \<and> timer = -1 then 0 else 1, Handled w)"
proof -
  have "process_all now es w = Handled w"
    using assms by (induction es) (auto simp: process_event_def Let_def)
  then show ?thesis by (simp add: ngx_epoll_process_events_def)
qed

theorem hangup_ignored_witness:
  "ngx_epoll_process_events 0 (-1) (Ready [\<lparr>re_conn = 0, re_events = 0x2001, re_accepts = [],
     re_recv = Received [], re_sends = [], re_mem = True\<rparr>]) (one_client []) = (1, Handled (one_client []))"
  using hangup_ignored [of "[\<lparr>re_conn = 0, re_events = 0x2001, re_accepts = [],
     re_recv = Received [], re_sends = [], re_mem = True\<rparr>]" 0 "-1" "one_client []"]
  by (simp add: hangup_def EPOLLHUP_def EPOLLERR_def EPOLLRDHUP_def)

text \<open>
  A response that was queued for a connection in use is not sent on it once the
  connection was closed: the send thread finds another sequence number and drops it.
\<close>

theorem no_bytes_after_close:
  assumes "pool_ok (nt_sock w)" and "in_use a (nt_sock w)" and "so_MsgSendQueue (nt_sock w) = []"
    and "cn_iSendCount (nconn a w) \<le> 400"
  shows "\<exists>w'. ServerSendQueue_turn False mem t rs (close_now now a (msgSend now d a w)) = Turned w' rs \<and>
    nt_wire w' = nt_wire w \<and> so_MsgSendQueue (nt_sock w') = []"
proof -
  let ?s = "nt_sock w"
  let ?u = "upd_conn a (\<lambda>c. c\<lparr>cn_iSendCount := cn_iSendCount c + 1\<rparr>) ?s"
  let ?h = "\<lparr>mh_conn = a, mh_iCurrsequence = cn_iCurrsequence (nconn a w), mh_sequence = 0\<rparr>"
  let ?s1 = "?u\<lparr>so_MsgSendQueue := [(?h, d)], so_iSendMsgQueueCount := so_iSendMsgQueueCount ?u + 1\<rparr>"
  let ?w1 = "w\<lparr>nt_sock := ?s1, nt_sem := nt_sem w + 1\<rparr>"
  have a: "a < length (so_connectionList ?s)" "a \<notin> set (so_recyconnectionList ?s)"
    using assms(2) by (auto simp: in_use_def idle_def)
  have u: "cn_iCurrsequence (conn b ?u) = cn_iCurrsequence (nconn b w)" "cn_id (conn b ?u) = cn_id (nconn b w)" for b
    by (simp_all add: conn_upd)
  have m: "msgSend now d a w = ?w1"
    using assms(3,4) u(1) by (simp add: msgSend_def Let_def)
  have "cn_id (nconn b w) \<noteq> cn_id (nconn a w)" if "b \<in> set (so_recyconnectionList ?s)" for b
    using same_id [OF assms(1) a(1), of b] assms(1) a(2) that by (auto simp: pool_ok_def idle_def)
  then have "cn_iCurrsequence (conn a (zdClosesocketProc now a ?s1)) = cn_iCurrsequence (conn a ?s1) + 1"
    using a(1) u(2) by (intro zdClose_seq) simp_all
  then have "cn_iCurrsequence (conn a (zdClosesocketProc now a ?s1)) \<noteq> cn_iCurrsequence (nconn a w)"
    using u(1) by simp
  then show ?thesis
    by (simp add: m ServerSendQueue_turn_def Let_def close_now_def count_down_def)
qed

theorem no_bytes_after_close_witness:
  "\<exists>w' :: net. nt_wire w' = [] \<and> so_MsgSendQueue (nt_sock w') = []"
proof -
  let ?w = "one_client []"
  have "pool_ok (nt_sock ?w)" "in_use 0 (nt_sock ?w)"
    by (auto simp: one_client_def pool_ok_def in_use_def idle_def conn_def fresh_sock_def new_connection_def)
  from no_bytes_after_close [OF this, of True 0 "[]" 0 "''hi''"]
  obtain w' :: net where "nt_wire w' = []" "so_MsgSendQueue (nt_sock w') = []" by auto
  then show ?thesis by blast
qed

lemma serve_all_queued:
  "serve now a (map Respond ds) w = Some (fold (\<lambda>d. msgSend now d a) ds w)"
  by (induction ds arbitrary: w) simp_all

lemma responses_map [simp]: "responses (map Respond ds) = length ds"
  by (induction ds) simp_all

theorem connection_cut_after_401_witness:
  "cn_fd (nconn 0 (msgSend 0 ''x'' 0 (fold (\<lambda>d. msgSend 0 d 0) (replicate 401 ''hi'') (one_client [])))) = -1"
proof -
  have r: "responses (map Respond (replicate 401 ''hi'')) = 401"
    by (simp only: responses_map length_replicate)
  show ?thesis
    using connection_cut_after_401 [OF serve_all_queued r, where a = 0 and w = "one_client []" and now = 0 and
        t = 0 and d = "''x''"] by simp
qed

end
