(* ===== verification/HttpParse.thy ===== *)
theory HttpParse
  imports HttpContext "HOL-Library.Sublist"
begin

text \<open>
  What the parser of \<open>HttpContext\<close> does with the requests clients send. The first
  sections turn the loop into rewriting steps and give its induction principle; the next
  say which inputs it never returns from and which abort it; then requests are written
  the way a client writes them (\<open>render_head\<close>) and read back: the head, a body of
  \<open>Content-Length\<close> bytes in any number of chunks, an upload in one part. The invariant
  of the context closes the theory.
\<close>

section \<open>Running the loop\<close>

lemma rest_update [simp]:
  "rest (cx\<lparr>cx_request := r\<rparr>) = rest cx"
  "rest (cx\<lparr>cx_state := st\<rparr>) = rest cx"
  "rest (cx\<lparr>cx_body_bytes_received := n\<rparr>) = rest cx"
  by (simp_all add: rest_def)

lemma rest_nonempty: "rest cx \<noteq> [] \<longleftrightarrow> cx_parsed_pos cx < length (cx_buffer cx)"
  by (auto simp: rest_def)

lemma parse_loop_step:
  "rest cx \<noteq> [] \<Longrightarrow> parse_iter env now (ok, isErr, cx) = Inr s' \<Longrightarrow>
     parse_loop env now (ok, isErr, cx) = parse_loop env now s'"
  by (subst parse_loop.simps) (simp add: rest_nonempty)

lemma parse_loop_stop:
  "rest cx \<noteq> [] \<Longrightarrow> parse_iter env now (ok, isErr, cx) = Inl res \<Longrightarrow>
     parse_loop env now (ok, isErr, cx) = Some res"
  by (subst parse_loop.simps) (simp add: rest_nonempty)

lemma parse_loop_end:
  "rest cx = [] \<Longrightarrow> parse_loop env now (ok, isErr, cx) = Some (parse_end (ok, isErr, cx))"
  by (subst parse_loop.simps) (simp add: rest_def)

lemma parse_loop_gotAll:
  "cx_state cx = kGotAll \<Longrightarrow>
     parse_loop env now (True, isErr, cx) = Some (Returned True isErr cx)"
  by (cases "rest cx = []")
    (simp_all add: parse_loop_end parse_end_def parse_loop_stop parse_iter_def)

text \<open>
  The loop by induction: what holds of the result of a state that stops, and is handed
  back through every turn, holds of every result.
\<close>

lemma parse_loop_induct:
  assumes res: "parse_loop env now s = Some res" and inv: "I s"
    and stop: "\<And>ok e cx res. I (ok, e, cx) \<Longrightarrow> rest cx \<noteq> [] \<Longrightarrow>
           parse_iter env now (ok, e, cx) = Inl res \<Longrightarrow> Q res"
    and turn: "\<And>ok e cx s'. I (ok, e, cx) \<Longrightarrow> rest cx \<noteq> [] \<Longrightarrow>
           parse_iter env now (ok, e, cx) = Inr s' \<Longrightarrow> I s'"
    and leave: "\<And>ok e cx. I (ok, e, cx) \<Longrightarrow> rest cx = [] \<Longrightarrow> Q (parse_end (ok, e, cx))"
  shows "Q res"
proof -
  have "env = env \<longrightarrow> now = now \<longrightarrow> I s \<longrightarrow> Q res"
  proof (rule parse_loop.raw_induct
      [where P = "\<lambda>env' now' s r. env' = env \<longrightarrow> now' = now \<longrightarrow> I s \<longrightarrow> Q r", OF _ res], intro impI)
    fix f env' now' r and s :: flags
    assume IH: "\<And>env' now' s' r. f env' now' s' = Some r \<Longrightarrow>
        env' = env \<longrightarrow> now' = now \<longrightarrow> I s' \<longrightarrow> Q r"
      and body: "(case s of (ok, isErr, cx) \<Rightarrow>
        if cx_parsed_pos cx < length (cx_buffer cx)
        then case parse_iter env' now' (ok, isErr, cx) of Inl res \<Rightarrow> Some res
             | Inr s' \<Rightarrow> f env' now' s'
        else Some (parse_end (ok, isErr, cx))) = Some r"
      and eqs: "env' = env" "now' = now" and I: "I s"
    obtain ok e cx where s: "s = (ok, e, cx)" by (cases s)
    show "Q r"
    proof (cases "rest cx = []")
      case True
      then show ?thesis using body I leave [of ok e cx] by (auto simp: s rest_def)
    next
      case more: False
      then have lt: "cx_parsed_pos cx < length (cx_buffer cx)" by (simp add: rest_nonempty)
      show ?thesis
      proof (cases "parse_iter env now (ok, e, cx)")
        case (Inl q)
        with body lt have "r = q" by (simp add: s eqs)
        with stop [OF _ more Inl] I show ?thesis by (simp add: s)
      next
        case (Inr s')
        with body lt have "f env now s' = Some r" by (simp add: s eqs)
        with IH turn [OF _ more Inr] I show ?thesis by (simp add: s)
      qed
    qed
  qed
  with inv show ?thesis by simp
qed

text \<open>
  A set of states the loop never leaves, each with bytes left, has no result: the call
  does not return.
\<close>

lemma parse_loop_diverges:
  assumes "s \<in> S"
    and "\<And>ok e cx. (ok, e, cx) \<in> S \<Longrightarrow>
           rest cx \<noteq> [] \<and> (\<exists>s' \<in> S. parse_iter env now (ok, e, cx) = Inr s')"
  shows "parse_loop env now s = None"
proof (cases "parse_loop env now s")
  case (Some res)
  have "False"
    by (rule parse_loop_induct [OF Some, where I = "\<lambda>s. s \<in> S" and Q = "\<lambda>_. False"])
      (use assms in \<open>fastforce+\<close>)
  then show ?thesis ..
qed

section \<open>Divergence and abortion\<close>

lemma request_line_incomplete:
  assumes "find_sub crlf (rest cx) = None" and "rest cx \<noteq> []"
    and "cx_state cx = kExpectRequestLine"
  shows "parse_loop env now (ok, e, cx) = None"
  using assms
  by (intro parse_loop_diverges
      [where S = "{(ok', e', cx'). cx' = cx}"])
    (auto simp: parse_iter_def request_line_step_def)

lemma content_type_same [frame]:
  "content_type_step (ok, e, cx) = (ok', e', cx') \<Longrightarrow>
     cx_buffer cx' = cx_buffer cx \<and> cx_parsed_pos cx' = cx_parsed_pos cx \<and> cx_state cx' = cx_state cx"
  by (auto simp: content_type_step_def Let_def split: if_splits option.splits)

lemma headers_incomplete:
  assumes "find_sub crlf (rest cx) = None" and "rest cx \<noteq> []"
    and "cx_state cx = kExpectHeaders"
  shows "parse_loop env now (ok, e, cx) = None"
proof (rule parse_loop_diverges
      [where S = "{(ok', e', cx'). rest cx' = rest cx \<and> cx_state cx' = kExpectHeaders}"])
  fix ok' e' :: bool and cx'
  assume "(ok', e', cx') \<in> {(ok', e', cx'). rest cx' = rest cx \<and> cx_state cx' = kExpectHeaders}"
  then have r: "rest cx' = rest cx" and st: "cx_state cx' = kExpectHeaders" by auto
  have h: "headers_loop (ok', e', cx') = (ok', e', cx')"
    using assms r by (subst headers_loop.simps) simp
  obtain ok2 e2 cx2 where c: "content_type_step (ok', e', cx') = (ok2, e2, cx2)"
    by (metis prod_cases3)
  with content_type_same [OF c] r st h assms
  show "rest cx' \<noteq> [] \<and> (\<exists>s' \<in> {(ok', e', cx'). rest cx' = rest cx \<and> cx_state cx' = kExpectHeaders}.
      parse_iter env now (ok', e', cx') = Inr s')"
    by (auto simp: parse_iter_def headers_step_def rest_def)
qed (use assms in simp)

lemma request_line_unknown:
  assumes "find_sub crlf (rest cx) = Some n" and "cx_state cx = kExpectRequestLine"
    and "rest cx \<noteq> []"
    and "processRequestLine (take n (rest cx)) (cx_request cx) = Some (False, cx_request cx)"
  shows "parse_loop env now (ok, e, cx) = None"
  using assms
  by (intro parse_loop_diverges
      [where S = "{(ok', e', cx'). cx' = cx}"])
    (auto simp: parse_iter_def request_line_step_def)

lemma request_line_bad_version:
  assumes "find_sub crlf (rest cx) = Some n" and "n \<le> 1024" and "cx_state cx = kExpectRequestLine"
    and "processRequestLine (take n (rest cx)) (cx_request cx) = Some (False, r)"
    and "processRequestLine (take n (rest cx)) r = None"
  shows "parse_loop env now (ok, e, cx) = Some Aborted"
proof -
  have ne: "rest cx \<noteq> []" using assms(1) by auto
  have "parse_iter env now (ok, e, cx) = Inr (False, e, cx\<lparr>cx_request := r\<rparr>)"
    using assms by (simp add: parse_iter_def request_line_step_def)
  moreover have "parse_iter env now (False, e, cx\<lparr>cx_request := r\<rparr>) = Inl Aborted"
    using assms by (simp add: parse_iter_def request_line_step_def)
  ultimately show ?thesis using ne by (simp add: parse_loop_step parse_loop_stop)
qed

section \<open>Requests as a client writes them\<close>

definition render_headers :: "(string \<times> string) list \<Rightarrow> string" where
  "render_headers hs = concat (map (\<lambda>(k, v). k @ '': '' @ v @ crlf) hs)"

definition render_target :: "string \<Rightarrow> (string \<times> string) list \<Rightarrow> string" where
  "render_target path ps = path @ (if ps = [] then [] else CHR 0x3F # join_pairs ps)"

definition request_line :: "string \<Rightarrow> string \<Rightarrow> (string \<times> string) list \<Rightarrow> string" where
  "request_line m path ps = m @ '' '' @ render_target path ps @ '' HTTP/1.1''"

definition render_head ::
  "string \<Rightarrow> string \<Rightarrow> (string \<times> string) list \<Rightarrow> (string \<times> string) list \<Rightarrow> bytes" where
  "render_head m path ps hs = request_line m path ps @ crlf @ render_headers hs @ crlf"

definition no_edge_blank :: "string \<Rightarrow> bool" where
  "no_edge_blank s = (s = [] \<or> (\<not> is_blank (hd s) \<and> \<not> is_blank (last s)))"

definition header_ok :: "string \<times> string \<Rightarrow> bool" where
  "header_ok = (\<lambda>(k, v). CHR '':'' \<notin> set k \<and> CR \<notin> set k \<and> CR \<notin> set v \<and>
     no_edge_blank k \<and> no_edge_blank v)"

definition request_ok ::
  "string \<Rightarrow> string \<Rightarrow> (string \<times> string) list \<Rightarrow> (string \<times> string) list \<Rightarrow> bool" where
  "request_ok m path ps hs \<longleftrightarrow>
     method_of m \<noteq> kInvalid \<and> CHR '' '' \<notin> set (render_target path ps) \<and>
     CHR 0x3F \<notin> set path \<and> CR \<notin> set (render_target path ps) \<and>
     length (request_line m path ps) \<le> 1024 \<and>
     (\<forall>p \<in> set ps. pair_ok p) \<and> (\<forall>h \<in> set hs. header_ok h)"

definition plain_content :: "(string \<times> string) list \<Rightarrow> bool" where
  "plain_content hs \<longleftrightarrow>
     find_sub ''multipart/form-data'' (lookup_str (map_of (rev hs)) ''Content-Type'') = None"

definition fresh :: "http_context \<Rightarrow> bool" where
  "fresh cx \<longleftrightarrow> cx_state cx = kExpectRequestLine \<and> cx_buffer cx = [] \<and> cx_parsed_pos cx = 0 \<and>
     cx_body_bytes_received cx = 0 \<and> rq_method (cx_request cx) = kInvalid \<and>
     rq_queryParameters (cx_request cx) = Map.empty \<and> rq_headers (cx_request cx) = Map.empty \<and>
     rq_content (cx_request cx) = [] \<and> rq_boundary (cx_request cx) = [] \<and>
     rq_fileHeader (cx_request cx) = []"

lemma fresh_new [simp]: "fresh (new_context c)"
  by (simp add: fresh_def new_context_def setConnection_def new_request_def)

lemma fresh_reset [simp]: "fresh (reset cx)"
  by (simp add: fresh_def reset_def Let_def swap_new)
    (simp add: new_request_def swap_request_def)

lemma known_method_plain: "method_of m \<noteq> kInvalid \<Longrightarrow> CHR '' '' \<notin> set m \<and> CR \<notin> set m"
  by (auto simp: method_of_def split: if_splits)

lemma set_version_11: "set_http_version ''HTTP/1.1'' r = (True, setVersion ''HTTP/1.1'' r)"
  by (simp add: set_http_version_def)

lemma set_target_render:
  assumes "CHR 0x3F \<notin> set path" and "\<forall>p \<in> set ps. pair_ok p"
  shows "set_target (render_target path ps) r =
    r\<lparr>rq_path := path, rq_queryParameters := rq_queryParameters r ++ map_of (rev ps)\<rparr>"
proof (cases "ps = []")
  case True
  then show ?thesis
    using assms by (simp add: render_target_def set_target_def setPath_def find_char_None [THEN iffD2])
next
  case False
  with assms show ?thesis
    by (simp add: render_target_def set_target_def setPath_def setQueryParameters_def
        split_pairs_join search_simps)
qed

lemma processRequestLine_render:
  assumes "rq_method r = kInvalid" and "request_ok m path ps hs"
  shows "processRequestLine (request_line m path ps) r = Some (True,
    r\<lparr>rq_method := method_of m, rq_path := path,
      rq_queryParameters := rq_queryParameters r ++ map_of (rev ps), rq_version := ''HTTP/1.1''\<rparr>)"
proof -
  let ?t = "render_target path ps"
  have m: "CHR '' '' \<notin> set m" and k: "method_of m \<noteq> kInvalid"
    and t: "CHR '' '' \<notin> set ?t" "CHR 0x3F \<notin> set path" "\<forall>p \<in> set ps. pair_ok p"
    using assms known_method_plain by (auto simp: request_ok_def)
  have l: "find_char (CHR '' '') (m @ CHR '' '' # ?t @ '' HTTP/1.1'') = Some (length m)"
    using m by (rule find_char_skip)
  have l2: "find_char (CHR '' '') (?t @ CHR '' '' # ''HTTP/1.1'') = Some (length ?t)"
    using t(1) by (rule find_char_skip)
  show ?thesis using assms(1) k l l2 t
    by (simp add: processRequestLine_def request_line_def setMethod_def set_version_11
        set_target_render setVersion_def)
qed

section \<open>The head of a request\<close>

lemma header_line_render:
  assumes "header_ok (k, v)"
  shows "header_line_step (k @ '': '' @ v) (ok, e, cx) =
    (ok, e, cx\<lparr>cx_request := addHeader k v (cx_request cx)\<rparr>)"
proof -
  have "find_char (CHR '':'') (k @ CHR '':'' # CHR '' '' # v) = Some (length k)"
    using assms by (intro find_char_skip) (simp add: header_ok_def)
  moreover have "rdrop is_blank k = k"
    using assms by (intro rdrop_last) (auto simp: header_ok_def no_edge_blank_def)
  moreover have "dropWhile is_blank v = v"
    using assms by (intro dropWhile_hd) (auto simp: header_ok_def no_edge_blank_def)
  ultimately show ?thesis by (simp add: header_line_step_def is_blank_def)
qed

definition put_headers :: "(string \<times> string) list \<Rightarrow> http_request \<Rightarrow> http_request" where
  "put_headers hs = fold (\<lambda>(k, v). addHeader k v) hs"

lemma put_headers_eq: "put_headers hs r = r\<lparr>rq_headers := rq_headers r ++ map_of (rev hs)\<rparr>"
  unfolding put_headers_def
proof (induction hs arbitrary: r)
  case Nil
  then show ?case by simp
next
  case (Cons h hs)
  then show ?case
    by (cases h) (simp add: addHeader_def map_add_def fun_eq_iff split: option.splits)
qed

lemma headers_loop_render:
  assumes "\<forall>h \<in> set hs. header_ok h" and "rest cx = render_headers hs @ crlf @ b"
  shows "headers_loop (ok, e, cx) = blank_line_step (ok, e,
    cx\<lparr>cx_request := put_headers hs (cx_request cx),
       cx_parsed_pos := cx_parsed_pos cx + length (render_headers hs) + 2\<rparr>)"
  using assms
proof (induction hs arbitrary: cx)
  case Nil
  then have "find_sub crlf (rest cx) = Some 0" and "rest cx \<noteq> []"
    by (simp_all add: render_headers_def)
  then show ?case
    by (subst headers_loop.simps)
      (simp add: rest_nonempty skip_line_def render_headers_def put_headers_def)
next
  case (Cons h hs)
  obtain k v where h: "h = (k, v)" by (cases h)
  with Cons.prems have ok: "header_ok (k, v)" by simp
  have rest: "rest cx = (k @ '': '' @ v) @ CR # [LF] @ render_headers hs @ crlf @ b"
    using Cons.prems(2) by (simp add: render_headers_def h)
  have "CR \<notin> set (k @ '': '' @ v)" using ok by (simp add: header_ok_def)
  then have f: "find_sub crlf (rest cx) = Some (length (k @ '': '' @ v))"
    unfolding rest by (rule find_sub_skip)
  have ne: "cx_parsed_pos cx < length (cx_buffer cx)" using rest by (simp flip: rest_nonempty)
  let ?cx = "cx\<lparr>cx_request := addHeader k v (cx_request cx),
    cx_parsed_pos := cx_parsed_pos cx + length (k @ '': '' @ v) + 2\<rparr>"
  have r2: "rest ?cx = render_headers hs @ crlf @ b"
  proof -
    have "rest ?cx = drop (length (k @ '': '' @ v) + 2) (rest cx)"
      by (simp add: rest_def add_ac)
    moreover have "drop (length l + 2) (l @ CR # [LF] @ x) = x" for l x :: string by simp
    ultimately show ?thesis unfolding rest by metis
  qed
  have "headers_loop (ok, e, cx) = headers_loop (ok, e, ?cx)"
    using header_line_render [OF ok, of "ok" e cx] f ne
    by (subst headers_loop.simps) (simp add: rest skip_line_def)
  also have "\<dots> = blank_line_step (ok, e,
      ?cx\<lparr>cx_request := put_headers hs (cx_request ?cx),
          cx_parsed_pos := cx_parsed_pos ?cx + length (render_headers hs) + 2\<rparr>)"
    by (rule Cons.IH) (use Cons.prems r2 in auto)
  finally show ?case
    by (simp add: h put_headers_def render_headers_def add_ac)
qed

text \<open>What the head leaves behind: everything but the state and the body.\<close>

definition head_parsed ::
  "string \<Rightarrow> string \<Rightarrow> (string \<times> string) list \<Rightarrow> (string \<times> string) list \<Rightarrow> int \<Rightarrow>
     http_context \<Rightarrow> http_context" where
  "head_parsed m path ps hs now cx =
     cx\<lparr>cx_parsed_pos := length (render_head m path ps hs),
        cx_request := (cx_request cx)
          \<lparr>rq_method := method_of m, rq_path := path, rq_queryParameters := map_of (rev ps),
           rq_version := ''HTTP/1.1'', rq_receiveTime := now, rq_headers := map_of (rev hs)\<rparr>\<rparr>"

lemma request_line_render:
  assumes "request_ok m path ps hs" and "rq_method (cx_request cx) = kInvalid"
    and "rest cx = request_line m path ps @ crlf @ b"
  shows "request_line_step now (ok, e, cx) = Inr (False, e,
    cx\<lparr>cx_request := (cx_request cx)
         \<lparr>rq_method := method_of m, rq_path := path,
          rq_queryParameters := rq_queryParameters (cx_request cx) ++ map_of (rev ps),
          rq_version := ''HTTP/1.1'', rq_receiveTime := now\<rparr>,
       cx_parsed_pos := cx_parsed_pos cx + length (request_line m path ps) + 2,
       cx_state := kExpectHeaders\<rparr>)"
proof -
  have "CR \<notin> set (request_line m path ps)"
    using assms(1) known_method_plain by (auto simp: request_ok_def request_line_def)
  then have "find_sub crlf (rest cx) = Some (length (request_line m path ps))"
    unfolding assms(3) using find_sub_skip [of CR _ "[LF]"] by simp
  moreover have "take (length (request_line m path ps)) (rest cx) = request_line m path ps"
    by (simp add: assms(3))
  ultimately show ?thesis
    using processRequestLine_render [OF assms(2,1)] assms(1)
    by (simp add: request_line_step_def request_ok_def setReceiveTime_def)
qed

text \<open>The two turns of the loop that consume the head.\<close>

lemma head_run:
  assumes "fresh cx" and "request_ok m path ps hs"
  shows "parseRequest env (render_head m path ps hs @ b) now cx =
    parse_loop env now (content_type_step (blank_line_step (False, False,
      head_parsed m path ps hs now
        (cx\<lparr>cx_buffer := render_head m path ps hs @ b, cx_state := kExpectHeaders\<rparr>))))"
proof -
  let ?cx = "cx\<lparr>cx_buffer := render_head m path ps hs @ b\<rparr>"
  let ?l = "request_line m path ps"
  let ?cx1 = "?cx\<lparr>cx_request := (cx_request cx)
         \<lparr>rq_method := method_of m, rq_path := path,
          rq_queryParameters := map_of (rev ps),
          rq_version := ''HTTP/1.1'', rq_receiveTime := now\<rparr>,
       cx_parsed_pos := length ?l + 2, cx_state := kExpectHeaders\<rparr>"
  have r: "rest ?cx = ?l @ crlf @ (render_headers hs @ crlf @ b)"
    using assms(1) by (simp add: rest_def fresh_def render_head_def)
  have "parse_iter env now (False, False, ?cx) = Inr (False, False, ?cx1)"
    using request_line_render [OF assms(2) _ r] assms(1) by (simp add: parse_iter_def fresh_def)
  then have 1: "parse_loop env now (False, False, ?cx) = parse_loop env now (False, False, ?cx1)"
    using r by (intro parse_loop_step) simp_all
  have r1: "rest ?cx1 = render_headers hs @ crlf @ b"
    by (simp add: rest_def render_head_def)
  have ok: "\<forall>h \<in> set hs. header_ok h" using assms(2) by (simp add: request_ok_def)
  have "headers_loop (False, False, ?cx1) = blank_line_step (False, False,
      head_parsed m path ps hs now (?cx\<lparr>cx_state := kExpectHeaders\<rparr>))"
    using headers_loop_render [OF ok r1, of "False" False] assms(1)
    by (cases cx) (simp add: head_parsed_def put_headers_eq render_head_def fresh_def)
  then have 2: "parse_iter env now (False, False, ?cx1) = Inr (content_type_step (blank_line_step
      (False, False, head_parsed m path ps hs now (?cx\<lparr>cx_state := kExpectHeaders\<rparr>))))"
    by (simp add: parse_iter_def headers_step_def)
  have "rest ?cx1 \<noteq> []" unfolding r1 by simp
  from parse_loop_step [OF this 2] 1 assms(1) show ?thesis
    by (simp add: parseRequest_def fresh_def)
qed

lemma content_type_plain:
  assumes "find_sub ''multipart/form-data'' (getHeader ''Content-Type'' (cx_request cx)) = None"
  shows "content_type_step (ok, e, cx) = (ok, e, cx)"
  using assms by (simp add: content_type_step_def Let_def)

lemma head_without_body:
  assumes "fresh cx" and "request_ok m path ps hs" and "method_of m \<notin> {kPost, kPut}"
    and "plain_content hs"
  shows "parseRequest env (render_head m path ps hs @ b) now cx =
    Some (Returned True False
      (head_parsed m path ps hs now
        (cx\<lparr>cx_buffer := render_head m path ps hs @ b, cx_state := kGotAll\<rparr>)))"
  unfolding head_run [OF assms(1,2)]
  using assms(3,4)
  by (simp add: blank_line_step_def Let_def head_parsed_def content_type_plain plain_content_def
      getHeader_def parse_loop_gotAll)

text \<open>The context when the head of a request with a body has been read.\<close>

definition body_awaited ::
  "string \<Rightarrow> string \<Rightarrow> (string \<times> string) list \<Rightarrow> (string \<times> string) list \<Rightarrow> int \<Rightarrow> nat \<Rightarrow>
     bytes \<Rightarrow> http_context \<Rightarrow> http_context" where
  "body_awaited m path ps hs now n b cx =
     (head_parsed m path ps hs now (cx\<lparr>cx_buffer := render_head m path ps hs @ b\<rparr>))
        \<lparr>cx_state := kExpectBody,
         cx_request := (cx_request (head_parsed m path ps hs now cx))\<lparr>rq_contentLength := of_nat n\<rparr>\<rparr>"

lemma body_awaited_simps [simp]:
  "cx_state (body_awaited m path ps hs now n b cx) = kExpectBody"
  "cx_body_bytes_received (body_awaited m path ps hs now n b cx) = cx_body_bytes_received cx"
  "rest (body_awaited m path ps hs now n b cx) = b"
  "cx_parsed_pos (body_awaited m path ps hs now n b cx) = length (render_head m path ps hs)"
  "cx_buffer (body_awaited m path ps hs now n b cx) = render_head m path ps hs @ b"
  "rq_boundary (cx_request (body_awaited m path ps hs now n b cx)) = rq_boundary (cx_request cx)"
  "rq_content (cx_request (body_awaited m path ps hs now n b cx)) = rq_content (cx_request cx)"
  "rq_contentLength (cx_request (body_awaited m path ps hs now n b cx)) = of_nat n"
  "rq_fileHeader (cx_request (body_awaited m path ps hs now n b cx)) = rq_fileHeader (cx_request cx)"
  "rq_fileWriter (cx_request (body_awaited m path ps hs now n b cx)) = rq_fileWriter (cx_request cx)"
  "rq_headers (cx_request (body_awaited m path ps hs now n b cx)) = map_of (rev hs)"
  "rq_queryParameters (cx_request (body_awaited m path ps hs now n b cx)) = map_of (rev ps)"
  "rq_path (cx_request (body_awaited m path ps hs now n b cx)) = path"
  "rq_method (cx_request (body_awaited m path ps hs now n b cx)) = method_of m"
  by (simp_all add: body_awaited_def head_parsed_def rest_def)

lemma head_with_body:
  assumes "fresh cx" and "request_ok m path ps hs" and "method_of m \<in> {kPost, kPut}"
    and "lookup_str (map_of (rev hs)) ''Content-Length'' = dec n" and "0 < n" and "int n \<le> INT_MAX"
  shows "parseRequest env (render_head m path ps hs @ b) now cx =
    parse_loop env now (content_type_step (False, False, body_awaited m path ps hs now n b cx))"
proof -
  have "(0::u64) < of_nat n"
    using assms(5,6) by (simp add: word_less_nat_alt unat_of_nat)
  then show ?thesis
    unfolding head_run [OF assms(1,2)]
    using assms(3-6)
    by (cases cx) (simp add: blank_line_step_def Let_def head_parsed_def body_awaited_def
      getHeader_def num_simps setContentLength_def)
qed

section \<open>A body in chunks\<close>

text \<open>
  A context in the middle of a body: \<open>k\<close> of \<open>N\<close> bytes are in.
\<close>

definition mid_body :: "nat \<Rightarrow> nat \<Rightarrow> http_context \<Rightarrow> bool" where
  "mid_body N k cx \<longleftrightarrow> cx_state cx = kExpectBody \<and> rq_boundary (cx_request cx) = [] \<and>
     rq_contentLength (cx_request cx) = of_nat N \<and> cx_body_bytes_received cx = of_nat k \<and>
     k < N \<and> int N \<le> INT_MAX"

definition body_taken :: "bytes \<Rightarrow> nat \<Rightarrow> http_context \<Rightarrow> http_context" where
  "body_taken d k cx = cx\<lparr>cx_request := appendBody d (cx_request cx),
     cx_parsed_pos := cx_parsed_pos cx + length d,
     cx_body_bytes_received := of_nat (k + length d)\<rparr>"

lemma plain_body_run:
  assumes "mid_body N k cx" and "rest cx \<noteq> []" and "k + length (rest cx) \<le> N"
  shows "parse_loop env now (False, False, cx) =
    Some (if k + length (rest cx) = N
          then Returned True False ((body_taken (rest cx) k cx)\<lparr>cx_state := kGotAll\<rparr>)
          else Returned False False (body_taken (rest cx) k cx))"
proof -
  let ?d = "rest cx" and ?k = "k + length (rest cx)"
  have big: "N < 2 ^ 64" using assms(1) by (simp add: mid_body_def)
  have len: "length (cx_buffer cx) - cx_parsed_pos cx = length ?d" by (simp add: rest_def)
  have sub: "unat (rq_contentLength (cx_request cx) - cx_body_bytes_received cx) = N - k"
    using assms(1) big unat_u64_diff [of k N] by (simp add: mid_body_def)
  have cmp: "((of_nat N :: u64) \<le> of_nat ?k) = (N \<le> ?k)"
    using assms(3) big by (intro u64_le) simp_all
  have fits: "min (length ?d) (N - k) = length ?d" using assms(3) by simp
  have turn: "parse_iter env now (False, False, cx) =
      Inr (if ?k = N then (True, False, (body_taken ?d k cx)\<lparr>cx_state := kGotAll\<rparr>)
           else (False, False, body_taken ?d k cx))"
    using assms cmp sub len fits
    by (simp add: parse_iter_def body_step_def plain_body_step_def Let_def mid_body_def
        body_taken_def del: of_nat_add flip: of_nat_add)
  have "rest (body_taken ?d k cx) = []"
    using assms(2) by (simp add: body_taken_def rest_def)
  then show ?thesis
    using parse_loop_step [OF assms(2) turn]
    by (simp add: parse_loop_gotAll parse_loop_end parse_end_def)
qed

text \<open>The chunks of a message, one call of the parser for each, as long as it returns false.\<close>

fun feed :: "parse_env \<Rightarrow> int \<Rightarrow> bytes list \<Rightarrow> http_context \<Rightarrow> parse_result option" where
  "feed env now [] cx = Some (Returned False False cx)"
| "feed env now (c # cs) cx =
     (case parseRequest env c now cx of
        Some (Returned False False cx') \<Rightarrow>
          (if cs = [] then Some (Returned False False cx') else feed env now cs cx')
      | res \<Rightarrow> res)"

definition delivered :: "bytes \<Rightarrow> http_context \<Rightarrow> http_context \<Rightarrow> bool" where
  "delivered d cx cx' \<longleftrightarrow> cx_state cx' = kGotAll \<and> rest cx' = [] \<and>
     cx_request cx' = appendBody d (cx_request cx)"

lemma feed_body:
  assumes "mid_body N k cx" and "rest cx = []" and "cx_parsed_pos cx \<le> length (cx_buffer cx)"
    and "[] \<notin> set cs" and "k + length (concat cs) = N"
  shows "\<exists>cx'. feed env now cs cx = Some (Returned True False cx') \<and> delivered (concat cs) cx cx'"
  using assms
proof (induction cs arbitrary: cx k)
  case Nil
  then show ?case by (simp add: mid_body_def)
next
  case (Cons c cs)
  let ?cx = "cx\<lparr>cx_buffer := cx_buffer cx @ c\<rparr>"
  have r: "rest ?cx = c" using Cons.prems(2,3) by (simp add: rest_def)
  have mid: "mid_body N k ?cx" using Cons.prems(1) by (simp add: mid_body_def)
  have ne: "c \<noteq> []" using Cons.prems(4) by auto
  have run: "parseRequest env c now cx =
    Some (if k + length c = N then Returned True False ((body_taken c k ?cx)\<lparr>cx_state := kGotAll\<rparr>)
          else Returned False False (body_taken c k ?cx))"
    using plain_body_run [OF mid, of env now] Cons.prems(5) r ne by (simp add: parseRequest_def)
  show ?case
  proof (cases "cs = []")
    case True
    then show ?thesis
      using run Cons.prems(3,5) r by (simp add: delivered_def body_taken_def rest_def)
  next
    case False
    then have short: "k + length c < N" using Cons.prems(4,5) by (cases cs) auto
    let ?cx2 = "body_taken c k ?cx"
    have "mid_body N (k + length c) ?cx2"
      using mid short by (simp add: mid_body_def body_taken_def appendBody_def)
    moreover have "rest ?cx2 = []" using Cons.prems(2,3) by (simp add: body_taken_def rest_def)
    moreover have "cx_parsed_pos ?cx2 \<le> length (cx_buffer ?cx2)"
      using Cons.prems(2,3) by (simp add: body_taken_def rest_def)
    ultimately obtain cx' where "feed env now cs ?cx2 = Some (Returned True False cx')"
        and "delivered (concat cs) ?cx2 cx'"
      using Cons.IH [of "k + length c" ?cx2] Cons.prems(4,5) by auto
    with run short False show ?thesis
      by (simp add: delivered_def body_taken_def appendBody_def)
  qed
qed

lemma feed_request:
  assumes "fresh cx" and "request_ok m path ps hs" and "method_of m \<in> {kPost, kPut}"
    and "lookup_str (map_of (rev hs)) ''Content-Length'' = dec (length body)"
    and "body \<noteq> []" and "int (length body) \<le> INT_MAX" and "plain_content hs"
    and "c @ concat cs = body" and "[] \<notin> set cs"
  shows "\<exists>cx'. feed env now ((render_head m path ps hs @ c) # cs) cx = Some (Returned True False cx') \<and>
    delivered body (body_awaited m path ps hs now (length body) [] cx) cx'"
proof -
  let ?n = "length body" and ?h = "\<lambda>b. body_awaited m path ps hs now (length body) b cx"
  have req: "cx_request (?h b) = cx_request (?h [])" for b
    by (simp add: body_awaited_def head_parsed_def)
  have run: "parseRequest env (render_head m path ps hs @ c) now cx =
      parse_loop env now (False, False, ?h c)"
    using assms(5-7) head_with_body [OF assms(1-4), of env c now]
    by (simp add: content_type_plain getHeader_def plain_content_def)
  have mid: "mid_body ?n 0 (?h c)"
    using assms(1,5,6) by (simp add: mid_body_def fresh_def)
  show ?thesis
  proof (cases "c = []")
    case True
    then have first: "parseRequest env (render_head m path ps hs @ c) now cx =
        Some (Returned False False (?h c))"
      using run by (simp add: parse_loop_end parse_end_def)
    obtain cx' where "feed env now cs (?h c) = Some (Returned True False cx')"
      and "delivered (concat cs) (?h c) cx'"
      using feed_body [OF mid, of cs env now] True assms(8,9) by auto
    with first True assms(5,8) show ?thesis by (auto simp: delivered_def)
  next
    case False
    have "length c \<le> ?n" using assms(8) by auto
    with plain_body_run [OF mid, of env now] False run
    have first: "parseRequest env (render_head m path ps hs @ c) now cx =
      Some (if length c = ?n then Returned True False ((body_taken c 0 (?h c))\<lparr>cx_state := kGotAll\<rparr>)
            else Returned False False (body_taken c 0 (?h c)))" by simp
    show ?thesis
    proof (cases "cs = []")
      case True
      then show ?thesis using first assms(8) req [of c]
        by (simp add: delivered_def body_taken_def rest_def)
    next
      case more: False
      have len: "length c < ?n" using more assms(8,9) by (cases cs) auto
      let ?cx2 = "body_taken c 0 (?h c)"
      have "mid_body ?n (length c) ?cx2"
        using mid len by (simp add: mid_body_def body_taken_def appendBody_def)
      moreover have "rest ?cx2 = []" "cx_parsed_pos ?cx2 \<le> length (cx_buffer ?cx2)"
        by (simp_all add: body_taken_def rest_def)
      ultimately obtain cx' where "feed env now cs ?cx2 = Some (Returned True False cx')"
        and "delivered (concat cs) ?cx2 cx'"
        using feed_body [of ?n "length c" ?cx2 cs env now] assms(8,9) by auto
      with first len more assms(8) req [of c] show ?thesis
        by (auto simp: delivered_def body_taken_def appendBody_def)
    qed
  qed
qed

section \<open>An upload in one part\<close>

lemma find_sub_append: "find_sub p s = Some i \<Longrightarrow> find_sub p (s @ t) = Some i"
proof (induction p s arbitrary: i rule: find_sub.induct)
  case (1 p)
  then show ?case by (cases t) (auto split: if_splits)
next
  case (2 p x xs)
  show ?case
  proof (cases "take (length p) (x # xs) = p")
    case True
    then have "length p \<le> length (x # xs)" by (metis length_take min.cobounded1)
    with True 2(2) take_append [of "length p" "x # xs" t] show ?thesis by simp
  next
    case False
    with 2(2) obtain j where j: "find_sub p xs = Some j" "i = Suc j" by auto
    then have "Suc j + length p \<le> length (x # xs)" by (auto dest: find_sub_bound)
    then have "take (length p) (x # xs @ t) = take (length p) (x # xs)"
      by (cases p) auto
    with False 2(1) [OF False j(1)] j(2) show ?thesis by simp
  qed
qed

definition part_head :: "string \<Rightarrow> string \<Rightarrow> bytes" where
  "part_head bd ph = ''--'' @ bd @ crlf @ ph @ crlfcrlf"

definition part_body :: "string \<Rightarrow> string \<Rightarrow> bytes \<Rightarrow> bytes" where
  "part_body bd ph d = part_head bd ph @ d @ crlf @ ''--'' @ bd @ ''--'' @ crlf"

definition closing :: "string \<Rightarrow> bytes" where
  "closing bd = ''--'' @ bd @ ''--''"

text \<open>A well-formed part: its separators do not occur earlier than they should.\<close>

definition part_ok :: "string \<Rightarrow> string \<Rightarrow> bytes \<Rightarrow> bool" where
  "part_ok bd ph d \<longleftrightarrow> bd \<noteq> [] \<and> hd bd \<noteq> CHR 0x22 \<and> ph \<noteq> [] \<and>
     find_sub crlfcrlf (ph @ crlfcrlf) = Some (length ph) \<and>
     find_sub (closing bd) (d @ crlf @ closing bd) = Some (length d + 2)"

definition upload_headers :: "string \<Rightarrow> (string \<times> string) list \<Rightarrow> nat \<Rightarrow> bool" where
  "upload_headers bd hs n \<longleftrightarrow>
     lookup_str (map_of (rev hs)) ''Content-Type'' = ''multipart/form-data; boundary='' @ bd \<and>
     lookup_str (map_of (rev hs)) ''Content-Length'' = dec n"

lemma content_type_upload:
  assumes "getHeader ''Content-Type'' (cx_request cx) = ''multipart/form-data; boundary='' @ bd"
    and "bd \<noteq> []" and "hd bd \<noteq> CHR 0x22"
  shows "content_type_step (ok, e, cx) =
    (ok, e, cx\<lparr>cx_request := setBoundary bd (cx_request cx)\<rparr>)"
  using assms by (simp add: content_type_step_def Let_def strip_quotes_def)

lemma part_header_found:
  assumes "bd \<noteq> []" and "find_sub crlfcrlf (ph @ crlfcrlf) = Some (length ph)"
    and "rq_boundary (cx_request cx) = bd" and "rest cx = part_head bd ph @ c"
  shows "part_header_step env cx =
    (let cx' = cx\<lparr>cx_parsed_pos := 0, cx_buffer := c,
          cx_body_bytes_received := cx_body_bytes_received cx +
            of_nat (length bd + length ph + 10),
          cx_request := savefileHeader ph (cx_request cx)\<rparr>
     in if LARGE_FILE_THRESHOLD < rq_contentLength (cx_request cx)
        then open_upload env ph cx' else Part_next cx')"
proof -
  define tail where "tail = ph @ crlfcrlf @ c"
  have r: "rest cx = (''--'' @ bd) @ crlf @ tail"
    using assms(4) by (simp add: part_head_def tail_def)
  have f: "find_sub (''--'' @ bd) (rest cx) = Some 0"
    unfolding r by (cases bd) simp_all
  have dr: "drop (0 + length (''--'' @ bd)) (rest cx) = crlf @ tail"
    unfolding r by simp
  have h: "find_sub crlfcrlf tail = Some (length ph)"
    unfolding tail_def using find_sub_append [OF assms(2), of c] by simp
  have d2: "drop (length ph + 4) tail = c"
    by (simp add: tail_def crlfcrlf_def)
  have t: "take (length ph) tail = ph" by (simp add: tail_def)
  have skip: "take 2 (crlf @ tail) = crlf" "drop 2 (crlf @ tail) = tail" "crlf \<noteq> ''--''"
    by simp_all
  have ends: "(length (''--'' @ bd) + 4 + length ph + 4) = length bd + length ph + 10" by simp
  show ?thesis
    unfolding part_header_step_def Let_def assms(3) f option.case dr skip if_False if_True
      h d2 t ends
    using skip by (simp add: h d2 t savefileHeader_def add_ac del: append_Cons)
qed

text \<open>
  A context inside a part: of the data and the line break behind it \<open>m\<close> bytes are still to
  come, of the whole body \<open>n\<close> bytes long.
\<close>

definition mid_part :: "string \<Rightarrow> nat \<Rightarrow> nat \<Rightarrow> http_context \<Rightarrow> bool" where
  "mid_part bd n m cx \<longleftrightarrow> cx_state cx = kExpectBody \<and> cx_parsed_pos cx = 0 \<and>
     rq_boundary (cx_request cx) = bd \<and> bd \<noteq> [] \<and> rq_fileHeader (cx_request cx) \<noteq> [] \<and>
     rq_contentLength (cx_request cx) = of_nat n \<and> n < 2 ^ 63 \<and> m + length (closing bd) \<le> n \<and>
     cx_body_bytes_received cx = of_nat (n - length (closing bd) - m)"

definition data_taken :: "bytes \<Rightarrow> http_context \<Rightarrow> http_context" where
  "data_taken c cx = cx\<lparr>cx_request := store_data c (cx_request cx),
     cx_body_bytes_received := cx_body_bytes_received cx + of_nat (length c), cx_buffer := [], cx_parsed_pos := 0\<rparr>"

definition part_ended :: "bytes \<Rightarrow> http_context \<Rightarrow> http_context" where
  "part_ended c cx = cx\<lparr>cx_request := store_data c (cx_request cx), cx_buffer := crlf,
     cx_parsed_pos := 0, cx_state := kGotAll\<rparr>"

lemma ending_closing: "rq_boundary r = bd \<Longrightarrow> ''--'' @ rq_boundary r @ ''--'' = closing bd"
  by (simp add: closing_def)

lemma data_step_more:
  assumes "mid_part bd n m cx" and "cx_buffer cx = c" and "find_sub (closing bd) c = None" and "length c \<le> m"
  shows "part_data_step cx = Part_break False (data_taken c cx)"
proof -
  have p: "cx_parsed_pos cx = 0" "rq_boundary (cx_request cx) = bd" "m + length (closing bd) \<le> n" "n < 2 ^ 63"
      "rq_contentLength (cx_request cx) = of_nat n" "cx_body_bytes_received cx = of_nat (n - length (closing bd) - m)"
    using assms(1) by (simp_all add: mid_part_def)
  have r: "rest cx = c" using p(1) assms(2) by (simp add: rest_def)
  have e: "(of_nat n - of_nat (length (closing bd)) - of_nat (n - length (closing bd) - m) :: u64) = of_nat m"
    using p(3) by (simp add: of_nat_diff)
  have "unat (of_nat n - of_nat (length (closing bd)) - of_nat (n - length (closing bd) - m) :: u64) = m"
    unfolding e using p(3,4) by (simp add: unat_of_nat)
  then have lim: "min (unat (of_nat n - of_nat (length (closing bd)) - of_nat (n - length (closing bd) - m) :: u64)) (length c) = length c"
    using assms(4) by simp
  show ?thesis
    unfolding part_data_step_def Let_def ending_closing [OF p(2)] r assms(2,3) option.case p(1,5,6) lim
    by (simp add: data_taken_def p(6))
qed

lemma data_step_last:
  assumes "mid_part bd n (length c) cx" and "cx_buffer cx = c @ closing bd @ crlf"
    and "find_sub (closing bd) (c @ closing bd) = Some (length c)"
  shows "part_data_step cx = Part_break True (part_ended c cx)"
proof -
  have p: "cx_parsed_pos cx = 0" "rq_boundary (cx_request cx) = bd" "length c + length (closing bd) \<le> n"
      "rq_contentLength (cx_request cx) = of_nat n" "cx_body_bytes_received cx = of_nat (n - length (closing bd) - length c)"
    using assms(1) by (simp_all add: mid_part_def)
  have r: "rest cx = c @ closing bd @ crlf" using p(1) assms(2) by (simp add: rest_def)
  have f: "find_sub (closing bd) (c @ closing bd @ crlf) = Some (length c)"
    using find_sub_append [OF assms(3), of crlf] by simp
  have "n - length (closing bd) - length c + (0 + length c) + length (closing bd) = n" using p(3) by simp
  then have s: "of_nat (n - length (closing bd) - length c) + of_nat (0 + length c) + of_nat (length (closing bd)) = (of_nat n :: u64)"
    by (metis of_nat_add)
  show ?thesis
    unfolding part_data_step_def Let_def ending_closing [OF p(2)] r f option.case p(1,4,5) s
    by (simp add: part_ended_def)
qed

lemma part_turn:
  assumes "mid_part bd n m cx" and "cx_buffer cx \<noteq> []" and "part_data_step cx = Part_break b cx'"
  shows "parse_loop env now (False, False, cx) = parse_loop env now (b, False, cx')"
proof -
  have p: "cx_state cx = kExpectBody" "cx_parsed_pos cx = 0" "rq_boundary (cx_request cx) \<noteq> []" "rq_fileHeader (cx_request cx) \<noteq> []"
    using assms(1) by (simp_all add: mid_part_def)
  have "multipart_loop env (False, False, cx) = Inr (b, False, cx')"
    using p assms(2,3) by (subst multipart_loop.simps) (simp add: part_iter_def)
  then have "parse_iter env now (False, False, cx) = Inr (b, False, cx')"
    using p by (simp add: parse_iter_def body_step_def)
  moreover have "rest cx \<noteq> []" using assms(2) p(2) by (simp add: rest_def)
  ultimately show ?thesis by (rule parse_loop_step [rotated])
qed

text \<open>What one call makes of a chunk of the data, and of the chunk with the end.\<close>

lemma data_chunk:
  assumes "mid_part bd n m cx" and "cx_buffer cx = c" and "find_sub (closing bd) c = None" and "length c \<le> m"
  shows "parse_loop env now (False, False, cx) =
      Some (Returned False False (if c = [] then cx else data_taken c cx))"
    and "mid_part bd n (m - length c) (data_taken c cx)"
proof -
  have p: "cx_parsed_pos cx = 0" using assms(1) by (simp add: mid_part_def)
  show "parse_loop env now (False, False, cx) = Some (Returned False False (if c = [] then cx else data_taken c cx))"
  proof (cases "c = []")
    case True
    then show ?thesis using assms(2) p by (simp add: parse_loop_end parse_end_def rest_def)
  next
    case False
    then show ?thesis
      using part_turn [OF assms(1) _ data_step_more [OF assms]] assms(2)
      by (simp add: parse_loop_end parse_end_def rest_def data_taken_def)
  qed
  have "n - length (closing bd) - (m - length c) = n - length (closing bd) - m + length c"
    using assms(1,4) by (simp add: mid_part_def)
  then show "mid_part bd n (m - length c) (data_taken c cx)"
    using assms(1,4) by (auto simp: mid_part_def data_taken_def store_data_def appendBody_def)
qed

lemma last_chunk:
  assumes "mid_part bd n (length c) cx" and "cx_buffer cx = c @ closing bd @ crlf"
    and "find_sub (closing bd) (c @ closing bd) = Some (length c)"
  shows "parse_loop env now (False, False, cx) = Some (Returned True False (part_ended c cx))"
  using part_turn [OF assms(1) _ data_step_last [OF assms]] assms(2)
  by (simp add: parse_loop_gotAll part_ended_def)

lemma find_sub_part:
  assumes "find_sub p (a @ b @ p) = Some (length (a @ b))" and "p \<noteq> []"
  shows "find_sub p a = None" and "find_sub p (b @ p) = Some (length b)"
proof -
  show "find_sub p a = None"
  proof (cases "find_sub p a")
    case (Some i)
    then have "find_sub p (a @ b @ p) = Some i" by (rule find_sub_append)
    then have "i = length a + length b" using assms(1) by simp
    moreover have "i + length p \<le> length a" using find_sub_bound [OF Some] .
    moreover have "0 < length p" using assms(2) by simp
    ultimately show ?thesis by linarith
  qed
  show "find_sub p (b @ p) = Some (length b)"
    using assms(1)
  proof (induction a)
    case (Cons x xs)
    then show ?case by (auto split: if_splits)
  qed simp
qed

lemma store_twice: "store_data b (store_data a r) = store_data (a @ b) r"
  by (auto simp: store_data_def appendBody_def writeToFile_def lookup_str_def split: option.splits)

text \<open>The data in any number of chunks, the last of them with the whole end of the part.\<close>

lemma feed_part:
  assumes "mid_part bd n (length s) cx" and "cx_buffer cx = []" and "cs \<noteq> []"
    and "concat cs = s @ closing bd @ crlf" and "suffix (closing bd @ crlf) (last cs)"
    and "find_sub (closing bd) (s @ closing bd) = Some (length s)"
  shows "\<exists>cx'. feed env now cs cx = Some (Returned True False cx') \<and> cx_state cx' = kGotAll \<and> rest cx' = crlf \<and>
    cx_request cx' = store_data s (cx_request cx)"
  using assms
proof (induction cs arbitrary: s cx)
  case (Cons c cs)
  have cl: "closing bd \<noteq> []" by (simp add: closing_def)
  have run: "parseRequest env c now cx = parse_loop env now (False, False, cx\<lparr>cx_buffer := c\<rparr>)"
    using Cons.prems(2) by (simp add: parseRequest_def)
  have mid: "mid_part bd n (length s) (cx\<lparr>cx_buffer := c\<rparr>)" using Cons.prems(1) by (simp add: mid_part_def)
  show ?case
  proof (cases "cs = []")
    case True
    then have "c = s @ closing bd @ crlf" using Cons.prems(4) by simp
    with last_chunk [OF mid _ Cons.prems(6), of env now] True run show ?thesis
      by (simp add: part_ended_def rest_def)
  next
    case False
    from Cons.prems(5) False obtain z where z: "last cs = z @ closing bd @ crlf" by (auto simp: suffix_def)
    have "concat cs = concat (butlast cs) @ last cs"
      using False append_butlast_last_id [of cs] by (metis concat.simps(2) concat_append append_Nil2 concat.simps(1))
    then obtain s2 where s2: "concat cs = s2 @ closing bd @ crlf" using z by (metis append_assoc)
    then have s: "s = c @ s2" using Cons.prems(4) by simp
    have f: "find_sub (closing bd) c = None" "find_sub (closing bd) (s2 @ closing bd) = Some (length s2)"
      using find_sub_part [OF _ cl, of c s2] Cons.prems(6) by (simp_all add: s)
    let ?cx = "if c = [] then cx\<lparr>cx_buffer := c\<rparr> else data_taken c (cx\<lparr>cx_buffer := c\<rparr>)"
    have le: "length c \<le> length s" by (simp add: s)
    have t: "parseRequest env c now cx = Some (Returned False False ?cx)"
      unfolding run using data_chunk(1) [OF mid _ f(1) le, of env now] by simp
    have m: "mid_part bd n (length s2) ?cx"
      using data_chunk(2) [OF mid _ f(1) le] mid by (auto simp: s)
    have b: "cx_buffer ?cx = []" by (simp add: data_taken_def)
    have sx: "suffix (closing bd @ crlf) (last cs)" using Cons.prems(5) False by simp
    from Cons.IH [OF m b False s2 sx f(2)] obtain cx' where
      "feed env now cs ?cx = Some (Returned True False cx')" "cx_state cx' = kGotAll" "rest cx' = crlf"
      "cx_request cx' = store_data s2 (cx_request ?cx)" by blast
    moreover have "store_data s2 (cx_request ?cx) = store_data s (cx_request cx)"
      using store_twice [of s2 c "cx_request cx"] by (auto simp: s data_taken_def)
    ultimately show ?thesis using t False by simp
  qed
qed simp

text \<open>The chunk with the header of the part and what follows it, then the others.\<close>

lemma feed_upload:
  assumes "part_ok bd ph d" and "n = length (part_body bd ph d)" and "n < 2 ^ 63"
    and "cx_state cx = kExpectBody" and "rq_boundary (cx_request cx) = bd" and "rest cx = part_head bd ph @ c"
    and "rq_fileHeader (cx_request cx) = []" and "cx_body_bytes_received cx = 0"
    and "rq_contentLength (cx_request cx) = of_nat n"
    and "part_header_step env cx = Part_next cx1" and "cx_state cx1 = kExpectBody"
    and "cx_buffer cx1 = c" and "cx_parsed_pos cx1 = 0"
    and "cx_body_bytes_received cx1 = of_nat (length bd + length ph + 10)"
    and "rq_boundary (cx_request cx1) = bd" and "rq_fileHeader (cx_request cx1) = ph"
    and "rq_contentLength (cx_request cx1) = of_nat n"
    and "c @ concat cs = d @ crlf @ closing bd @ crlf" and "suffix (closing bd @ crlf) (last (c # cs))"
  shows "\<exists>cx'. (case parse_loop env now (False, False, cx) of
        Some (Returned False False cx2) \<Rightarrow> (if cs = [] then Some (Returned False False cx2) else feed env now cs cx2)
      | res \<Rightarrow> res) = Some (Returned True False cx') \<and> cx_state cx' = kGotAll \<and> rest cx' = crlf \<and>
    cx_request cx' = store_data (d @ crlf) (cx_request cx1)"
proof -
  have bd: "bd \<noteq> []" "ph \<noteq> []" and f: "find_sub (closing bd) ((d @ crlf) @ closing bd) = Some (length (d @ crlf))"
    using assms(1) by (simp_all add: part_ok_def)
  have ne: "rest cx \<noteq> []" using assms(6) by (simp add: part_head_def)
  have it: "part_iter env cx = Part_next cx1" using assms(7,10) by (simp add: part_iter_def)
  then have 1: "multipart_loop env (False, False, cx) = multipart_loop env (False, False, cx1)"
    using ne by (subst multipart_loop.simps) (simp add: rest_nonempty)
  have first: "parse_loop env now (False, False, cx) = parse_loop env now (False, False, cx1)"
  proof (cases "c = []")
    case True
    then have "multipart_loop env (False, False, cx1) = Inr (False, False, cx1)"
      using assms(12) by (subst multipart_loop.simps) simp
    then have "parse_iter env now (False, False, cx) = Inr (False, False, cx1)"
      using assms(4,5) bd 1 by (simp add: parse_iter_def body_step_def)
    from parse_loop_step [OF ne this] show ?thesis .
  next
    case False
    have "parse_iter env now (False, False, cx) = parse_iter env now (False, False, cx1)"
      using assms(4,5,11,15) bd 1 by (simp add: parse_iter_def body_step_def)
    moreover have "rest cx1 \<noteq> []" using False assms(12,13) by (simp add: rest_def)
    ultimately show ?thesis using ne
      unfolding parse_loop.simps [of env now "(False, False, cx)"] parse_loop.simps [of env now "(False, False, cx1)"]
      by (simp add: rest_nonempty)
  qed
  have len: "n = length bd + length ph + 10 + (length d + 2) + length (closing bd)"
    by (simp add: assms(2) part_body_def part_head_def closing_def crlfcrlf_def)
  then have mid: "mid_part bd n (length (d @ crlf)) cx1"
    using assms(3,11,13-17) bd by (simp add: mid_part_def)
  show ?thesis
  proof (cases "cs = []")
    case True
    then have "cx_buffer cx1 = (d @ crlf) @ closing bd @ crlf" using assms(12,18) by simp
    from last_chunk [OF mid this f, of env now] True show ?thesis
      by (simp add: first part_ended_def rest_def)
  next
    case False
    from assms(19) False obtain z where z: "last cs = z @ closing bd @ crlf" by (auto simp: suffix_def)
    have "concat cs = concat (butlast cs) @ last cs"
      using False append_butlast_last_id [of cs] by (metis concat.simps(2) concat_append append_Nil2 concat.simps(1))
    then obtain s2 where s2: "concat cs = s2 @ closing bd @ crlf" using z by (metis append_assoc)
    then have s: "d @ crlf = c @ s2"
      using assms(18) by (metis append_assoc append_same_eq)
    have g: "find_sub (closing bd) c = None" "find_sub (closing bd) (s2 @ closing bd) = Some (length s2)"
      using find_sub_part [of "closing bd" c s2] f unfolding s by (simp_all add: closing_def)
    have le: "length c \<le> length (d @ crlf)" unfolding s by simp
    let ?cx = "if c = [] then cx1 else data_taken c cx1"
    have t: "parse_loop env now (False, False, cx1) = Some (Returned False False ?cx)"
      using data_chunk(1) [OF mid assms(12) g(1) le, of env now] .
    have "length (d @ crlf) - length c = length s2" unfolding s by simp
    then have m: "mid_part bd n (length s2) ?cx"
      using data_chunk(2) [OF mid assms(12) g(1) le] mid s by (auto split: if_splits)
    have b: "cx_buffer ?cx = []" using assms(12) by (simp add: data_taken_def)
    have sx: "suffix (closing bd @ crlf) (last cs)" using assms(19) False by simp
    from feed_part [OF m b False s2 sx g(2), of env now] obtain cx' where
      "feed env now cs ?cx = Some (Returned True False cx')" "cx_state cx' = kGotAll" "rest cx' = crlf"
      "cx_request cx' = store_data s2 (cx_request ?cx)" by blast
    moreover have "store_data s2 (cx_request ?cx) = store_data (d @ crlf) (cx_request cx1)"
      unfolding s using store_twice [of s2 c "cx_request cx1"] by (auto simp: data_taken_def)
    ultimately show ?thesis using t False by (simp add: first)
  qed
qed

definition small :: "bytes \<Rightarrow> bool" where
  "small b \<longleftrightarrow> length b \<le> 1024 * 1024"

lemma small_threshold:
  "length b < 2 ^ 64 \<Longrightarrow> (LARGE_FILE_THRESHOLD < of_nat (length b)) = (\<not> small b)"
  by (simp add: LARGE_FILE_THRESHOLD_def small_def word_less_nat_alt num_simps not_le)

text \<open>The head of an upload leaves the context ready for its part.\<close>

definition part_awaited ::
  "string \<Rightarrow> string \<Rightarrow> (string \<times> string) list \<Rightarrow> (string \<times> string) list \<Rightarrow> int \<Rightarrow> nat \<Rightarrow> string \<Rightarrow>
     bytes \<Rightarrow> http_context \<Rightarrow> http_context" where
  "part_awaited m path ps hs now n bd b cx =
     (let c = body_awaited m path ps hs now n b cx in c\<lparr>cx_request := setBoundary bd (cx_request c)\<rparr>)"

lemma upload_head:
  assumes "fresh cx" and "request_ok m path ps hs" and "method_of m \<in> {kPost, kPut}"
    and "upload_headers bd hs n" and "bd \<noteq> []" and "hd bd \<noteq> CHR 0x22" and "0 < n" and "int n \<le> INT_MAX"
  shows "parseRequest env (render_head m path ps hs @ b) now cx =
    parse_loop env now (False, False, part_awaited m path ps hs now n bd b cx)"
  using head_with_body [OF assms(1-3) _ assms(7,8), of env b now] assms(4-6)
  by (simp add: content_type_upload [of _ bd] upload_headers_def getHeader_def part_awaited_def Let_def)

text \<open>The context after the part's header, with the request it has made of it.\<close>

definition part_opened :: "string \<Rightarrow> string \<Rightarrow> bytes \<Rightarrow> (http_request \<Rightarrow> http_request) \<Rightarrow> http_context \<Rightarrow> http_context" where
  "part_opened bd ph c f cx = cx\<lparr>cx_parsed_pos := 0, cx_buffer := c,
     cx_body_bytes_received := of_nat (length bd + length ph + 10), cx_request := f (cx_request cx)\<rparr>"

text \<open>
  The chunks of an upload: the head alone or with the header of the part, then the data cut
  anywhere, as long as the closing delimiter comes in one piece.
\<close>

definition upload_chunks :: "bytes \<Rightarrow> string \<Rightarrow> string \<Rightarrow> bytes \<Rightarrow> bytes list \<Rightarrow> bool" where
  "upload_chunks q bd ph d chunks \<longleftrightarrow>
     (\<exists>c cs. c @ concat cs = d @ crlf @ closing bd @ crlf \<and> suffix (closing bd @ crlf) (last (c # cs)) \<and>
        (chunks = (q @ part_head bd ph @ c) # cs \<or> chunks = q # (part_head bd ph @ c) # cs))"

lemma feed_chunks:
  assumes "fresh cx" and "request_ok m path ps hs" and "method_of m \<in> {kPost, kPut}"
    and "upload_headers bd hs (length (part_body bd ph d))" and "part_ok bd ph d"
    and "int (length (part_body bd ph d)) \<le> INT_MAX"
    and "upload_chunks (render_head m path ps hs) bd ph d chunks"
    and f: "\<And>c cx0. rest cx0 = part_head bd ph @ c \<Longrightarrow>
      cx_request cx0 = cx_request (part_awaited m path ps hs now (length (part_body bd ph d)) bd [] cx) \<Longrightarrow>
      cx_body_bytes_received cx0 = 0 \<Longrightarrow> part_header_step env cx0 = Part_next (part_opened bd ph c f cx0)"
    and g: "let r = cx_request (part_awaited m path ps hs now (length (part_body bd ph d)) bd [] cx)
      in rq_boundary (f r) = bd \<and> rq_fileHeader (f r) = ph \<and> rq_contentLength (f r) = of_nat (length (part_body bd ph d))"
  shows "\<exists>cx'. feed env now chunks cx = Some (Returned True False cx') \<and> gotAll cx' \<and> rest cx' = crlf \<and>
    cx_request cx' =
      store_data (d @ crlf) (f (cx_request (part_awaited m path ps hs now (length (part_body bd ph d)) bd [] cx)))"
proof -
  let ?n = "length (part_body bd ph d)" let ?h = "render_head m path ps hs"
  let ?w = "\<lambda>b. part_awaited m path ps hs now ?n bd b cx"
  have bd: "bd \<noteq> []" "hd bd \<noteq> CHR 0x22" using assms(5) by (simp_all add: part_ok_def)
  have n: "0 < ?n" "?n < 2 ^ 63" using assms(6) by (simp_all add: part_body_def part_head_def)
  note head = upload_head [OF assms(1-4) bd n(1) assms(6), of env]
  have req: "cx_request (?w b) = cx_request (?w [])" for b
    by (simp add: part_awaited_def Let_def body_awaited_def head_parsed_def)
  have w: "cx_state (?w b) = kExpectBody" "cx_body_bytes_received (?w b) = 0" "rest (?w b) = b"
      "cx_parsed_pos (?w b) = length ?h" "cx_buffer (?w b) = ?h @ b" for b
    using assms(1) by (simp_all add: part_awaited_def Let_def setBoundary_def rest_def fresh_def)
  have rq: "rq_boundary (cx_request (?w [])) = bd" "rq_fileHeader (cx_request (?w [])) = []"
      "rq_contentLength (cx_request (?w [])) = of_nat ?n"
    using assms(1) by (simp_all add: part_awaited_def Let_def setBoundary_def fresh_def)
  obtain c cs where c: "c @ concat cs = d @ crlf @ closing bd @ crlf" "suffix (closing bd @ crlf) (last (c # cs))"
    and ch: "chunks = (?h @ part_head bd ph @ c) # cs \<or> chunks = ?h # (part_head bd ph @ c) # cs"
    using assms(7) by (auto simp: upload_chunks_def)
  have body: "\<exists>cx'. (case parse_loop env now (False, False, cx0) of
        Some (Returned False False cx2) \<Rightarrow> (if cs = [] then Some (Returned False False cx2) else feed env now cs cx2)
      | res \<Rightarrow> res) = Some (Returned True False cx') \<and> cx_state cx' = kGotAll \<and> rest cx' = crlf \<and>
      cx_request cx' = store_data (d @ crlf) (f (cx_request (?w [])))"
    if "cx_state cx0 = kExpectBody" "rest cx0 = part_head bd ph @ c" "cx_request cx0 = cx_request (?w [])"
      "cx_body_bytes_received cx0 = 0" for cx0
  proof -
    note h = f [OF that(2,3,4)]
    have "cx_request (part_opened bd ph c f cx0) = f (cx_request (?w []))" using that(3) by (simp add: part_opened_def)
    with feed_upload [OF assms(5) refl n(2) that(1) _ that(2) _ that(4) _ h _ _ _ _ _ _ _ c, of now] g that rq show ?thesis
      by (simp add: part_opened_def Let_def)
  qed
  from ch show ?thesis
  proof
    assume ch: "chunks = (?h @ part_head bd ph @ c) # cs"
    from body [of "?w (part_head bd ph @ c)"] w req show ?thesis by (auto simp: ch head gotAll_def)
  next
    assume ch: "chunks = ?h # (part_head bd ph @ c) # cs"
    have "parseRequest env ?h now cx = Some (Returned False False (?w []))"
      using head [of "[]" now] w(3) by (simp add: parse_loop_end parse_end_def)
    moreover have "rest ((?w [])\<lparr>cx_buffer := cx_buffer (?w []) @ part_head bd ph @ c\<rparr>) = part_head bd ph @ c"
      using w(4,5) by (simp add: rest_def)
    ultimately show ?thesis
      using body [of "(?w [])\<lparr>cx_buffer := cx_buffer (?w []) @ part_head bd ph @ c\<rparr>"] w
      by (auto simp: ch parseRequest_def gotAll_def)
  qed
qed

text \<open>Up to one megabyte the data goes to the body of the request.\<close>

lemma upload_small:
  assumes "fresh cx" and "request_ok m path ps hs" and "method_of m \<in> {kPost, kPut}"
    and "upload_headers bd hs (length (part_body bd ph d))" and "part_ok bd ph d"
    and "small (part_body bd ph d)" and "upload_chunks (render_head m path ps hs) bd ph d chunks"
  shows "\<exists>cx'. feed env now chunks cx = Some (Returned True False cx') \<and> gotAll cx' \<and> rest cx' = crlf \<and>
      rq_content (cx_request cx') = d @ crlf \<and> rq_fileHeader (cx_request cx') = ph \<and>
      rq_headers (cx_request cx') = map_of (rev hs)"
proof -
  let ?b = "part_body bd ph d" let ?w = "part_awaited m path ps hs now (length ?b) bd [] cx"
  have big: "length ?b < 2 ^ 64" "int (length ?b) \<le> INT_MAX" using assms(6) by (simp_all add: small_def)
  have ok: "bd \<noteq> []" "find_sub crlfcrlf (ph @ crlfcrlf) = Some (length ph)" using assms(5) by (simp_all add: part_ok_def)
  have rq: "rq_boundary (cx_request ?w) = bd" "rq_contentLength (cx_request ?w) = of_nat (length ?b)" "rq_content (cx_request ?w) = []"
      "rq_headers (cx_request ?w) = map_of (rev hs)"
    using assms(1) by (simp_all add: part_awaited_def Let_def setBoundary_def fresh_def)
  have small: "\<not> LARGE_FILE_THRESHOLD < (of_nat (length ?b) :: u64)" using assms(6) small_threshold [OF big(1)] by simp
  have "part_header_step env cx0 = Part_next (part_opened bd ph c (savefileHeader ph) cx0)"
    if "rest cx0 = part_head bd ph @ c" "cx_request cx0 = cx_request ?w" "cx_body_bytes_received cx0 = 0" for c cx0
    using part_header_found [OF ok _ that(1)] that(2,3) rq(1,2) small by (simp add: part_opened_def Let_def)
  note step = this
  have g: "let r = cx_request ?w in rq_boundary (savefileHeader ph r) = bd \<and> rq_fileHeader (savefileHeader ph r) = ph \<and>
      rq_contentLength (savefileHeader ph r) = of_nat (length ?b)"
    using rq by (simp add: Let_def savefileHeader_def)
  obtain cx' where res: "feed env now chunks cx = Some (Returned True False cx')" "gotAll cx'" "rest cx' = crlf"
      and r: "cx_request cx' = store_data (d @ crlf) (savefileHeader ph (cx_request ?w))"
    using feed_chunks [OF assms(1-5) big(2) assms(7) step g] by blast
  have "rq_contentLength (savefileHeader ph (cx_request ?w)) = of_nat (length ?b)"
    using rq(2) by (simp add: savefileHeader_def)
  then have e: "cx_request cx' = appendBody (d @ crlf) (savefileHeader ph (cx_request ?w))"
    using small by (simp add: r store_data_def)
  show ?thesis using res rq(3,4) by (intro exI [of _ cx']) (simp add: e savefileHeader_def appendBody_def)
qed

text \<open>Above one megabyte it goes to a file under the upload directory.\<close>

lemma upload_large:
  assumes "fresh cx" and "request_ok m path ps hs" and "method_of m \<in> {kPost, kPut}"
    and "upload_headers bd hs (length (part_body bd ph d))" and "part_ok bd ph d"
    and "\<not> small (part_body bd ph d)" and "int (length (part_body bd ph d)) \<le> INT_MAX"
    and "upload_chunks (render_head m path ps hs) bd ph d chunks"
    and "pe_videoPath env = Some dir" and "pe_dirOk env dir"
    and "part_filename (pe_junk env) ph = Inr name" and "pe_canOpen env (dir @ ''/'' @ name)"
    and "fw_file (rq_fileWriter (cx_request cx)) = None"
  shows "\<exists>cx'. feed env now chunks cx = Some (Returned True False cx') \<and> gotAll cx' \<and> rest cx' = crlf \<and>
      fw_disk (rq_fileWriter (cx_request cx')) =
        (fw_disk (rq_fileWriter (cx_request cx)))(dir @ ''/'' @ name \<mapsto> d @ crlf) \<and>
      rq_content (cx_request cx') = [] \<and>
      rq_headers (cx_request cx') = map_of (rev hs)"
proof -
  let ?b = "part_body bd ph d" let ?w = "part_awaited m path ps hs now (length ?b) bd [] cx"
  let ?f = "\<lambda>r. (savefileHeader ph r)\<lparr>rq_fileWriter :=
    snd (initFileStream (pe_canOpen env) (dir @ ''/'' @ name) (rq_fileWriter (cx_request cx)))\<rparr>"
  have big: "length ?b < 2 ^ 64" using assms(7) by simp
  have ok: "bd \<noteq> []" "find_sub crlfcrlf (ph @ crlfcrlf) = Some (length ph)" using assms(5) by (simp_all add: part_ok_def)
  have rq: "rq_boundary (cx_request ?w) = bd" "rq_contentLength (cx_request ?w) = of_nat (length ?b)" "rq_content (cx_request ?w) = []"
      "rq_headers (cx_request ?w) = map_of (rev hs)" "rq_fileWriter (cx_request ?w) = rq_fileWriter (cx_request cx)"
    using assms(1) by (simp_all add: part_awaited_def Let_def setBoundary_def fresh_def)
  have large: "LARGE_FILE_THRESHOLD < (of_nat (length ?b) :: u64)" using assms(6) small_threshold [OF big] by simp
  have "part_header_step env cx0 = Part_next (part_opened bd ph c ?f cx0)"
    if "rest cx0 = part_head bd ph @ c" "cx_request cx0 = cx_request ?w" "cx_body_bytes_received cx0 = 0" for c cx0
    using part_header_found [OF ok _ that(1), of env] that(2,3) rq(1,2,5) large assms(9-11)
    by (simp add: part_opened_def Let_def savefileHeader_def open_upload_def)
  note step = this
  have g: "let r = cx_request ?w in rq_boundary (?f r) = bd \<and> rq_fileHeader (?f r) = ph \<and>
      rq_contentLength (?f r) = of_nat (length ?b)"
    using rq by (simp add: Let_def savefileHeader_def)
  obtain cx' where res: "feed env now chunks cx = Some (Returned True False cx')" "gotAll cx'" "rest cx' = crlf"
      and r: "cx_request cx' = store_data (d @ crlf) (?f (cx_request ?w))"
    using feed_chunks [OF assms(1-5,7,8) step g] by blast
  have "rq_contentLength (?f (cx_request ?w)) = of_nat (length ?b)"
    using rq(2) by (simp add: savefileHeader_def)
  then have e: "cx_request cx' = (?f (cx_request ?w))
      \<lparr>rq_fileWriter := writeToFile (d @ crlf) (rq_fileWriter (?f (cx_request ?w)))\<rparr>"
    using large by (simp add: r store_data_def)
  show ?thesis using res rq(3,4) assms(12,13)
    by (intro exI [of _ cx']) (simp add: e savefileHeader_def initFileStream_def writeToFile_def lookup_str_def)
qed

section \<open>The invariant of the context\<close>

definition ctx_ok :: "http_context \<Rightarrow> bool" where
  "ctx_ok cx \<longleftrightarrow> cx_parsed_pos cx \<le> length (cx_buffer cx) \<and>
     (rq_fileHeader (cx_request cx) \<noteq> [] \<longrightarrow>
        cx_parsed_pos cx = 0 \<and> rq_boundary (cx_request cx) \<noteq> [] \<and>
        cx_state cx \<in> {kExpectBody, kGotAll})"

definition flags_ok :: "flags \<Rightarrow> bool" where
  "flags_ok = (\<lambda>(ok, e, cx). ctx_ok cx \<and> (ok \<longrightarrow> cx_state cx = kGotAll))"

definition result_ok :: "parse_result \<Rightarrow> bool" where
  "result_ok res =
     (case res of
        Returned ok e cx \<Rightarrow> ctx_ok cx \<and> (ok \<longrightarrow> gotAll cx) \<and> (e \<and> \<not> ok \<longrightarrow> fresh cx)
      | Threw e cx \<Rightarrow> ctx_ok cx
      | Aborted \<Rightarrow> True)"

lemma fresh_ctx_ok: "fresh cx \<Longrightarrow> ctx_ok cx"
  by (simp add: fresh_def ctx_ok_def)

lemma processRequestLine_frame:
  "processRequestLine l r = Some (b, r') \<Longrightarrow>
     rq_fileHeader r' = rq_fileHeader r \<and> rq_boundary r' = rq_boundary r"
  by (auto simp: processRequestLine_def setMethod_def set_http_version_def set_target_def
      setVersion_def setQueryParameters_def setPath_def Let_def split: option.splits if_splits)

lemma find_sub_rest:
  "find_sub p (rest cx) = Some n \<Longrightarrow> p \<noteq> [] \<Longrightarrow> cx_parsed_pos cx + n + length p \<le> length (cx_buffer cx)"
  by (auto dest!: find_sub_bound simp: rest_def) (cases p; simp)

lemma request_line_step_ok:
  assumes "flags_ok s" and "cx_state (snd (snd s)) = kExpectRequestLine"
  shows "(case request_line_step now s of Inl res \<Rightarrow> result_ok res | Inr s' \<Rightarrow> flags_ok s')"
  using assms
  by (cases s) (auto simp: request_line_step_def flags_ok_def ctx_ok_def result_ok_def setReceiveTime_def
      dest!: find_sub_rest processRequestLine_frame split: option.splits if_splits bool.splits)

text \<open>While the head is read there is no part header yet.\<close>

definition head_ok :: "flags \<Rightarrow> bool" where
  "head_ok = (\<lambda>(ok, e, cx). flags_ok (ok, e, cx) \<and> rq_fileHeader (cx_request cx) = [])"

lemma blank_line_step_ok:
  assumes "head_ok (ok, e, cx)"
  shows "head_ok (blank_line_step (ok, e, cx))"
  using assms
  by (auto simp: blank_line_step_def head_ok_def flags_ok_def ctx_ok_def setContentLength_def Let_def
      split: sum.splits)

lemma header_line_step_ok:
  assumes "head_ok (ok, e, cx)" and "header_line_step l (ok, e, cx) = (ok', e', cx')"
  shows "head_ok (ok', e', cx') \<and> cx_state cx' = cx_state cx \<and>
    cx_buffer cx' = cx_buffer cx \<and> cx_parsed_pos cx' = cx_parsed_pos cx"
  using assms by (auto simp: header_line_step_def head_ok_def flags_ok_def ctx_ok_def addHeader_def
      split: option.splits)

lemma skip_line_ok:
  "head_ok (ok, e, cx) \<Longrightarrow> cx_parsed_pos cx + n + 2 \<le> length (cx_buffer cx) \<Longrightarrow>
     head_ok (skip_line n (ok, e, cx))"
  by (auto simp: skip_line_def head_ok_def flags_ok_def ctx_ok_def)

lemma headers_loop_ok: "head_ok (ok, e, cx) \<Longrightarrow> head_ok (headers_loop (ok, e, cx))"
proof (induction "length (cx_buffer cx) - cx_parsed_pos cx" arbitrary: ok e cx rule: less_induct)
  case less
  show ?case
  proof (cases "find_sub crlf (rest cx)")
    case None
    then show ?thesis using less.prems by (subst headers_loop.simps) simp
  next
    case (Some n)
    then have b: "cx_parsed_pos cx + n + 2 \<le> length (cx_buffer cx)"
      using find_sub_rest [of crlf cx n] by simp
    obtain ok' e' cx' where h: "header_line_step (take n (rest cx)) (ok, e, cx) = (ok', e', cx')"
      by (metis prod_cases3)
    note f = header_line_step_ok [OF less.prems h]
    show ?thesis
    proof (cases "n = 0")
      case True
      with skip_line_ok [OF less.prems, of 0] b Some show ?thesis
        by (subst headers_loop.simps) (auto simp: skip_line_def intro!: blank_line_step_ok)
    next
      case False
      have "head_ok (skip_line n (ok', e', cx'))" using f b by (intro skip_line_ok) simp_all
      with less.hyps [of "cx'\<lparr>cx_parsed_pos := cx_parsed_pos cx' + n + 2\<rparr>" ok' e'] f b
      show ?thesis
        using Some False h by (subst headers_loop.simps) (simp add: skip_line_def)
    qed
  qed
qed

lemma content_type_step_ok: "head_ok s \<Longrightarrow> flags_ok (content_type_step s)"
  by (cases s) (auto simp: content_type_step_def head_ok_def flags_ok_def ctx_ok_def Let_def
      setBoundary_def split: option.splits)

lemma headers_step_ok: "flags_ok (ok, e, cx) \<Longrightarrow> cx_state cx = kExpectHeaders \<Longrightarrow>
    flags_ok (headers_step (ok, e, cx))"
  unfolding headers_step_def
  by (intro content_type_step_ok headers_loop_ok) (auto simp: head_ok_def flags_ok_def ctx_ok_def)

lemma plain_body_step_ok:
  assumes "flags_ok (ok, e, cx)" and "cx_state cx = kExpectBody" and "rq_boundary (cx_request cx) = []"
  shows "flags_ok (plain_body_step (ok, e, cx))"
  using assms by (auto simp: plain_body_step_def flags_ok_def ctx_ok_def appendBody_def Let_def)

definition part_ok_step :: "part_step \<Rightarrow> bool" where
  "part_ok_step p =
     (case p of
        Part_break ok cx \<Rightarrow> ctx_ok cx \<and> (ok \<longrightarrow> cx_state cx = kGotAll)
      | Part_next cx \<Rightarrow> ctx_ok cx \<and> rq_boundary (cx_request cx) \<noteq> [] \<and> cx_state cx = kExpectBody
      | Part_throw e cx \<Rightarrow> ctx_ok cx)"

lemma open_upload_ok:
  assumes "ctx_ok cx" and "rq_boundary (cx_request cx) \<noteq> []" and "cx_state cx = kExpectBody"
  shows "part_ok_step (open_upload env h cx)"
  using assms by (auto simp: open_upload_def part_ok_step_def ctx_ok_def Let_def
      split: option.splits sum.splits)

lemma part_header_step_ok:
  assumes "ctx_ok cx" and "rq_boundary (cx_request cx) \<noteq> []" and "cx_state cx = kExpectBody"
    and "rq_fileHeader (cx_request cx) = []"
  shows "part_ok_step (part_header_step env cx)"
proof -
  have "ctx_ok (cx\<lparr>cx_parsed_pos := 0, cx_buffer := b, cx_body_bytes_received := n,
      cx_request := savefileHeader h (cx_request cx)\<rparr>)" for b n h
    using assms by (simp add: ctx_ok_def savefileHeader_def)
  then show ?thesis
    using assms
    by (auto simp: part_header_step_def Let_def part_ok_step_def [of "Part_break _ _"]
        part_ok_step_def [of "Part_next _"] savefileHeader_def ctx_ok_def
        split: option.splits intro!: open_upload_ok)
qed

lemma part_data_step_ok:
  assumes "ctx_ok cx" and "rq_boundary (cx_request cx) \<noteq> []" and "cx_state cx = kExpectBody"
  shows "part_ok_step (part_data_step cx)"
  using assms by (auto simp: part_data_step_def Let_def part_ok_step_def ctx_ok_def store_data_def
      appendBody_def split: option.splits)

lemma part_iter_ok:
  "ctx_ok cx \<Longrightarrow> rq_boundary (cx_request cx) \<noteq> [] \<Longrightarrow> cx_state cx = kExpectBody \<Longrightarrow>
     part_ok_step (part_iter env cx)"
  by (simp add: part_iter_def part_header_step_ok part_data_step_ok)

definition step_ok :: "parse_result + flags \<Rightarrow> bool" where
  "step_ok x = (case x of Inl res \<Rightarrow> result_ok res | Inr s \<Rightarrow> flags_ok s)"

lemma multipart_loop_ok:
  "ctx_ok cx \<Longrightarrow> rq_boundary (cx_request cx) \<noteq> [] \<Longrightarrow> cx_state cx = kExpectBody \<Longrightarrow> \<not> ok \<Longrightarrow>
     step_ok (multipart_loop env (ok, e, cx))"
proof (induction "length (cx_buffer cx) - cx_parsed_pos cx" arbitrary: cx rule: less_induct)
  case less
  note good = part_iter_ok [OF less.prems(1-3), of env]
  show ?case
  proof (cases "part_iter env cx")
    case (Part_break ok' cx')
    then show ?thesis using good less.prems
      by (subst multipart_loop.simps) (simp add: step_ok_def flags_ok_def part_ok_step_def)
  next
    case (Part_next cx')
    then have "ctx_ok cx'" "rq_boundary (cx_request cx') \<noteq> []" "cx_state cx' = kExpectBody"
      using good by (auto simp: part_ok_step_def)
    from less.hyps [OF part_iter_shrinks [OF Part_next] this less.prems(4)] Part_next less.prems
    show ?thesis by (subst multipart_loop.simps) (simp add: step_ok_def flags_ok_def)
  next
    case (Part_throw x cx')
    then show ?thesis using good less.prems
      by (subst multipart_loop.simps) (simp add: step_ok_def flags_ok_def result_ok_def part_ok_step_def)
  qed
qed

lemma parse_iter_ok:
  assumes "flags_ok (ok, e, cx)"
  shows "step_ok (parse_iter env now (ok, e, cx))"
proof (cases "cx_state cx")
  case kExpectRequestLine
  then show ?thesis
    using request_line_step_ok [OF assms] by (simp add: parse_iter_def step_ok_def)
next
  case kExpectHeaders
  then show ?thesis using headers_step_ok [OF assms] by (simp add: parse_iter_def step_ok_def)
next
  case kExpectBody
  then have "\<not> ok" "ctx_ok cx" using assms by (auto simp: flags_ok_def)
  with kExpectBody assms show ?thesis
    by (auto simp: parse_iter_def body_step_def step_ok_def [of "Inr _"]
        intro: plain_body_step_ok multipart_loop_ok)
next
  case kGotAll
  then show ?thesis using assms
    by (simp add: parse_iter_def step_ok_def result_ok_def flags_ok_def gotAll_def)
qed

lemma parse_end_ok: "flags_ok s \<Longrightarrow> result_ok (parse_end s)"
  by (cases s) (auto simp: parse_end_def result_ok_def flags_ok_def gotAll_def fresh_ctx_ok)

lemma parse_loop_ok:
  assumes "parse_loop env now s = Some res" and "flags_ok s"
  shows "result_ok res"
proof (rule parse_loop_induct [where I = flags_ok and Q = result_ok, OF assms])
  fix ok e cx res
  assume "flags_ok (ok, e, cx)" and "parse_iter env now (ok, e, cx) = Inl res"
  then show "result_ok res"
    using parse_iter_ok [of "ok" e cx env now] by (simp add: step_ok_def)
next
  fix ok e cx s'
  assume "flags_ok (ok, e, cx)" and "parse_iter env now (ok, e, cx) = Inr s'"
  then show "flags_ok s'"
    using parse_iter_ok [of "ok" e cx env now] by (simp add: step_ok_def)
qed (rule parse_end_ok)

lemma parseRequest_ok: "ctx_ok cx \<Longrightarrow> parseRequest env buf now cx = Some res \<Longrightarrow> result_ok res"
  unfolding parseRequest_def
  by (erule parse_loop_ok) (auto simp: flags_ok_def ctx_ok_def)

section \<open>The parser goes forward\<close>

abbreviation state_in :: "flags \<Rightarrow> parse_state" where
  "state_in s \<equiv> cx_state (snd (snd s))"

lemma headers_forward: "state_in s \<le> state_in (headers_loop s)" if "state_in s = kExpectHeaders"
  using that
proof (induction s rule: headers_loop.induct)
  case (1 ok e cx)
  show ?case
  proof (cases "find_sub crlf (rest cx)")
    case (Some n)
    obtain ok' e' cx' where h: "header_line_step (take n (rest cx)) (ok, e, cx) = (ok', e', cx')"
      by (metis prod_cases3)
    then have c: "cx_state cx' = cx_state cx" by (auto simp: header_line_step_def split: option.splits)
    show ?thesis
    proof (cases "n = 0")
      case True
      then show ?thesis using Some "1.prems"
        by (subst headers_loop.simps) (auto simp: skip_line_def blank_line_step_def Let_def split: sum.splits)
    next
      case False
      then show ?thesis using Some "1.IH" [OF _ Some False] "1.prems" h c
        by (subst headers_loop.simps) (auto simp: skip_line_def)
    qed
  qed (use "1.prems" in \<open>subst headers_loop.simps; simp\<close>)
qed

lemma headers_step_forward: "state_in s = kExpectHeaders \<Longrightarrow> state_in s \<le> state_in (headers_step s)"
  using headers_forward [of s]
  by (cases "headers_loop s") (auto simp: headers_step_def content_type_step_def Let_def split: option.splits)

definition forward :: "parse_state \<Rightarrow> parse_result + flags \<Rightarrow> bool" where
  "forward st x \<longleftrightarrow>
     (case x of
        Inr s \<Rightarrow> st \<le> state_in s
      | Inl (Returned ok e cx) \<Rightarrow> st \<le> cx_state cx
      | Inl (Threw e cx) \<Rightarrow> st \<le> cx_state cx
      | Inl Aborted \<Rightarrow> True)"

lemma part_forward:
  "(case part_iter env cx of
      Part_break ok cx' \<Rightarrow> cx_state cx' \<in> {cx_state cx, kGotAll}
    | Part_next cx' \<Rightarrow> cx_state cx' = cx_state cx
    | Part_throw x cx' \<Rightarrow> cx_state cx' = cx_state cx)"
  by (auto simp: part_iter_def part_header_step_def part_data_step_def open_upload_def Let_def
      split: option.splits if_splits sum.splits)

lemma multipart_forward: "forward (cx_state cx) (multipart_loop env (ok, e, cx))"
proof (induction "length (cx_buffer cx) - cx_parsed_pos cx" arbitrary: cx rule: less_induct)
  case less
  show ?case
  proof (cases "part_iter env cx")
    case (Part_next cx')
    then have "cx_state cx' = cx_state cx" using part_forward [of cx env] by simp
    with less [OF part_iter_shrinks [OF Part_next]] have "forward (cx_state cx) (multipart_loop env (ok, e, cx'))" by simp
    with Part_next show ?thesis by (subst multipart_loop.simps) (simp add: forward_def [of _ "Inr _"])
  qed (use part_forward [of cx env] in \<open>subst multipart_loop.simps; auto simp: forward_def\<close>)+
qed

lemma parse_iter_forward: "forward (cx_state cx) (parse_iter env now (ok, e, cx))"
proof (cases "cx_state cx")
  case kExpectRequestLine
  then show ?thesis by (auto simp: parse_iter_def request_line_step_def forward_def split: option.splits bool.splits)
next
  case kExpectHeaders
  then show ?thesis using headers_step_forward [of "(ok, e, cx)"] by (simp add: parse_iter_def forward_def)
next
  case kExpectBody
  have "forward (cx_state cx) (Inr (plain_body_step (ok, e, cx)))"
    using kExpectBody by (simp add: forward_def plain_body_step_def Let_def)
  then show ?thesis using kExpectBody multipart_forward [of cx env "ok" e] by (simp add: parse_iter_def body_step_def)
qed (simp add: parse_iter_def forward_def)

definition went_on :: "parse_state \<Rightarrow> parse_result \<Rightarrow> bool" where
  "went_on st res \<longleftrightarrow>
     (case res of
        Returned ok e cx \<Rightarrow> e \<and> \<not> ok \<or> st \<le> cx_state cx
      | Threw e cx \<Rightarrow> st \<le> cx_state cx
      | Aborted \<Rightarrow> True)"

lemma parseRequest_forward:
  assumes "parseRequest env buf now cx = Some res"
  shows "went_on (cx_state cx) res"
proof (rule parse_loop_induct [where I = "\<lambda>s. cx_state cx \<le> state_in s"])
  show "parse_loop env now (False, False, cx\<lparr>cx_buffer := cx_buffer cx @ buf\<rparr>) = Some res"
    using assms by (simp add: parseRequest_def)
next
  fix ok e c res assume i: "cx_state cx \<le> state_in (ok, e, c)" and "parse_iter env now (ok, e, c) = Inl res"
  with parse_iter_forward [of c env now "ok" e] show "went_on (cx_state cx) res"
    by (auto simp: forward_def went_on_def split: parse_result.splits)
next
  fix ok e c s' assume i: "cx_state cx \<le> state_in (ok, e, c)" and "parse_iter env now (ok, e, c) = Inr s'"
  with parse_iter_forward [of c env now "ok" e] show "cx_state cx \<le> state_in s'"
    by (auto simp: forward_def)
qed (simp_all add: went_on_def parse_end_def)

section \<open>File names\<close>

definition hex_char :: "nat \<Rightarrow> char" where
  "hex_char d = (if d < 10 then char_of (48 + d) else char_of (55 + d))"

text \<open>Percent-encoding: letters and digits stay, every other byte is escaped.\<close>

definition url_encode :: "string \<Rightarrow> string" where
  "url_encode s = concat (map (\<lambda>c. if is_alnum c then [c]
     else [CHR ''%'', hex_char (ordc c div 16), hex_char (ordc c mod 16)]) s)"

lemma ordc_hex_char: "d < 16 \<Longrightarrow> ordc (hex_char d) = (if d < 10 then 48 + d else 55 + d)"
  by (simp add: hex_char_def ordc_def)

lemma hex_digit_hex_char: "d < 16 \<Longrightarrow> hex_digit (hex_char d) = Some d"
  by (simp add: hex_digit_def ordc_hex_char is_digit_def)

lemma hex_char_plain:
  assumes "d < 16"
  shows "\<not> is_space (hex_char d)" "hex_char d \<noteq> CHR ''-''" "hex_char d \<noteq> CHR ''+''"
proof -
  have *: "ordc (hex_char d) \<ge> 48" using assms by (simp add: ordc_hex_char)
  then show "\<not> is_space (hex_char d)" by (simp add: is_space_def)
  show "hex_char d \<noteq> CHR ''-''" using * by (auto simp: ordc_def)
  show "hex_char d \<noteq> CHR ''+''" using * by (auto simp: ordc_def)
qed

lemma extract_hex_byte:
  assumes "n < 256"
  shows "extract_hex old [hex_char (n div 16), hex_char (n mod 16)] = int n"
proof -
  have d: "n div 16 < 16" "n mod 16 < 16" using assms by auto
  then show ?thesis
    using hex_char_plain [OF d(1)] by (simp add: extract_hex_def hex_digit_hex_char)
qed

lemma ordc_bound: "ordc c < 256"
  by (simp add: ordc_def)

lemma char_of_ordc: "char_of (int (ordc c)) = c" "char_of (ordc c) = c"
  by (simp_all add: ordc_def)

lemma alnum_plain: "is_alnum c \<Longrightarrow> c \<noteq> CHR ''%'' \<and> c \<noteq> CHR ''+'' \<and> c \<noteq> CHR ''/''"
  by (auto simp: is_alnum_def is_digit_def is_upper_def is_lower_def ordc_def)

lemma urlDecode_encode: "urlDecode junk (url_encode s) = Inr s"
proof (induction s)
  case Nil
  then show ?case by (simp add: url_encode_def)
next
  case (Cons c s)
  have "url_encode (c # s) = (if is_alnum c then [c]
     else [CHR ''%'', hex_char (ordc c div 16), hex_char (ordc c mod 16)]) @ url_encode s"
    by (simp add: url_encode_def)
  with Cons alnum_plain [of c] show ?case
    by (simp add: extract_hex_byte [OF ordc_bound] char_of_ordc)
qed

definition file_char :: "char \<Rightarrow> bool" where
  "file_char c \<longleftrightarrow> is_alnum c \<or> c = CHR ''_'' \<or> c = CHR ''.''"

lemma safe_char_ok: "file_char (safe_char c)"
  by (simp add: file_char_def safe_char_def)

lemma rfind_char_after:
  assumes "rfind_char c s = Some i"
  shows "i < length s \<and> s ! i = c \<and> c \<notin> set (drop (Suc i) s)"
proof -
  obtain j where j: "find_char c (rev s) = Some j" "i = length s - Suc j"
    using assms by (auto simp: rfind_char_def)
  note f = find_char_SomeD [OF j(1)]
  then have lt: "j < length s" by simp
  have "s ! i = rev s ! j" using lt j(2) by (simp add: rev_nth)
  moreover have "take j (rev s) = rev (drop (Suc i) s)"
    using lt j(2) by (simp add: take_rev Suc_diff_Suc)
  ultimately show ?thesis using f j(2) lt by simp
qed

lemma sanitizeFilename_form:
  assumes "sanitizeFilename junk raw = Inr f"
  shows "\<exists>base ext. f = base @ ext \<and> length base \<le> MAX_BASENAME_LENGTH \<and>
    (ext = [] \<or> (hd ext = CHR ''.'' \<and> CHR ''.'' \<notin> set (tl ext))) \<and> (\<forall>c \<in> set f. file_char c)"
proof -
  obtain d where d: "urlDecode junk raw = Inr d"
    using assms by (auto simp: sanitizeFilename_def split: sum.splits)
  let ?s = "map safe_char d"
  have all: "\<forall>c \<in> set ?s. file_char c" by (auto simp: safe_char_ok)
  show ?thesis
  proof (cases "rfind_char (CHR ''.'') ?s")
    case None
    with assms d have f: "f = take MAX_BASENAME_LENGTH ?s" by (simp add: sanitizeFilename_def Let_def)
    have "\<forall>c \<in> set f. file_char c" using all f by (meson in_set_takeD)
    with f show ?thesis by (intro exI [of _ f] exI [of _ "[]"]) (simp add: MAX_BASENAME_LENGTH_def)
  next
    case (Some i)
    then have f: "f = take MAX_BASENAME_LENGTH (take i ?s) @ drop i ?s"
      using assms d by (simp add: sanitizeFilename_def Let_def)
    have "\<forall>c \<in> set f. file_char c" using all f by (auto dest!: in_set_takeD in_set_dropD)
    moreover have "hd (drop i ?s) = CHR ''.'' \<and> CHR ''.'' \<notin> set (tl (drop i ?s))"
      using rfind_char_after [OF Some] by (simp add: hd_drop_conv_nth tl_drop drop_Suc)
    ultimately show ?thesis using f
      by (intro exI [of _ "take MAX_BASENAME_LENGTH (take i ?s)"] exI [of _ "drop i ?s"]) simp
  qed
qed

section \<open>Properties\<close>

definition demo_env :: parse_env where
  "demo_env = \<lparr>pe_videoPath = Some ''up'', pe_dirOk = (\<lambda>_. True), pe_canOpen = (\<lambda>_. True), pe_junk = 0\<rparr>"

text \<open>
  C8: a request without a body, written the way a client writes it and delivered in one
  chunk, is parsed back: the call returns true without an error, the method, the path, the
  query parameters (the last one wins), the headers and the version are the ones that
  were sent, and the bytes after the head are still unread.
\<close>

theorem bodyless_request_parsed:
  assumes "fresh cx" and "request_ok m path ps hs" and "method_of m \<notin> {kPost, kPut}"
    and "plain_content hs"
  shows "\<exists>cx'. parseRequest env (render_head m path ps hs @ b) now cx =
      Some (Returned True False cx') \<and> gotAll cx' \<and> rest cx' = b \<and>
      rq_method (cx_request cx') = method_of m \<and> rq_path (cx_request cx') = path \<and>
      rq_queryParameters (cx_request cx') = map_of (rev ps) \<and>
      rq_headers (cx_request cx') = map_of (rev hs) \<and>
      rq_version (cx_request cx') = ''HTTP/1.1'' \<and> rq_receiveTime (cx_request cx') = now"
  unfolding head_without_body [OF assms]
  by (simp add: gotAll_def head_parsed_def rest_def)

lemma bodyless_request_parsed_witness:
  "\<exists>cx'. parseRequest demo_env
      (render_head ''GET'' ''/a'' [(''x'', ''1''), (''y'', ''2'')] [(''Host'', ''h'')] @ ''zz'') 7 (new_context 0) =
      Some (Returned True False cx') \<and> gotAll cx' \<and> rest cx' = ''zz'' \<and>
      rq_method (cx_request cx') = kGet \<and> rq_path (cx_request cx') = ''/a''"
proof -
  have "request_ok ''GET'' ''/a'' [(''x'', ''1''), (''y'', ''2'')] [(''Host'', ''h'')]"
    and "plain_content [(''Host'', ''h'')]" and "method_of ''GET'' = kGet"
    by code_simp+
  with bodyless_request_parsed [of "new_context 0" "''GET''" "''/a''"
      "[(''x'', ''1''), (''y'', ''2'')]" "[(''Host'', ''h'')]" demo_env "''zz''" 7]
  show ?thesis by auto
qed

text \<open>
  C1: a POST or PUT request whose body comes in any number of chunks, the first of them
  behind the head, is delivered whole: every call but the last returns false and the last
  returns true, with exactly the bytes that were sent as the content, whatever the
  cuts, and nothing left unread.
\<close>

theorem chunked_body_delivered:
  assumes "fresh cx" and "request_ok m path ps hs" and "method_of m \<in> {kPost, kPut}"
    and "lookup_str (map_of (rev hs)) ''Content-Length'' = dec (length body)"
    and "body \<noteq> []" and "int (length body) \<le> INT_MAX" and "plain_content hs"
    and "c @ concat cs = body" and "[] \<notin> set cs"
  shows "\<exists>cx'. feed env now ((render_head m path ps hs @ c) # cs) cx = Some (Returned True False cx') \<and>
    gotAll cx' \<and> rest cx' = [] \<and> rq_content (cx_request cx') = body \<and>
    rq_headers (cx_request cx') = map_of (rev hs) \<and> rq_path (cx_request cx') = path"
  using feed_request [OF assms, of env now] assms(1)
  by (auto simp: delivered_def gotAll_def appendBody_def fresh_def)

lemma chunked_body_delivered_witness:
  "\<exists>cx'. feed demo_env 3 [render_head ''POST'' ''/p'' [] [(''Content-Length'', ''5'')] @ ''h'', ''el'', ''lo'']
      (new_context 0) = Some (Returned True False cx') \<and> rq_content (cx_request cx') = ''hello''"
proof -
  have "request_ok ''POST'' ''/p'' [] [(''Content-Length'', ''5'')]"
    and "plain_content [(''Content-Length'', ''5'')]" and "method_of ''POST'' = kPost"
    and "lookup_str (map_of (rev [(''Content-Length'', ''5'')])) ''Content-Length'' = dec (length ''hello'')"
    by code_simp+
  with chunked_body_delivered [of "new_context 0" "''POST''" "''/p''" "[]"
      "[(''Content-Length'', ''5'')]" "''hello''" "''h''" "[''el'', ''lo'']" demo_env 3]
  show ?thesis by auto
qed

text \<open>
  An upload in one part of at most a megabyte, in chunks cut anywhere in its data, ends with the
  part's data as the content of the request. The line break that belongs to the closing
  delimiter is stored with the data, and the line break behind it stays unread.
\<close>

theorem upload_to_body:
  assumes "fresh cx" and "request_ok m path ps hs" and "method_of m \<in> {kPost, kPut}"
    and "upload_headers bd hs (length (part_body bd ph d))" and "part_ok bd ph d"
    and "small (part_body bd ph d)" and "upload_chunks (render_head m path ps hs) bd ph d chunks"
  shows "\<exists>cx'. feed env now chunks cx = Some (Returned True False cx') \<and> gotAll cx' \<and> rest cx' = crlf \<and>
      rq_content (cx_request cx') = d @ crlf \<and> rq_fileHeader (cx_request cx') = ph \<and>
      rq_headers (cx_request cx') = map_of (rev hs)"
  by (rule upload_small [OF assms])

definition demo_upload_headers :: "(string \<times> string) list" where
  "demo_upload_headers =
     [(''Content-Type'', ''multipart/form-data; boundary=Q''), (''Content-Length'', ''46'')]"

lemma upload_to_body_witness:
  "\<exists>cx'. feed demo_env 1
      [render_head ''POST'' ''/u'' [] demo_upload_headers,
       part_head ''Q'' ''name=\"f\"; filename=\"a.b\"'' @ ''da'', ''ta'' @ crlf @ closing ''Q'' @ crlf] (new_context 0) =
      Some (Returned True False cx') \<and> rq_content (cx_request cx') = ''data'' @ crlf"
proof -
  let ?ph = "''name=\"f\"; filename=\"a.b\"''"
  have c: "request_ok ''POST'' ''/u'' [] demo_upload_headers" and m: "method_of ''POST'' = kPost"
    and u: "upload_headers ''Q'' demo_upload_headers (length (part_body ''Q'' ?ph ''data''))"
    and k: "part_ok ''Q'' ?ph ''data''"
    by code_simp+
  have sm: "small (part_body ''Q'' ?ph ''data'')"
    by (simp add: small_def part_body_def part_head_def crlfcrlf_def)
  have ch: "upload_chunks (render_head ''POST'' ''/u'' [] demo_upload_headers) ''Q'' ?ph ''data''
      [render_head ''POST'' ''/u'' [] demo_upload_headers, part_head ''Q'' ?ph @ ''da'', ''ta'' @ crlf @ closing ''Q'' @ crlf]"
    unfolding upload_chunks_def by (intro exI [of _ "''da''"] exI [of _ "[''ta'' @ crlf @ closing ''Q'' @ crlf]"]) (simp add: suffix_def)
  have mm: "method_of ''POST'' \<in> {kPost, kPut}" using m by simp
  from upload_to_body [OF fresh_new c mm u k sm ch, of demo_env 1] show ?thesis by blast
qed

text \<open>
  C17: an upload of one part with more than a megabyte, in chunks as they are received, goes to the
  file the part names, under the configured directory: after the last call the file holds the part's data
  with the line break of the closing delimiter, no other file has changed, and the content of the
  request is empty. The data may be cut anywhere; the head and the part's header must each come in
  one piece, as the closing delimiter must, because a call that finds them incomplete never returns.
\<close>

theorem upload_to_file:
  assumes "fresh cx" and "request_ok m path ps hs" and "method_of m \<in> {kPost, kPut}"
    and "upload_headers bd hs (length (part_body bd ph d))" and "part_ok bd ph d"
    and "\<not> small (part_body bd ph d)" and "int (length (part_body bd ph d)) \<le> INT_MAX"
    and "upload_chunks (render_head m path ps hs) bd ph d chunks"
    and "pe_videoPath env = Some dir" and "pe_dirOk env dir"
    and "part_filename (pe_junk env) ph = Inr name" and "pe_canOpen env (dir @ ''/'' @ name)"
    and "fw_file (rq_fileWriter (cx_request cx)) = None"
  shows "\<exists>cx'. feed env now chunks cx = Some (Returned True False cx') \<and> gotAll cx' \<and> rest cx' = crlf \<and>
      fw_disk (rq_fileWriter (cx_request cx')) =
        (fw_disk (rq_fileWriter (cx_request cx)))(dir @ ''/'' @ name \<mapsto> d @ crlf) \<and>
      rq_content (cx_request cx') = [] \<and>
      rq_headers (cx_request cx') = map_of (rev hs)"
  by (rule upload_large [OF assms])

definition demo_large_headers :: "(string \<times> string) list" where
  "demo_large_headers =
     [(''Content-Type'', ''multipart/form-data; boundary=Q''), (''Content-Length'', ''1048642'')]"

lemma demo_part_large:
  "part_ok ''Q'' ''name=\"f\"; filename=\"a.b\"'' (replicate 1048600 (CHR ''x''))"
proof -
  let ?d = "replicate 1048600 (CHR ''x'')"
  have "CHR ''-'' \<notin> set (?d @ crlf)" by simp
  then have "find_sub (CHR ''-'' # ''-Q--'') ((?d @ crlf) @ CHR ''-'' # ''-Q--'' @ []) =
      Some (length (?d @ crlf))" by (rule find_sub_skip)
  then show ?thesis by (simp add: part_ok_def closing_def crlfcrlf_def)
qed

lemma upload_to_file_witness:
  "\<exists>cx' chunks. feed demo_env 1 chunks (new_context 0) = Some (Returned True False cx') \<and>
    chunks = [render_head ''POST'' ''/u'' [] demo_large_headers @
        part_head ''Q'' ''name=\"f\"; filename=\"a.b\"'' @ replicate 1000000 (CHR ''x''),
      replicate 48600 (CHR ''x'') @ crlf @ closing ''Q'' @ crlf] \<and>
    fw_disk (rq_fileWriter (cx_request cx')) ''up/a.b'' = Some (replicate 1048600 (CHR ''x'') @ crlf)"
proof -
  let ?ph = "''name=\"f\"; filename=\"a.b\"''" and ?d = "replicate 1048600 (CHR ''x'')"
  let ?c = "replicate 1000000 (CHR ''x'')" and ?z = "replicate 48600 (CHR ''x'') @ crlf @ closing ''Q'' @ crlf"
  let ?h = "render_head ''POST'' ''/u'' [] demo_large_headers"
  have len: "length (part_body ''Q'' ?ph ?d) = 1048642"
    by (simp add: part_body_def part_head_def crlfcrlf_def)
  have c: "request_ok ''POST'' ''/u'' [] demo_large_headers" and m: "method_of ''POST'' = kPost"
    and pf: "part_filename (pe_junk demo_env) ?ph = Inr ''a.b''" and dr: "pe_videoPath demo_env = Some ''up''"
    and fw: "fw_file (rq_fileWriter (cx_request (new_context 0))) = None"
    by code_simp+
  have u: "upload_headers ''Q'' demo_large_headers (length (part_body ''Q'' ?ph ?d))"
    unfolding len by (simp add: upload_headers_def demo_large_headers_def dec.simps num_simps lookup_str_def)
  have "?c @ replicate 48600 (CHR ''x'') = ?d" by (simp flip: replicate_add)
  then have "?c @ concat [?z] = ?d @ crlf @ closing ''Q'' @ crlf" by (metis append.assoc concat.simps append_Nil2)
  then have ch: "upload_chunks ?h ''Q'' ?ph ?d [?h @ part_head ''Q'' ?ph @ ?c, ?z]"
    unfolding upload_chunks_def by (intro exI [of _ ?c] exI [of _ "[?z]"]) (simp add: suffix_def)
  have mm: "method_of ''POST'' \<in> {kPost, kPut}" using m by simp
  have sz: "\<not> small (part_body ''Q'' ?ph ?d)" "int (length (part_body ''Q'' ?ph ?d)) \<le> INT_MAX"
    unfolding small_def len by simp_all
  have en: "pe_dirOk demo_env ''up''" "pe_canOpen demo_env (''up'' @ ''/'' @ ''a.b'')" by (simp_all add: demo_env_def)
  from upload_to_file [OF fresh_new c mm u demo_part_large sz ch dr en(1) pf en(2) fw, of 1] obtain cx' where
    "feed demo_env 1 [?h @ part_head ''Q'' ?ph @ ?c, ?z] (new_context 0) = Some (Returned True False cx')"
    "fw_disk (rq_fileWriter (cx_request cx')) = (fw_disk (rq_fileWriter (cx_request (new_context 0))))(''up'' @ ''/'' @ ''a.b'' \<mapsto> ?d @ crlf)"
    by blast
  then show ?thesis by (intro exI conjI) (assumption, rule refl, simp)
qed

text \<open>
  A closing delimiter that is cut: once all the data of the part is stored, a call with bytes in
  which the delimiter is not complete takes none of them and goes round for ever.
\<close>

theorem cut_delimiter_hangs:
  assumes "mid_part bd n 0 cx" and "cx_buffer cx = []" and "c \<noteq> []" and "find_sub (closing bd) c = None"
  shows "parseRequest env c now cx = None"
proof -
  let ?S = "{(False, False, x) | x. mid_part bd n 0 x \<and> cx_buffer x = c}"
  have step: "\<exists>s' \<in> ?S. parse_iter env now (False, False, x) = Inr s'" if x: "mid_part bd n 0 x" "cx_buffer x = c" for x
  proof -
    have p: "cx_parsed_pos x = 0" "rq_boundary (cx_request x) = bd" "length (closing bd) \<le> n"
        "rq_contentLength (cx_request x) = of_nat n" "cx_body_bytes_received x = of_nat (n - length (closing bd))"
        "cx_state x = kExpectBody" "bd \<noteq> []" "rq_fileHeader (cx_request x) \<noteq> []"
      using x(1) by (simp_all add: mid_part_def)
    have r: "rest x = c" using p(1) x(2) by (simp add: rest_def)
    have lim: "min (unat (of_nat n - of_nat (length (closing bd)) - of_nat (n - length (closing bd)) :: u64)) (length c) = 0"
      using p(3) by (simp add: of_nat_diff)
    let ?x = "x\<lparr>cx_request := store_data [] (cx_request x)\<rparr>"
    have "part_data_step x = Part_break False ?x"
      unfolding part_data_step_def Let_def ending_closing [OF p(2)] r assms(4) option.case p(1,4,5) x(2) lim
      using p(1,5) x(2) by (cases x) simp
    then have "multipart_loop env (False, False, x) = Inr (False, False, ?x)"
      using p(1,8) x(2) assms(3) by (subst multipart_loop.simps) (simp add: part_iter_def)
    then have "parse_iter env now (False, False, x) = Inr (False, False, ?x)"
      using p(2,6,7) by (simp add: parse_iter_def body_step_def)
    moreover have "mid_part bd n 0 ?x \<and> cx_buffer ?x = c"
      using x by (simp add: mid_part_def store_data_def appendBody_def)
    ultimately show ?thesis by blast
  qed
  have "parse_loop env now (False, False, cx\<lparr>cx_buffer := c\<rparr>) = None"
  proof (rule parse_loop_diverges [of _ ?S])
    show "(False, False, cx\<lparr>cx_buffer := c\<rparr>) \<in> ?S" using assms(1) by (simp add: mid_part_def)
    show "rest x \<noteq> [] \<and> (\<exists>s' \<in> ?S. parse_iter env now (ok, e, x) = Inr s')" if "(ok, e, x) \<in> ?S" for ok e x
      using that step assms(3) by (auto simp: rest_def mid_part_def)
  qed
  then show ?thesis using assms(2) by (simp add: parseRequest_def)
qed

text \<open>
  C33: the parser waits for a line inside the loop, not for the next call: when the bytes of
  the request line have arrived without their line break, the call never returns.
\<close>

theorem incomplete_line_hangs:
  assumes "cx_state cx \<in> {kExpectRequestLine, kExpectHeaders}"
    and "cx_parsed_pos cx \<le> length (cx_buffer cx)"
    and "rest cx @ buf \<noteq> []" and "find_sub crlf (rest cx @ buf) = None"
  shows "parseRequest env buf now cx = None"
proof -
  let ?cx = "cx\<lparr>cx_buffer := cx_buffer cx @ buf\<rparr>"
  have "rest ?cx = rest cx @ buf" using assms(2) by (simp add: rest_def)
  then show ?thesis
    using assms(1,3,4) request_line_incomplete [of ?cx] headers_incomplete [of ?cx]
    by (auto simp: parseRequest_def)
qed

lemma incomplete_line_hangs_witness:
  "parseRequest demo_env ''GET / HTT'' 0 (new_context 0) = None"
  by (rule incomplete_line_hangs) (simp_all add: new_context_def rest_def)

text \<open>
  A request whose method is none of the five known words (\<open>HEAD\<close> and \<open>PATCH\<close> are
  such) leaves the loop of the parser in the state it was in: the call never returns.
\<close>

theorem unknown_method_hangs:
  assumes "fresh cx" and "method_of m = kInvalid" and "CHR '' '' \<notin> set m"
    and "CR \<notin> set m" and "CR \<notin> set t"
  shows "parseRequest env (m @ '' '' @ t @ crlf @ b) now cx = None"
proof -
  let ?cx = "cx\<lparr>cx_buffer := m @ '' '' @ t @ crlf @ b\<rparr>"
  let ?l = "m @ '' '' @ t"
  have r: "rest ?cx = ?l @ CR # [LF] @ b" using assms(1) by (simp add: rest_def fresh_def)
  have "CR \<notin> set ?l" using assms(4,5) by simp
  then have f: "find_sub crlf (rest ?cx) = Some (length ?l)" unfolding r by (rule find_sub_skip)
  have sp: "find_char (CHR '' '') (m @ CHR '' '' # t) = Some (length m)"
    using assms(3) by (rule find_char_skip)
  have line: "take (length ?l) (rest ?cx) = ?l" unfolding r by simp
  have "(cx_request cx)\<lparr>rq_method := kInvalid\<rparr> = cx_request cx"
    using assms(1) by (simp add: fresh_def)
  then have "processRequestLine (take (length ?l) (rest ?cx)) (cx_request ?cx) =
      Some (False, cx_request ?cx)"
    using assms(1,2) sp unfolding line by (simp add: processRequestLine_def setMethod_def fresh_def)
  with request_line_unknown [OF f] r assms(1) show ?thesis
    by (simp add: parseRequest_def fresh_def)
qed

lemma unknown_method_hangs_witness:
  "parseRequest demo_env (''HEAD'' @ '' '' @ ''/ HTTP/1.1'' @ crlf @ ''Host: h'' @ crlf @ crlf) 0
     (new_context 0) = None"
proof -
  have "rest (new_context 0) = []" by code_simp
  then show ?thesis
    using unknown_method_hangs [of "new_context 0" "''HEAD''" "''/ HTTP/1.1''"] by (simp add: method_of_def)
qed

text \<open>
  A request line with a known method and another version than HTTP/1.0 and HTTP/1.1 is
  parsed a second time, with the method already set: the assertion in \<open>setMethod\<close>
  aborts the process.
\<close>

theorem bad_version_aborts:
  assumes "fresh cx" and "method_of m \<noteq> kInvalid" and "CHR '' '' \<notin> set t" and "CR \<notin> set t"
    and "CR \<notin> set v" and "v \<noteq> ''HTTP/1.0''" and "v \<noteq> ''HTTP/1.1''"
    and "length (m @ '' '' @ t @ '' '' @ v) \<le> 1024"
  shows "parseRequest env (m @ '' '' @ t @ '' '' @ v @ crlf @ b) now cx = Some Aborted"
proof -
  let ?cx = "cx\<lparr>cx_buffer := m @ '' '' @ t @ '' '' @ v @ crlf @ b\<rparr>"
  let ?l = "m @ '' '' @ t @ '' '' @ v"
  have plain: "CHR '' '' \<notin> set m" "CR \<notin> set m" using known_method_plain assms(2) by auto
  have r: "rest ?cx = ?l @ CR # [LF] @ b" using assms(1) by (simp add: rest_def fresh_def)
  have "CR \<notin> set ?l" using assms(4,5) plain by simp
  then have f: "find_sub crlf (rest ?cx) = Some (length ?l)" unfolding r by (rule find_sub_skip)
  have line: "take (length ?l) (rest ?cx) = ?l" unfolding r by simp
  have sp: "find_char (CHR '' '') (m @ CHR '' '' # t @ CHR '' '' # v) = Some (length m)"
    using plain(1) by (rule find_char_skip)
  have sp2: "find_char (CHR '' '') (t @ CHR '' '' # v) = Some (length t)"
    using assms(3) by (rule find_char_skip)
  have "length v = 8 \<and> take 7 v = ''HTTP/1.'' \<longrightarrow> v ! 7 \<noteq> CHR ''1'' \<and> v ! 7 \<noteq> CHR ''0''"
  proof (intro impI)
    assume a: "length v = 8 \<and> take 7 v = ''HTTP/1.''"
    then have "take (Suc 7) v = take 7 v @ [v ! 7]" by (intro take_Suc_conv_app_nth) simp
    with a have "v = take 7 v @ [v ! 7]" by simp
    with a assms(6,7) show "v ! 7 \<noteq> CHR ''1'' \<and> v ! 7 \<noteq> CHR ''0''" by auto
  qed
  then have bad: "set_http_version v q = (False, q)" for q by (simp add: set_http_version_def)
  let ?r = "set_target t ((cx_request cx)\<lparr>rq_method := method_of m\<rparr>)"
  have "rq_method ?r = method_of m"
    by (simp add: set_target_def setQueryParameters_def setPath_def split: option.split)
  then have "processRequestLine ?l ?r = None"
    using sp assms(2) by (simp add: processRequestLine_def setMethod_def)
  moreover have "processRequestLine ?l (cx_request ?cx) = Some (False, ?r)"
    using assms(1,2) sp sp2 bad by (simp add: processRequestLine_def setMethod_def fresh_def)
  ultimately have "parse_loop env now (False, False, ?cx) = Some Aborted"
    using assms(1,8) by (intro request_line_bad_version [OF f, where r = ?r])
      (simp_all only: line, simp_all add: fresh_def)
  then show ?thesis using assms(1) by (simp add: parseRequest_def fresh_def)
qed

lemma bad_version_aborts_witness:
  "parseRequest demo_env (''GET'' @ '' '' @ ''/'' @ '' '' @ ''HTTP/2.0'' @ crlf @ crlf) 0 (new_context 0) =
     Some Aborted"
  by (rule bad_version_aborts) (simp_all add: method_of_def)

text \<open>
  C6: the parser keeps its invariant: after every call that returns or throws, the read
  position is inside the buffer and is 0 once a part header is stored; a call that returns
  true has a complete request; a call that reports an error and returns false leaves the
  context as good as new, and every other call leaves it in the state it was in or in a
  later one.
\<close>

theorem parser_invariant:
  assumes "ctx_ok cx" and "parseRequest env buf now cx = Some res"
  shows "case res of
      Returned ok e cx' \<Rightarrow> ctx_ok cx' \<and> (ok \<longrightarrow> gotAll cx') \<and>
        (if e \<and> \<not> ok then fresh cx' else cx_state cx \<le> cx_state cx')
    | Threw x cx' \<Rightarrow> ctx_ok cx' \<and> cx_state cx \<le> cx_state cx'
    | Aborted \<Rightarrow> True"
  using parseRequest_ok [OF assms] parseRequest_forward [OF assms(2)]
  by (auto simp: result_ok_def went_on_def split: parse_result.splits)

lemma parser_invariant_witness:
  "case the (parseRequest demo_env [] 0 (new_context 0)) of
      Returned ok e cx' \<Rightarrow> ctx_ok cx' \<and> (ok \<longrightarrow> gotAll cx') \<and>
        (if e \<and> \<not> ok then fresh cx' else cx_state (new_context 0) \<le> cx_state cx')
    | Threw x cx' \<Rightarrow> ctx_ok cx' \<and> cx_state (new_context 0) \<le> cx_state cx'
    | Aborted \<Rightarrow> True"
proof (rule parser_invariant)
  show "ctx_ok (new_context 0)" by (rule fresh_ctx_ok) simp
  show "parseRequest demo_env [] 0 (new_context 0) = Some (the (parseRequest demo_env [] 0 (new_context 0)))"
    by (simp add: parseRequest_def parse_loop_end rest_def new_context_def)
qed

text \<open>
  The name under which an upload is stored has a base of at most 10 characters and
  at most one extension, and is made of letters, digits, underscores and dots only: the
  client cannot name another directory.
\<close>

theorem sanitized_name:
  assumes "sanitizeFilename junk raw = Inr f"
  shows "CHR ''/'' \<notin> set f \<and> (\<exists>base ext. f = base @ ext \<and> length base \<le> 10 \<and>
    (ext = [] \<or> (hd ext = CHR ''.'' \<and> CHR ''.'' \<notin> set (tl ext))))"
proof -
  have "\<not> file_char (CHR ''/'')" using alnum_plain by (auto simp: file_char_def)
  with sanitizeFilename_form [OF assms] show ?thesis
    by (auto simp: MAX_BASENAME_LENGTH_def)
qed

lemma sanitized_name_witness:
  "sanitizeFilename 0 ''..%2F..%2Fpasswd.conf'' = Inr ''.._.._pass.conf'' \<and>
    CHR ''/'' \<notin> set ''.._.._pass.conf''"
proof -
  have s: "sanitizeFilename 0 ''..%2F..%2Fpasswd.conf'' = Inr ''.._.._pass.conf''" by code_simp
  with sanitized_name [OF s] show ?thesis by simp
qed

text \<open>
  Percent-decoding undoes percent-encoding, for every byte string, and never reads
  the uninitialised variable on such an input.
\<close>

theorem urlDecode_url_encode: "urlDecode junk (url_encode s) = Inr s"
  by (rule urlDecode_encode)

end
