(* ===== verification/Router.thy ===== *)
theory Router
  imports HttpRequest HttpResponse
begin

text \<open>
  The router of \<open>include/route/router.h\<close> and \<open>src/route/router.cpp\<close>. A handler
  object and a callback are both a function on the request and the world it can change (the
  response and a state \<open>'s\<close> of the server's own), which may end in an exception. The
  regular expression of an ordinary path pattern is a list of literal characters, dots and
  groups \<open>([^/]+)\<close>, and its matching is defined here. A pattern that copies other characters
  into the expression that \<open>std::regex\<close> gives a meaning to (quantifiers, brackets, anchors,
  alternatives) makes an expression whose matching is a parameter, \<open>std\<close>: what
  \<open>std::regex_match\<close> does with this text. An expression that the constructor of \<open>std::regex\<close>
  refuses ends the program while the routes are registered, so a router has none.
\<close>

section \<open>Path patterns\<close>

datatype rx_item = Lit char | Dot | Group

lemma length_dropWhile_less: "length (dropWhile P xs) < Suc (Suc (Suc (length xs)))"
  by (meson le_imp_less_Suc length_dropWhile_le less_SucI)

function path_items :: "string \<Rightarrow> rx_item list" where
  "path_items [] = []"
| "path_items (c # s) =
     (case s of
        d # e # r \<Rightarrow>
          if c = CHR ''/'' \<and> d = CHR '':'' \<and> e \<noteq> CHR ''/''
          then Lit c # Group # path_items (dropWhile (\<lambda>x. x \<noteq> CHR ''/'') r)
          else (if c = CHR ''.'' then Dot else Lit c) # path_items s
      | _ \<Rightarrow> (if c = CHR ''.'' then Dot else Lit c) # path_items s)"
  by pat_completeness auto
termination
  by (relation "measure length") (auto intro: length_dropWhile_less)

declare path_items.simps [simp del]

lemma convert_Nil [simp]: "path_items [] = []"
  by (simp add: path_items.simps)

lemma convert_group:
  "e \<noteq> CHR ''/'' \<Longrightarrow> path_items (CHR ''/'' # CHR '':'' # e # r) =
     Lit (CHR ''/'') # Group # path_items (dropWhile (\<lambda>x. x \<noteq> CHR ''/'') r)"
  by (simp add: path_items.simps(2))

lemma convert_other:
  "c \<noteq> CHR ''/'' \<or> s = [] \<or> hd s \<noteq> CHR '':'' \<Longrightarrow>
     path_items (c # s) = (if c = CHR ''.'' then Dot else Lit c) # path_items s"
  by (subst path_items.simps(2)) (auto split: list.splits)

text \<open>
  The expression that is compiled, and what its compilation gives: the characters copied from the
  pattern stand for themselves only if they have no meaning in an expression (a NUL is not taken
  for an ordinary character by the scanner of the library either).
\<close>

fun item_text :: "rx_item \<Rightarrow> string" where
  "item_text (Lit c) = [c]"
| "item_text Dot = ''.''"
| "item_text Group = ''([^/]+)''"

definition regexPattern :: "rx_item list \<Rightarrow> string" where
  "regexPattern rx = ''^'' @ concat (map item_text rx) @ ''$''"

definition special_chars :: string where
  "special_chars = CHR 0x00 # CHR 0x5C # ''^$.*+?()[]{}|''"

fun ordinary :: "rx_item \<Rightarrow> bool" where
  "ordinary (Lit c) = (c \<notin> set special_chars)"
| "ordinary Dot = True"
| "ordinary Group = True"

datatype path_regex = Ordinary "rx_item list" | Other "string \<Rightarrow> string list option"

type_synonym std_regex = "string \<Rightarrow> string \<Rightarrow> string list option"

definition convertToRegex :: "std_regex \<Rightarrow> string \<Rightarrow> path_regex" where
  "convertToRegex std pathPattern =
     (let rx = path_items pathPattern
      in if list_all ordinary rx then Ordinary rx else Other (std (regexPattern rx)))"

text \<open>
  \<open>std::regex_match\<close> on an ordinary expression: the whole string must match; a group takes
  as many characters other than \<open>/\<close> as it can and gives back what the rest needs. The
  result is the list of the captures. \<open>.\<close> matches all but a line terminator.
\<close>

fun first_match :: "(string \<Rightarrow> string list option) \<Rightarrow> string \<Rightarrow> nat \<Rightarrow> string list option" where
  "first_match m s 0 = None"
| "first_match m s (Suc n) =
     (case m (drop (Suc n) s) of
        Some gs \<Rightarrow> Some (take (Suc n) s # gs)
      | None \<Rightarrow> first_match m s n)"

primrec match_items :: "rx_item list \<Rightarrow> string \<Rightarrow> string list option" where
  "match_items [] = (\<lambda>s. if s = [] then Some [] else None)"
| "match_items (i # rx) = (\<lambda>s.
     (case i of
        Lit c \<Rightarrow> (case s of [] \<Rightarrow> None | x # xs \<Rightarrow> if x = c then match_items rx xs else None)
      | Dot \<Rightarrow> (case s of [] \<Rightarrow> None | x # xs \<Rightarrow> if x = CR \<or> x = LF then None else match_items rx xs)
      | Group \<Rightarrow> first_match (match_items rx) s (length (takeWhile (\<lambda>x. x \<noteq> CHR ''/'') s))))"

fun regex_match :: "path_regex \<Rightarrow> string \<Rightarrow> string list option" where
  "regex_match (Ordinary rx) = match_items rx"
| "regex_match (Other f) = f"

text \<open>\<open>match[i]\<close> for \<open>i \<ge> 1\<close> becomes the parameter \<open>param<i>\<close>.\<close>

fun extractPathParameters_from :: "nat \<Rightarrow> string list \<Rightarrow> http_request \<Rightarrow> http_request" where
  "extractPathParameters_from i [] r = r"
| "extractPathParameters_from i (g # gs) r =
     extractPathParameters_from (Suc i) gs (setPathParameters (''param'' @ dec i) g r)"

definition extractPathParameters :: "string list \<Rightarrow> http_request \<Rightarrow> http_request" where
  "extractPathParameters gs r = extractPathParameters_from 1 gs r"

section \<open>The router\<close>

type_synonym 's handler =
  "http_request \<Rightarrow> http_response \<times> 's \<Rightarrow> cxx_exn option \<times> http_response \<times> 's"

type_synonym route_key = "http_method \<times> string"

record 's router =
  rt_handlers :: "route_key \<rightharpoonup> 's handler"
  rt_callbacks :: "route_key \<rightharpoonup> 's handler"
  rt_regexHandlers :: "(http_method \<times> path_regex \<times> 's handler) list"
  rt_regexCallbacks :: "(http_method \<times> path_regex \<times> 's handler) list"

definition new_router :: "'s router" where
  "new_router = \<lparr>rt_handlers = Map.empty, rt_callbacks = Map.empty,
     rt_regexHandlers = [], rt_regexCallbacks = []\<rparr>"

definition registerHandler :: "http_method \<Rightarrow> string \<Rightarrow> 's handler \<Rightarrow> 's router \<Rightarrow> 's router" where
  "registerHandler m p h rt = rt\<lparr>rt_handlers := (rt_handlers rt)((m, p) \<mapsto> h)\<rparr>"

definition registerCallback :: "http_method \<Rightarrow> string \<Rightarrow> 's handler \<Rightarrow> 's router \<Rightarrow> 's router" where
  "registerCallback m p h rt = rt\<lparr>rt_callbacks := (rt_callbacks rt)((m, p) \<mapsto> h)\<rparr>"

definition addRegexHandler :: "std_regex \<Rightarrow> http_method \<Rightarrow> string \<Rightarrow> 's handler \<Rightarrow> 's router \<Rightarrow> 's router" where
  "addRegexHandler std m p h rt =
     rt\<lparr>rt_regexHandlers := rt_regexHandlers rt @ [(m, convertToRegex std p, h)]\<rparr>"

definition addRegexCallback :: "std_regex \<Rightarrow> http_method \<Rightarrow> string \<Rightarrow> 's handler \<Rightarrow> 's router \<Rightarrow> 's router" where
  "addRegexCallback std m p h rt =
     rt\<lparr>rt_regexCallbacks := rt_regexCallbacks rt @ [(m, convertToRegex std p, h)]\<rparr>"

text \<open>The first dynamic route that matches, with its captures.\<close>

fun find_regex ::
  "(http_method \<times> path_regex \<times> 's handler) list \<Rightarrow> http_request \<Rightarrow> ('s handler \<times> string list) option" where
  "find_regex [] req = None"
| "find_regex ((m, rx, h) # es) req =
     (if m = rq_method req then
        (case regex_match rx (rq_path req) of
           Some gs \<Rightarrow> Some (h, gs)
         | None \<Rightarrow> find_regex es req)
      else find_regex es req)"

text \<open>\<open>return true\<close> after a call that may throw.\<close>

definition run_handler ::
  "'s handler \<Rightarrow> http_request \<Rightarrow> http_response \<times> 's \<Rightarrow> (cxx_exn + bool) \<times> http_response \<times> 's" where
  "run_handler h req w =
     (case h req w of
        (None, w') \<Rightarrow> (Inr True, w')
      | (Some e, w') \<Rightarrow> (Inl e, w'))"

text \<open>
  The regex handlers get the request with the path parameters; the regex callbacks get the
  request they were given, and the copy with the parameters is dropped.
\<close>

definition route ::
  "'s router \<Rightarrow> http_request \<Rightarrow> http_response \<times> 's \<Rightarrow> (cxx_exn + bool) \<times> http_response \<times> 's" where
  "route rt req w =
     (let key = (rq_method req, rq_path req) in
      case rt_handlers rt key of
        Some h \<Rightarrow> run_handler h req w
      | None \<Rightarrow>
          (case rt_callbacks rt key of
             Some cb \<Rightarrow> run_handler cb req w
           | None \<Rightarrow>
               (case find_regex (rt_regexHandlers rt) req of
                  Some (h, gs) \<Rightarrow> run_handler h (extractPathParameters gs req) w
                | None \<Rightarrow>
                    (case find_regex (rt_regexCallbacks rt) req of
                       Some (cb, gs) \<Rightarrow> run_handler cb req w
                     | None \<Rightarrow> (Inr False, w)))))"

section \<open>Dynamic routes as they are written\<close>

text \<open>
  A pattern of segments: \<open>/name\<close> or \<open>/:name\<close>, and the paths it is meant for. A fixed
  segment has no character with a meaning in an expression: the pattern \<open>/a+b\<close> takes the path
  \<open>/aab\<close> and not \<open>/a+b\<close>.
\<close>

datatype segment = Fixed string | Param string

definition fixed_ok :: "string \<Rightarrow> bool" where
  "fixed_ok s \<longleftrightarrow> CHR ''/'' \<notin> set s \<and> CHR '':'' \<notin> set s \<and> set s \<inter> set special_chars = {}"

definition value_ok :: "string \<Rightarrow> bool" where
  "value_ok v \<longleftrightarrow> v \<noteq> [] \<and> CHR ''/'' \<notin> set v"

fun segment_ok :: "segment \<Rightarrow> bool" where
  "segment_ok (Fixed s) = fixed_ok s"
| "segment_ok (Param n) = value_ok n"

fun render_pattern :: "segment list \<Rightarrow> string" where
  "render_pattern [] = []"
| "render_pattern (Fixed s # ss) = CHR ''/'' # s @ render_pattern ss"
| "render_pattern (Param n # ss) = CHR ''/'' # CHR '':'' # n @ render_pattern ss"

fun fill_path :: "segment list \<Rightarrow> string list \<Rightarrow> string" where
  "fill_path [] vs = []"
| "fill_path (Fixed s # ss) vs = CHR ''/'' # s @ fill_path ss vs"
| "fill_path (Param n # ss) (v # vs) = CHR ''/'' # v @ fill_path ss vs"
| "fill_path (Param n # ss) [] = []"

fun params :: "segment list \<Rightarrow> nat" where
  "params [] = 0"
| "params (Fixed s # ss) = params ss"
| "params (Param n # ss) = Suc (params ss)"

definition slash_first :: "string \<Rightarrow> bool" where
  "slash_first s \<longleftrightarrow> s = [] \<or> hd s = CHR ''/''"

lemma slash_first_render [simp]: "slash_first (render_pattern ss)"
  by (cases ss rule: render_pattern.cases) (simp_all add: slash_first_def)

lemma slash_first_fill [simp]: "slash_first (fill_path ss vs)"
  by (cases "(ss, vs)" rule: fill_path.cases) (simp_all add: slash_first_def)

lemma takeWhile_slash:
  "CHR ''/'' \<notin> set v \<Longrightarrow> slash_first s \<Longrightarrow> takeWhile (\<lambda>x. x \<noteq> CHR ''/'') (v @ s) = v"
  by (cases s) (auto simp: slash_first_def takeWhile_append dest: set_takeWhileD)

lemma dropWhile_slash:
  "CHR ''/'' \<notin> set v \<Longrightarrow> slash_first s \<Longrightarrow> dropWhile (\<lambda>x. x \<noteq> CHR ''/'') (v @ s) = s"
  by (cases s) (auto simp: slash_first_def dropWhile_append)

lemma fixed_ok_dot: "fixed_ok s \<Longrightarrow> CHR ''.'' \<notin> set s"
  by (auto simp: fixed_ok_def special_chars_def)

lemma convert_plain:
  "fixed_ok s \<Longrightarrow> path_items (s @ t) = map Lit s @ path_items t"
proof (induction s)
  case (Cons c s)
  then show ?case using fixed_ok_dot [OF Cons.prems] by (auto simp: fixed_ok_def convert_other)
qed simp

lemma convert_fixed:
  assumes "fixed_ok s" and "slash_first t"
  shows "path_items (CHR ''/'' # s @ t) = Lit (CHR ''/'') # map Lit s @ path_items t"
proof -
  have "s @ t = [] \<or> hd (s @ t) \<noteq> CHR '':''"
    using assms by (cases s) (auto simp: fixed_ok_def slash_first_def)
  then show ?thesis using convert_plain [OF assms(1), of t] by (simp add: convert_other)
qed

lemma convert_param:
  assumes "value_ok n" and "slash_first t"
  shows "path_items (CHR ''/'' # CHR '':'' # n @ t) = Lit (CHR ''/'') # Group # path_items t"
proof -
  obtain e r where n: "n = e # r" using assms(1) by (cases n) (auto simp: value_ok_def)
  with assms have "dropWhile (\<lambda>x. x \<noteq> CHR ''/'') (r @ t) = t"
    by (intro dropWhile_slash) (auto simp: value_ok_def)
  moreover have "e \<noteq> CHR ''/''" using assms(1) n by (auto simp: value_ok_def)
  ultimately show ?thesis using n by (simp add: convert_group)
qed

lemma fixed_ordinary: "fixed_ok s \<Longrightarrow> list_all ordinary (map Lit s)"
  by (auto simp: fixed_ok_def list_all_iff)

lemma slash_ordinary [simp]: "CHR ''/'' \<notin> set special_chars"
  by (simp add: special_chars_def)

lemma items_ordinary: "\<forall>s \<in> set ss. segment_ok s \<Longrightarrow> list_all ordinary (path_items (render_pattern ss))"
proof (induction ss)
  case (Cons seg ss)
  then show ?case by (cases seg) (simp_all add: convert_fixed convert_param fixed_ordinary del: list.pred_map)
qed simp

lemma convert_ordinary:
  "\<forall>s \<in> set ss. segment_ok s \<Longrightarrow>
     convertToRegex std (render_pattern ss) = Ordinary (path_items (render_pattern ss))"
  using items_ordinary by (simp add: convertToRegex_def Let_def)

lemma match_lits: "match_items (map Lit s @ rx) (s @ t) = match_items rx t"
  by (induction s) auto

lemma first_match_all:
  assumes "v \<noteq> []" and "m t = Some gs"
  shows "first_match m (v @ t) (length v) = Some (v # gs)"
proof -
  obtain n where "length v = Suc n" using assms(1) by (cases v) auto
  then show ?thesis using assms(2) by (metis append_eq_conv_conj first_match.simps(2) option.case(2))
qed

lemma match_group:
  assumes "value_ok v" and "slash_first t" and "match_items rx t = Some gs"
  shows "match_items (Group # rx) (v @ t) = Some (v # gs)"
  using assms first_match_all [of v "match_items rx" t gs] takeWhile_slash [of v t]
  by (simp add: value_ok_def)

lemma match_filled:
  "\<forall>s \<in> set ss. segment_ok s \<Longrightarrow> \<forall>v \<in> set vs. value_ok v \<Longrightarrow> length vs = params ss \<Longrightarrow>
     match_items (path_items (render_pattern ss)) (fill_path ss vs) = Some vs"
proof (induction ss vs rule: fill_path.induct)
  case (2 s ss vs)
  then show ?case by (simp add: convert_fixed match_lits)
next
  case (3 n ss v vs)
  then have "match_items (path_items (render_pattern ss)) (fill_path ss vs) = Some vs" by simp
  with 3 have "match_items (Group # path_items (render_pattern ss)) (v @ fill_path ss vs) =
      Some (v # vs)" by (intro match_group) simp_all
  with 3 show ?case
    by (simp add: convert_param)
qed simp_all

lemma dec_inj: "dec m = dec n \<Longrightarrow> m = n"
  by (metis digits_val_dec)

lemma extract_from_other:
  "rq_method (extractPathParameters_from i gs r) = rq_method r"
  "rq_path (extractPathParameters_from i gs r) = rq_path r"
  by (induction i gs r rule: extractPathParameters_from.induct) (simp_all add: setPathParameters_def)

lemma extract_from_before:
  "j < i \<Longrightarrow> getPathParameters (''param'' @ dec j) (extractPathParameters_from i gs r) =
     getPathParameters (''param'' @ dec j) r"
  by (induction i gs r rule: extractPathParameters_from.induct)
    (auto simp: setPathParameters_def getPathParameters_def dest: dec_inj)

lemma extract_from_at:
  "i \<le> j \<Longrightarrow> j < i + length gs \<Longrightarrow>
     getPathParameters (''param'' @ dec j) (extractPathParameters_from i gs r) = gs ! (j - i)"
proof (induction i gs r arbitrary: j rule: extractPathParameters_from.induct)
  case (2 i g gs r)
  show ?case
  proof (cases "j = i")
    case True
    then show ?thesis
      using extract_from_before [of i "Suc i" gs "setPathParameters (''param'' @ dec i) g r"]
      by (simp add: setPathParameters_def getPathParameters_def)
  next
    case False
    with 2 show ?thesis by (simp add: nth_Cons' Suc_diff_le le_Suc_eq)
  qed
qed simp


section \<open>Properties\<close>

text \<open>
  Registration and routing agree: after a handler is registered for a method and a path,
  exactly the requests with this method and path go to it; a registered callback is
  reached by these requests unless a handler has the same key; every other request is routed
  as before.
\<close>

theorem route_registered:
  "route (registerHandler m p h rt) req w =
     (if rq_method req = m \<and> rq_path req = p then run_handler h req w else route rt req w) \<and>
   route (registerCallback m p h rt) req w =
     (if rq_method req = m \<and> rq_path req = p \<and> rt_handlers rt (m, p) = None
      then run_handler h req w else route rt req w)"
  by (auto simp: route_def registerHandler_def registerCallback_def Let_def split: option.splits)

lemma find_regex_append:
  "find_regex (es @ fs) req = (case find_regex es req of None \<Rightarrow> find_regex fs req | r \<Rightarrow> r)"
  by (induction es req rule: find_regex.induct) (auto split: option.splits)

text \<open>
  A dynamic handler route hands on the values of the path: when no earlier route takes
  the request, a path that fills the pattern's parameters with non-empty values without a
  slash reaches the handler, and the handler's request has the i-th value as the path
  parameter \<open>param<i>\<close>.
\<close>

theorem dynamic_route_params:
  assumes "rt_handlers rt (m, fill_path ss vs) = None" and "rt_callbacks rt (m, fill_path ss vs) = None"
    and "find_regex (rt_regexHandlers rt) req = None"
    and "rq_method req = m" and "rq_path req = fill_path ss vs"
    and "\<forall>s \<in> set ss. segment_ok s" and "\<forall>v \<in> set vs. value_ok v" and "length vs = params ss"
  shows "route (addRegexHandler std m (render_pattern ss) h rt) req w =
      run_handler h (extractPathParameters vs req) w \<and>
    (\<forall>i < length vs. getPathParameters (''param'' @ dec (Suc i)) (extractPathParameters vs req) = vs ! i)"
proof
  show "route (addRegexHandler std m (render_pattern ss) h rt) req w =
      run_handler h (extractPathParameters vs req) w"
    using assms match_filled [OF assms(6-8)] convert_ordinary [OF assms(6)]
    by (simp add: route_def addRegexHandler_def Let_def find_regex_append)
  show "\<forall>i < length vs. getPathParameters (''param'' @ dec (Suc i)) (extractPathParameters vs req) = vs ! i"
    using extract_from_at [of 1 _ vs req] by (simp add: extractPathParameters_def)
qed

definition echo_param :: "unit handler" where
  "echo_param req = (\<lambda>(resp, s). (None, setBody_rs (getPathParameters ''param1'' req) resp, s))"

definition demo_request :: http_request where
  "demo_request = new_request\<lparr>rq_method := kGet, rq_path := ''/user/42''\<rparr>"

lemma dynamic_route_params_witness:
  "rs_body (fst (snd (route (addRegexHandler (\<lambda>_ _. None) kGet ''/user/:id'' echo_param new_router) demo_request
     (new_response True, ())))) = ''42''"
proof -
  let ?ss = "[Fixed ''user'', Param ''id'']" and ?vs = "[''42'']"
  have "render_pattern ?ss = ''/user/:id''" and "fill_path ?ss ?vs = ''/user/42''"
    and "\<forall>s \<in> set ?ss. segment_ok s" and "\<forall>v \<in> set ?vs. value_ok v"
    and "''param'' @ dec (Suc 0) = ''param1''"
    by code_simp+
  with dynamic_route_params [of "new_router" kGet ?ss ?vs demo_request "\<lambda>_ _. None" echo_param "(new_response True, ())"]
  show ?thesis
    by (auto simp: new_router_def demo_request_def run_handler_def echo_param_def setBody_rs_def)
qed

text \<open>
  A dynamic callback route drops them: the callback is called with the request as it
  came, without the parameters of the path.
\<close>

theorem dynamic_callback_without_params:
  assumes "rt_handlers rt (m, fill_path ss vs) = None" and "rt_callbacks rt (m, fill_path ss vs) = None"
    and "find_regex (rt_regexHandlers rt) req = None" and "find_regex (rt_regexCallbacks rt) req = None"
    and "rq_method req = m" and "rq_path req = fill_path ss vs"
    and "\<forall>s \<in> set ss. segment_ok s" and "\<forall>v \<in> set vs. value_ok v" and "length vs = params ss"
  shows "route (addRegexCallback std m (render_pattern ss) cb rt) req w = run_handler cb req w"
  using assms match_filled [OF assms(7-9)] convert_ordinary [OF assms(7)]
  by (simp add: route_def addRegexCallback_def Let_def find_regex_append)

lemma dynamic_callback_without_params_witness:
  "rs_body (fst (snd (route (addRegexCallback (\<lambda>_ _. None) kGet ''/user/:id'' echo_param new_router) demo_request
     (new_response True, ())))) = []"
proof -
  let ?ss = "[Fixed ''user'', Param ''id'']" and ?vs = "[''42'']"
  have "render_pattern ?ss = ''/user/:id''" and "fill_path ?ss ?vs = ''/user/42''"
    and "\<forall>s \<in> set ?ss. segment_ok s" and "\<forall>v \<in> set ?vs. value_ok v"
    by code_simp+
  with dynamic_callback_without_params [of "new_router" kGet ?ss ?vs demo_request "\<lambda>_ _. None" echo_param
      "(new_response True, ())"]
  show ?thesis
    by (auto simp: new_router_def demo_request_def run_handler_def echo_param_def setBody_rs_def
        getPathParameters_def new_request_def)
qed

definition takes :: "http_request \<Rightarrow> http_method \<times> path_regex \<times> 's handler \<Rightarrow> bool" where
  "takes req = (\<lambda>(m, rx, h). m = rq_method req \<and> regex_match rx (rq_path req) \<noteq> None)"

lemma find_regex_None: "find_regex es req = None \<longleftrightarrow> (\<forall>e \<in> set es. \<not> takes req e)"
  by (induction es req rule: find_regex.induct) (auto simp: takes_def split: option.splits)

lemma run_handler_true [simp]: "fst (run_handler h req w) \<noteq> Inr False"
  by (auto simp: run_handler_def split: prod.splits option.splits)

text \<open>
  The router answers false exactly when no entry of its four tables fits the request,
  and then it has not touched the response.
\<close>

theorem route_not_found:
  "(fst (route rt req w) = Inr False \<longleftrightarrow>
     rt_handlers rt (rq_method req, rq_path req) = None \<and>
     rt_callbacks rt (rq_method req, rq_path req) = None \<and>
     (\<nexists>e. e \<in> set (rt_regexHandlers rt) \<and> takes req e) \<and>
     (\<nexists>e. e \<in> set (rt_regexCallbacks rt) \<and> takes req e)) \<and>
   (fst (route rt req w) = Inr False \<longrightarrow> snd (route rt req w) = w)"
  using find_regex_None [of "rt_regexHandlers rt" req] find_regex_None [of "rt_regexCallbacks rt" req]
  by (auto simp: route_def Let_def split: option.splits)

lemma route_not_found_witness:
  "snd (route new_router demo_request (new_response True, ())) = (new_response True, ())"
proof -
  have "fst (route new_router demo_request (new_response True, ())) = Inr False"
    by (simp add: route_def new_router_def)
  with route_not_found [of new_router demo_request "(new_response True, ())"] show ?thesis by simp
qed

text \<open>
  What a pattern of segments means for a path, read segment by segment: the reference the
  regular expression is measured by.
\<close>

fun match_segments :: "segment list \<Rightarrow> string \<Rightarrow> string list option" where
  "match_segments [] s = (if s = [] then Some [] else None)"
| "match_segments (seg # ss) s =
     (case s of
        [] \<Rightarrow> None
      | c # r \<Rightarrow>
          (let w = takeWhile (\<lambda>x. x \<noteq> CHR ''/'') r; rest = dropWhile (\<lambda>x. x \<noteq> CHR ''/'') r
           in if c \<noteq> CHR ''/'' then None
              else (case seg of
                      Fixed f \<Rightarrow> if w = f then match_segments ss rest else None
                    | Param n \<Rightarrow> if w = [] then None else map_option ((#) w) (match_segments ss rest))))"

lemma match_lits_prefix:
  "match_items (map Lit f @ rx) s = (if take (length f) s = f then match_items rx (drop (length f) s) else None)"
  by (induction f arbitrary: s) (auto split: list.splits)

lemma match_slash_first: "path_items (render_pattern ss) = [] \<or>
    (\<exists>rx. path_items (render_pattern ss) = Lit (CHR ''/'') # rx)" if "\<forall>s \<in> set ss. segment_ok s"
  using that by (cases ss rule: render_pattern.cases) (auto simp: convert_fixed convert_param)

lemma not_slash_first:
  "\<forall>s \<in> set ss. segment_ok s \<Longrightarrow> \<not> slash_first s \<Longrightarrow> match_items (path_items (render_pattern ss)) s = None"
  using match_slash_first [of ss] by (cases s) (auto simp: slash_first_def)

lemma take_dropWhile:
  "CHR ''/'' \<notin> set f \<Longrightarrow> take (length f) r = f \<and> slash_first (drop (length f) r) \<longleftrightarrow>
     takeWhile (\<lambda>x. x \<noteq> CHR ''/'') r = f"
proof
  assume n: "CHR ''/'' \<notin> set f" and "take (length f) r = f \<and> slash_first (drop (length f) r)"
  then have r: "r = f @ drop (length f) r" "slash_first (drop (length f) r)" by (metis append_take_drop_id)+
  show "takeWhile (\<lambda>x. x \<noteq> CHR ''/'') r = f" using takeWhile_slash [OF n r(2)] r(1) by simp
next
  assume t: "takeWhile (\<lambda>x. x \<noteq> CHR ''/'') r = f"
  have "r = f @ dropWhile (\<lambda>x. x \<noteq> CHR ''/'') r" using t takeWhile_dropWhile_id by metis
  moreover have "slash_first (dropWhile (\<lambda>x. x \<noteq> CHR ''/'') r)"
    unfolding slash_first_def using hd_dropWhile [of "\<lambda>x. x \<noteq> CHR ''/''" r] by blast
  ultimately show "take (length f) r = f \<and> slash_first (drop (length f) r)"
    by (metis append_eq_conv_conj)
qed

lemma first_match_last:
  "n \<le> length (takeWhile (\<lambda>x. x \<noteq> CHR ''/'') s) \<Longrightarrow> (\<And>t. \<not> slash_first t \<Longrightarrow> m t = None) \<Longrightarrow>
     n < length (takeWhile (\<lambda>x. x \<noteq> CHR ''/'') s) \<Longrightarrow> first_match m s n = None"
proof (induction n)
  case (Suc n)
  let ?v = "takeWhile (\<lambda>x. x \<noteq> CHR ''/'') s"
  have "drop (Suc n) s = drop (Suc n) ?v @ dropWhile (\<lambda>x. x \<noteq> CHR ''/'') s"
    using Suc.prems(1) by (metis append_take_drop_id drop_append diff_is_0_eq drop_0 takeWhile_dropWhile_id)
  moreover have "drop (Suc n) ?v \<noteq> []" "set (drop (Suc n) ?v) \<subseteq> set ?v" using Suc.prems(3)
    by (auto dest: in_set_dropD)
  ultimately have "\<not> slash_first (drop (Suc n) s)"
    by (cases "drop (Suc n) ?v") (auto simp: slash_first_def dest!: set_takeWhileD)
  then show ?case using Suc by simp
qed simp

lemma match_group_all:
  assumes "\<forall>s \<in> set ss. segment_ok s"
  shows "match_items (Group # path_items (render_pattern ss)) s =
    (let w = takeWhile (\<lambda>x. x \<noteq> CHR ''/'') s; rest = dropWhile (\<lambda>x. x \<noteq> CHR ''/'') s
     in if w = [] then None else map_option ((#) w) (match_items (path_items (render_pattern ss)) rest))"
proof -
  let ?m = "match_items (path_items (render_pattern ss))" and ?w = "takeWhile (\<lambda>x. x \<noteq> CHR ''/'') s"
  show ?thesis
  proof (cases "length ?w")
    case (Suc n)
    have "first_match ?m s n = None"
      using not_slash_first [OF assms] Suc by (intro first_match_last) auto
    moreover have "drop (Suc n) s = dropWhile (\<lambda>x. x \<noteq> CHR ''/'') s" "take (Suc n) s = ?w"
      unfolding Suc [symmetric] by (simp_all add: dropWhile_eq_drop takeWhile_eq_take [symmetric])
    ultimately show ?thesis using Suc by (auto simp: Let_def split: option.splits)
  qed (simp add: Let_def)
qed

lemma items_by_segments:
  assumes "\<forall>s \<in> set ss. segment_ok s"
  shows "match_items (path_items (render_pattern ss)) path = match_segments ss path"
  using assms
proof (induction ss arbitrary: path)
  case (Cons seg ss)
  then have ok: "\<forall>s \<in> set ss. segment_ok s" and IH: "match_items (path_items (render_pattern ss)) = match_segments ss"
    by auto
  show ?case
  proof (cases seg)
    case (Fixed f)
    have "CHR ''/'' \<notin> set f" using Cons.prems Fixed by (simp add: fixed_ok_def)
    note td = take_dropWhile [OF this]
    have "match_items (map Lit f @ path_items (render_pattern ss)) r =
      (if takeWhile (\<lambda>x. x \<noteq> CHR ''/'') r = f then match_segments ss (dropWhile (\<lambda>x. x \<noteq> CHR ''/'') r) else None)" for r
      using td [of r] not_slash_first [OF ok, of "drop (length f) r"] IH
      by (auto simp: match_lits_prefix dropWhile_eq_drop)
    then show ?thesis
      using Fixed Cons.prems by (auto simp: convert_fixed Let_def split: list.splits)
  next
    case (Param n)
    then show ?thesis
      using Cons.prems match_group_all [OF ok] IH
      by (auto simp: convert_param Let_def simp del: match_items.simps(2) split: list.splits)
         (auto)
  qed
qed simp

text \<open>
  C19: the regular expression that is built for a pattern does what the pattern says: if no fixed
  segment of it has a character that means something in an expression, it takes exactly the paths
  whose segments fit one by one, whatever the path, and captures the segments at the parameters.
\<close>

theorem dynamic_route_segments:
  assumes "\<forall>s \<in> set ss. segment_ok s"
  shows "regex_match (convertToRegex std (render_pattern ss)) path = match_segments ss path"
  using items_by_segments [OF assms] convert_ordinary [OF assms] by simp

lemma dynamic_route_segments_witness:
  "regex_match (convertToRegex (\<lambda>_ _. None) ''/user/:id/posts'') ''/user/42/posts'' = Some [''42''] \<and>
   regex_match (convertToRegex (\<lambda>_ _. None) ''/user/:id/posts'') ''/user//posts'' = None"
proof -
  let ?ss = "[Fixed ''user'', Param ''id'', Fixed ''posts'']"
  have "render_pattern ?ss = ''/user/:id/posts''" "\<forall>s \<in> set ?ss. segment_ok s"
    "match_segments ?ss ''/user/42/posts'' = Some [''42'']" "match_segments ?ss ''/user//posts'' = None"
    by code_simp+
  then show ?thesis using dynamic_route_segments [of ?ss] by metis
qed

text \<open>A character with a meaning: the expression for \<open>/a+b\<close> is left to the library.\<close>

lemma special_pattern: "convertToRegex std ''/a+b'' = Other (std ''^/a+b$'')"
proof -
  have "path_items ''/a+b'' = map Lit ''/a+b''" by (simp add: convert_other)
  then show ?thesis by (simp add: convertToRegex_def special_chars_def regexPattern_def)
qed

end
