(* ===== verification/Middleware.thy ===== *)
theory Middleware
  imports Complex_Main HttpRequest HttpResponse
begin

text \<open>
  The middleware chain (\<open>middlewareChain.cpp\<close>), the token bucket and the rate limiter
  (\<open>Rate_Limiting_Algorithm/\<close>) and the authentication middleware
  (\<open>auth/AuthMiddleware.cpp\<close>). A middleware is its two functions on the request or the
  response and a state \<open>'s\<close> that all of them share; \<open>None\<close> in the chain is a null
  pointer. The bucket's \<open>double\<close> values are rational numbers here: rounding is not
  modelled. The locale \<open>chain_invariant\<close> is the contract a chain's members owe each
  other: what each keeps of the state, the chain keeps.
\<close>

section \<open>The chain\<close>

record 's middleware =
  mw_before :: "http_request \<times> 's \<Rightarrow> cxx_exn option \<times> http_request \<times> 's"
  mw_after :: "http_response \<times> 's \<Rightarrow> cxx_exn option \<times> http_response \<times> 's"

text \<open>How a pass ends: normally, by an exception, or in a call through a null pointer.\<close>

datatype pass_end = Passed | Raised cxx_exn | Null_call

definition addMiddleware :: "'s middleware option \<Rightarrow> 's middleware option list \<Rightarrow> 's middleware option list" where
  "addMiddleware m ms = ms @ [m]"

fun processBefore ::
  "'s middleware option list \<Rightarrow> http_request \<times> 's \<Rightarrow> pass_end \<times> http_request \<times> 's" where
  "processBefore [] w = (Passed, w)"
| "processBefore (None # ms) w = (Null_call, w)"
| "processBefore (Some m # ms) w =
     (case mw_before m w of
        (None, w') \<Rightarrow> processBefore ms w'
      | (Some e, w') \<Rightarrow> (Raised e, w'))"

text \<open>The loop of \<open>processAfter\<close> over the reversed list; an exception ends it.\<close>

fun after_loop ::
  "'s middleware option list \<Rightarrow> http_response \<times> 's \<Rightarrow> cxx_exn option \<times> http_response \<times> 's" where
  "after_loop [] w = (None, w)"
| "after_loop (None # ms) w = after_loop ms w"
| "after_loop (Some m # ms) w =
     (case mw_after m w of
        (None, w') \<Rightarrow> after_loop ms w'
      | (Some e, w') \<Rightarrow> (Some e, w'))"

text \<open>The exception is caught and logged.\<close>

definition processAfter :: "'s middleware option list \<Rightarrow> http_response \<times> 's \<Rightarrow> http_response \<times> 's" where
  "processAfter ms w = snd (after_loop (rev ms) w)"

locale chain_invariant =
  fixes I :: "'s \<Rightarrow> bool" and ms :: "'s middleware option list"
  assumes before_keeps: "Some m \<in> set ms \<Longrightarrow> I s \<Longrightarrow> I (snd (snd (mw_before m (r, s))))"
    and after_keeps: "Some m \<in> set ms \<Longrightarrow> I s \<Longrightarrow> I (snd (snd (mw_after m (p, s))))"
begin

lemma before_loop_keeps: "set ms' \<subseteq> set ms \<Longrightarrow> I s \<Longrightarrow> I (snd (snd (processBefore ms' (r, s))))"
proof (induction ms' "(r, s)" arbitrary: r s rule: processBefore.induct)
  case (3 m ms')
  then show ?case
    using before_keeps [of m s r] by (auto split: prod.splits option.splits)
qed simp_all

lemma after_loop_keeps: "set ms' \<subseteq> set ms \<Longrightarrow> I s \<Longrightarrow> I (snd (snd (after_loop ms' (p, s))))"
proof (induction ms' "(p, s)" arbitrary: p s rule: after_loop.induct)
  case (3 m ms')
  then show ?case
    using after_keeps [of m s p] by (auto split: prod.splits option.splits)
qed simp_all

lemma chain_keeps:
  "I s \<Longrightarrow> I (snd (snd (processBefore ms (r, s)))) \<and> I (snd (processAfter ms (p, s)))"
  using before_loop_keeps after_loop_keeps [of "rev ms"] by (simp add: processAfter_def)

end

section \<open>The token bucket\<close>

text \<open>The conversion of a \<open>uint32_t\<close> to \<open>double\<close>.\<close>

definition to_double :: "u32 \<Rightarrow> rat" where
  "to_double w = Fract (int (unat w)) 1"

lemma to_double_nonneg [simp]: "0 \<le> to_double w"
  by (simp add: to_double_def zero_le_Fract_iff)

lemma to_double_one [simp]: "to_double 1 = 1"
  by (simp add: to_double_def One_rat_def)

record token_bucket =
  tb_capacity :: u32
  tb_tokens :: rat
  tb_fill_rate :: rat
  tb_last_time :: rat

definition new_bucket :: "u32 \<Rightarrow> rat \<Rightarrow> rat \<Rightarrow> token_bucket" where
  "new_bucket capacity fill_rate_per_sec now =
     \<lparr>tb_capacity = capacity, tb_tokens = to_double capacity,
      tb_fill_rate = fill_rate_per_sec, tb_last_time = now\<rparr>"

definition refill_tokens :: "rat \<Rightarrow> token_bucket \<Rightarrow> token_bucket" where
  "refill_tokens now b =
     (let elapsed_sec = now - tb_last_time b;
          new_tokens = elapsed_sec * tb_fill_rate b
      in b\<lparr>tb_last_time := now,
           tb_tokens := min (to_double (tb_capacity b)) (tb_tokens b + new_tokens)\<rparr>)"

definition try_consume :: "u32 \<Rightarrow> rat \<Rightarrow> token_bucket \<Rightarrow> bool \<times> token_bucket" where
  "try_consume tokens now b =
     (let b' = refill_tokens now b;
          n = to_double tokens
      in if n \<le> tb_tokens b' then (True, b'\<lparr>tb_tokens := tb_tokens b' - n\<rparr>) else (False, b'))"

definition bucket_ok :: "token_bucket \<Rightarrow> bool" where
  "bucket_ok b \<longleftrightarrow> 0 \<le> tb_tokens b \<and> tb_tokens b \<le> to_double (tb_capacity b) \<and> 0 \<le> tb_fill_rate b"

lemma new_bucket_ok: "0 \<le> rate \<Longrightarrow> bucket_ok (new_bucket c rate now)"
  by (simp add: new_bucket_def bucket_ok_def)

lemma refill_ok: "bucket_ok b \<Longrightarrow> tb_last_time b \<le> now \<Longrightarrow> bucket_ok (refill_tokens now b)"
  by (simp add: refill_tokens_def bucket_ok_def Let_def)

lemma try_consume_ok:
  assumes "bucket_ok b" and "tb_last_time b \<le> now"
  shows "bucket_ok (snd (try_consume n now b))"
  using refill_ok [OF assms]
  by (auto simp: try_consume_def bucket_ok_def Let_def diff_le_eq intro: add_increasing2)

lemma try_consume_frame [simp]:
  "tb_last_time (snd (try_consume n now b)) = now"
  "tb_fill_rate (snd (try_consume n now b)) = tb_fill_rate b"
  "tb_capacity (snd (try_consume n now b)) = tb_capacity b"
  by (simp_all add: try_consume_def refill_tokens_def Let_def)

text \<open>Requests for one token at given times: how many are granted.\<close>

fun granted :: "rat list \<Rightarrow> token_bucket \<Rightarrow> nat" where
  "granted [] b = 0"
| "granted (t # ts) b =
     (case try_consume 1 t b of (ok, b') \<Rightarrow> (if ok then 1 else 0) + granted ts b')"

lemma try_consume_potential:
  assumes "bucket_ok b"
  shows "(if fst (try_consume 1 t b) then 1 else 0) + tb_tokens (snd (try_consume 1 t b)) \<le>
    tb_tokens b + tb_fill_rate b * (t - tb_last_time b)"
  using assms by (auto simp: try_consume_def refill_tokens_def Let_def mult.commute)

lemma granted_potential:
  assumes "bucket_ok b" and "sorted (tb_last_time b # ts)"
  shows "of_nat (granted ts b) \<le>
    tb_tokens b + tb_fill_rate b * (last (tb_last_time b # ts) - tb_last_time b)"
  using assms
proof (induction ts arbitrary: b)
  case Nil
  then show ?case by (simp add: bucket_ok_def)
next
  case (Cons t ts)
  obtain ok b' where c: "try_consume 1 t b = (ok, b')" by (cases "try_consume 1 t b")
  then have b': "b' = snd (try_consume 1 t b)" by simp
  have ok': "bucket_ok b'" and time: "tb_last_time b' = t" and rate: "tb_fill_rate b' = tb_fill_rate b"
    unfolding b' using Cons.prems try_consume_ok [of b t 1] by simp_all
  have "of_nat (granted ts b') \<le> tb_tokens b' + tb_fill_rate b * (last (t # ts) - t)"
    using Cons.IH [OF ok'] Cons.prems(2) time rate by (auto simp: last_ConsR)
  moreover have "(if ok then 1 else 0) + tb_tokens b' \<le> tb_tokens b + tb_fill_rate b * (t - tb_last_time b)"
    using try_consume_potential [OF Cons.prems(1), of t] c by simp
  moreover have "of_nat (granted (t # ts) b) = (if ok then 1 else 0) + (of_nat (granted ts b') :: rat)"
    using c by simp
  ultimately have "of_nat (granted (t # ts) b) \<le>
      tb_tokens b + (tb_fill_rate b * (t - tb_last_time b) + tb_fill_rate b * (last (t # ts) - t))"
    by linarith
  also have "tb_fill_rate b * (t - tb_last_time b) + tb_fill_rate b * (last (t # ts) - t) =
      tb_fill_rate b * (last (t # ts) - tb_last_time b)"
    by (simp add: algebra_simps)
  finally show ?case by (simp only: last_ConsR list.distinct not_False_eq_True)
qed

section \<open>The two middlewares\<close>

text \<open>The clock reading of \<open>refill_tokens\<close> is part of the shared state.\<close>

record mw_state =
  ms_bucket :: token_bucket
  ms_now :: rat

definition rateLimiter :: "mw_state middleware" where
  "rateLimiter =
     \<lparr>mw_before = (\<lambda>(r, s).
        (case try_consume 1 (ms_now s) (ms_bucket s) of
           (ok, b) \<Rightarrow>
             ((if ok then None else Some (HttpException k429TooManyRequests ''Too Many Requests'')),
              r, s\<lparr>ms_bucket := b\<rparr>))),
      mw_after = (\<lambda>w. (None, w))\<rparr>"

text \<open>
  The validator is a \<open>std::function\<close> that the class never assigns, so it is empty, and
  a call of it throws \<open>bad_function_call\<close>. The expected token is stored and not read.
\<close>

record auth_middleware =
  au_expectedToken :: string
  au_validator :: "(string \<Rightarrow> bool) option"

definition new_auth :: "string \<Rightarrow> auth_middleware" where
  "new_auth validToken = \<lparr>au_expectedToken = validToken, au_validator = None\<rparr>"

definition auth_before :: "auth_middleware \<Rightarrow> http_request \<Rightarrow> cxx_exn option" where
  "auth_before a req =
     (let authHeader = getHeader ''Authorization'' req;
          prefix = ''Bearer ''
      in if length authHeader \<le> length prefix \<or> take (length prefix) authHeader \<noteq> prefix
         then Some (HttpException k401Unauthorized ''Unauthorized: Invalid header format'')
         else
           (let token = drop (length prefix) authHeader in
            case au_validator a of
              None \<Rightarrow> Some (StdException ''bad_function_call'')
            | Some v \<Rightarrow>
                if \<not> v token
                then Some (HttpException k403Forbidden ''Forbidden: Token verification failed'')
                else None))"

definition authMiddleware :: "auth_middleware \<Rightarrow> 's middleware" where
  "authMiddleware a =
     \<lparr>mw_before = (\<lambda>(r, s). (auth_before a r, r, s)), mw_after = (\<lambda>w. (None, w))\<rparr>"

text \<open>The state the limiter's bucket may be in when the clock does not run backwards.\<close>

definition limiter_ok :: "mw_state \<Rightarrow> bool" where
  "limiter_ok s \<longleftrightarrow> bucket_ok (ms_bucket s) \<and> tb_last_time (ms_bucket s) \<le> ms_now s"

interpretation limited: chain_invariant limiter_ok
  "[Some rateLimiter, Some (authMiddleware a), None]" for a
proof unfold_locales
  fix m r s p
  assume m: "Some m \<in> set [Some rateLimiter, Some (authMiddleware a), None]" and s: "limiter_ok s"
  show "limiter_ok (snd (snd (mw_before m (r, s))))"
    using m s try_consume_ok [of "ms_bucket s" "ms_now s" 1] try_consume_frame(1) [of 1 "ms_now s" "ms_bucket s"]
    by (auto simp: rateLimiter_def authMiddleware_def limiter_ok_def simp del: try_consume_frame
        split: prod.splits)
  show "limiter_ok (snd (snd (mw_after m (p, s))))"
    using m s by (auto simp: rateLimiter_def authMiddleware_def)
qed

lemma has_prefix_iff:
  "(\<exists>t. t \<noteq> [] \<and> h = p @ t) \<longleftrightarrow> length p < length h \<and> take (length p) h = p"
proof (intro iffI conjI)
  assume "length p < length h \<and> take (length p) h = p"
  then have "drop (length p) h \<noteq> []" and "h = p @ drop (length p) h"
    by simp (metis append_take_drop_id \<open>length p < length h \<and> take (length p) h = p\<close>)
  then show "\<exists>t. t \<noteq> [] \<and> h = p @ t" by blast
qed auto

section \<open>Properties\<close>

text \<open>
  C20: the limiter holds its rate: over any run of requests at times that do not go back, a
  fresh bucket grants at most its capacity plus the fill rate times the time that has
  passed.
\<close>

theorem bucket_rate:
  assumes "0 \<le> rate" and "sorted (start # ts)"
  shows "of_nat (granted ts (new_bucket capacity rate start)) \<le>
    to_double capacity + rate * (last (start # ts) - start)"
  using granted_potential [of "new_bucket capacity rate start" ts] new_bucket_ok assms
  by (simp add: new_bucket_def)

lemma bucket_rate_witness:
  "granted [0, 0, 0, 1/2, 1/2] (new_bucket 2 2 0) = 3 \<and>
   (3::rat) \<le> to_double 2 + 2 * (last [0, 0, 0, 0, 1/2, 1/2] - 0)"
proof -
  have g: "granted [0, 0, 0, 1/2, 1/2] (new_bucket 2 2 0) = 3"
    by (simp add: new_bucket_def try_consume_def refill_tokens_def to_double_def Fract_of_int_quotient)
  with bucket_rate [of 2 0 "[0, 0, 0, 1/2, 1/2]" 2] show ?thesis by simp
qed

text \<open>
  The chain is an onion: the middleware added last runs last before the request is
  handled, and only when none before it threw, and first on the response; an exception on
  the way back keeps the ones added earlier from seeing the response.
\<close>

theorem chain_order:
  "processBefore (addMiddleware (Some m) ms) w =
     (case processBefore ms w of
        (Passed, w') \<Rightarrow> (case mw_before m w' of (None, w2) \<Rightarrow> (Passed, w2) | (Some e, w2) \<Rightarrow> (Raised e, w2))
      | stopped \<Rightarrow> stopped) \<and>
   processAfter (addMiddleware (Some m) ms) v =
     (case mw_after m v of (None, v') \<Rightarrow> processAfter ms v' | (Some e, v') \<Rightarrow> v')"
proof
  show "processBefore (addMiddleware (Some m) ms) w =
     (case processBefore ms w of
        (Passed, w') \<Rightarrow> (case mw_before m w' of (None, w2) \<Rightarrow> (Passed, w2) | (Some e, w2) \<Rightarrow> (Raised e, w2))
      | stopped \<Rightarrow> stopped)"
    unfolding addMiddleware_def
    by (induction ms w rule: processBefore.induct) (auto split: prod.splits option.splits)
  show "processAfter (addMiddleware (Some m) ms) v =
     (case mw_after m v of (None, v') \<Rightarrow> processAfter ms v' | (Some e, v') \<Rightarrow> v')"
    by (auto simp: addMiddleware_def processAfter_def split: prod.splits option.splits)
qed

text \<open>
  The authentication middleware lets no request through: whatever token it was made
  with and whatever the request carries, \<open>before\<close> throws, 401 without a bearer header
  and \<open>bad_function_call\<close> with one.
\<close>

theorem auth_rejects_all:
  "auth_before (new_auth validToken) req =
     Some (if (\<exists>token. token \<noteq> [] \<and> getHeader ''Authorization'' req = ''Bearer '' @ token)
           then StdException ''bad_function_call''
           else HttpException k401Unauthorized ''Unauthorized: Invalid header format'')"
proof -
  have "(\<exists>token. token \<noteq> [] \<and> getHeader ''Authorization'' req = ''Bearer '' @ token) \<longleftrightarrow>
      length ''Bearer '' < length (getHeader ''Authorization'' req) \<and>
      take (length ''Bearer '') (getHeader ''Authorization'' req) = ''Bearer ''"
    by (rule has_prefix_iff)
  then show ?thesis
    by (simp only: auth_before_def new_auth_def Let_def) auto
qed

text \<open>
  A chain of the limiter, the authentication and an empty slot keeps the limiter's
  bucket between 0 and its capacity, on the way in and on the way out, however the pass
  ends.
\<close>

theorem limiter_chain_invariant:
  assumes "limiter_ok s"
  shows "limiter_ok (snd (snd (processBefore [Some rateLimiter, Some (authMiddleware a), None] (r, s)))) \<and>
    limiter_ok (snd (processAfter [Some rateLimiter, Some (authMiddleware a), None] (p, s)))"
  by (rule limited.chain_keeps [OF assms])

lemma limiter_chain_invariant_witness:
  "limiter_ok (snd (snd (processBefore [Some rateLimiter, Some (authMiddleware (new_auth ''t'')), None]
     (new_request, \<lparr>ms_bucket = new_bucket 1 1 0, ms_now = 5\<rparr>))))"
proof -
  have "limiter_ok \<lparr>ms_bucket = new_bucket 1 1 0, ms_now = 5\<rparr>"
    using new_bucket_ok [of 1 1 0] by (simp add: limiter_ok_def) (simp add: new_bucket_def)
  from limiter_chain_invariant [OF this] show ?thesis by blast
qed

end
