(* ===== verification/Logic.thy ===== *)
theory Logic
  imports SendPath HttpParse Router Middleware
begin

text \<open>
  The logic socket: \<open>src/logic/my_slogic.cpp\<close> and the worker loop of
  \<open>src/threadPool/my_threadpool.cpp\<close>. A received chunk goes through the parser of its
  connection; a complete request goes through the middleware, the router and its handler,
  and the printed response is queued for sending. Handlers and middleware share a state
  \<open>'s\<close> of the application.
\<close>

section \<open>The state\<close>

record 's logic =
  lg_net :: net
  lg_router :: "'s router"
  lg_chain :: "'s middleware option list"
  lg_app :: 's
  lg_waited :: nat

definition registCallback :: "http_method \<Rightarrow> string \<Rightarrow> 's handler \<Rightarrow> 's logic \<Rightarrow> 's logic" where
  "registCallback m p cb l = l\<lparr>lg_router := registerCallback m p cb (lg_router l)\<rparr>"

definition addRegexCallback_lg :: "std_regex \<Rightarrow> http_method \<Rightarrow> string \<Rightarrow> 's handler \<Rightarrow> 's logic \<Rightarrow> 's logic" where
  "addRegexCallback_lg std m p cb l = l\<lparr>lg_router := addRegexCallback std m p cb (lg_router l)\<rparr>"

definition addMiddleware_lg :: "'s middleware option \<Rightarrow> 's logic \<Rightarrow> 's logic" where
  "addMiddleware_lg mw l = l\<lparr>lg_chain := addMiddleware mw (lg_chain l)\<rparr>"

section \<open>From a request to a response\<close>

text \<open>
  The two \<open>catch\<close> clauses. Neither sets a version, so it stays what the response had.
\<close>

definition exception_response :: "cxx_exn \<Rightarrow> http_response \<Rightarrow> http_response" where
  "exception_response e resp =
     (case e of
        HttpException code what \<Rightarrow>
          setBody_rs (''Error: '' @ what) (setStatusMessage what (setStatusCode code resp))
      | StdException what \<Rightarrow> setBody_rs what (setStatusCode k500InternalServerError resp))"

definition not_found :: "http_request \<Rightarrow> http_response \<Rightarrow> http_response" where
  "not_found req resp =
     setVersion_rs (rq_version req)
       (setCloseConnection True (setStatusMessage ''Not Found'' (setStatusCode k404NotFound resp)))"

text \<open>\<open>None\<close> is the call through a null pointer in the chain, which ends the process.\<close>

definition handleRequest ::
  "'s router \<Rightarrow> 's middleware option list \<Rightarrow> http_request \<Rightarrow> http_response \<times> 's \<Rightarrow>
     (http_response \<times> 's) option" where
  "handleRequest rt chain req = (\<lambda>(resp, st).
     (case processBefore chain (req, st) of
        (Null_call, _) \<Rightarrow> None
      | (Raised e, _, st1) \<Rightarrow> Some (exception_response e resp, st1)
      | (Passed, req1, st1) \<Rightarrow>
          (case route rt req1 (resp, st1) of
             (Inl e, resp1, st2) \<Rightarrow> Some (exception_response e resp1, st2)
           | (Inr found, resp1, st2) \<Rightarrow>
               Some (processAfter chain (if found then resp1 else not_found req1 resp1, st2)))))"

definition wants_close :: "http_request \<Rightarrow> bool" where
  "wants_close req =
     (let connection = c_str (getHeader ''Connection'' req);
          version = c_str (rq_version req);
          connection_close = strcaseeq connection ''close'';
          is_http11_keepalive = (strcaseeq version ''HTTP/1.1'' \<and> strcaseeq connection ''keep-alive'');
          is_http10_keepalive = (strcaseeq version ''HTTP/1.0'' \<and> strcaseeq connection ''keep-alive'')
      in connection_close \<or> \<not> (is_http11_keepalive \<or> is_http10_keepalive))"

definition onRequest :: "int \<Rightarrow> nat \<Rightarrow> http_request \<Rightarrow> 's logic \<Rightarrow> 's logic option" where
  "onRequest now a req l =
     (let close = wants_close req;
          w1 = nupd a (\<lambda>c. c\<lparr>cn_ishttpClose := close\<rparr>) (lg_net l)
      in case handleRequest (lg_router l) (lg_chain l) req (new_response close, lg_app l) of
           None \<Rightarrow> None
         | Some (resp, st) \<Rightarrow>
             Some (l\<lparr>lg_net := msgSend now (appendToBuffer resp []) a w1, lg_app := st\<rparr>))"

section \<open>A received chunk\<close>

text \<open>
  What a call of \<open>threadRecvProcFunc\<close> comes to. The wait is for the context to reach the
  chunk's number; when no other thread moves the context meanwhile, a number that differs
  costs the whole 5000 milliseconds, and the chunk is parsed all the same.
\<close>

datatype 's recv_end = Done "'s logic" | Raised_out cxx_exn "'s logic" | Hangs | Process_ends

definition set_context :: "nat \<Rightarrow> http_context \<Rightarrow> 's logic \<Rightarrow> 's logic" where
  "set_context a cx l = l\<lparr>lg_net := nupd a (\<lambda>c. c\<lparr>cn_context := cx\<rparr>) (lg_net l)\<rparr>"

definition threadRecvProcFunc ::
  "parse_env \<Rightarrow> int \<Rightarrow> msg_header \<Rightarrow> bytes \<Rightarrow> 's logic \<Rightarrow> 's recv_end" where
  "threadRecvProcFunc env now msghead buf l =
     (if buf = [] then Done l
      else
        (let a = mh_conn msghead; c = nconn a (lg_net l) in
         if cn_iCurrsequence c \<noteq> mh_iCurrsequence msghead then Done l
         else
           (let l1 = (if cx_sequence (cn_context c) = mh_sequence msghead then l
                      else l\<lparr>lg_waited := lg_waited l + 5000\<rparr>)
            in case parseRequest env buf now (cn_context c) of
                 None \<Rightarrow> Hangs
               | Some Aborted \<Rightarrow> Process_ends
               | Some (Threw e cx) \<Rightarrow> Raised_out e (set_context a cx l1)
               | Some (Returned ok isErr cx) \<Rightarrow>
                   (let l2 = set_context a (cx\<lparr>cx_sequence := cx_sequence cx + 1\<rparr>) l1 in
                    if \<not> ok then
                      if \<not> isErr then Done l2
                      else Done (l2\<lparr>lg_net := msgSend now bad_request a (lg_net l2)\<rparr>)
                    else
                      (case onRequest now a (cx_request cx) l2 of
                         None \<Rightarrow> Process_ends
                       | Some l3 \<Rightarrow>
                           Done (set_context a (reset (cn_context (nconn a (lg_net l3)))) l3))))))"

text \<open>
  One turn of a thread of the pool: it tries the queue and, when there is nothing, tries
  again; an exception of the message is caught.
\<close>

definition ThreadFunc_turn :: "parse_env \<Rightarrow> int \<Rightarrow> 's logic \<Rightarrow> 's recv_end" where
  "ThreadFunc_turn env now l =
     (case so_MsgRecvQueue (nt_sock (lg_net l)) of
        [] \<Rightarrow> Done l
      | (h, buf) # q \<Rightarrow>
          (let l1 = l\<lparr>lg_net := on_sock (\<lambda>s. s\<lparr>so_MsgRecvQueue := q\<rparr>) (lg_net l)\<rparr> in
           if buf = [] then Done l1
           else
             (case threadRecvProcFunc env now h buf l1 of
                Raised_out e l2 \<Rightarrow> Done l2
              | r \<Rightarrow> r)))"

section \<open>Steps under the queues\<close>

lemma upd_conn_empty [simp]: "so_connectionList (upd_conn a f s) = [] \<longleftrightarrow> so_connectionList s = []"
  by (simp add: upd_conn_def)

lemma net_queue_frame [simp]:
  "nconn a (on_sock (\<lambda>s. s\<lparr>so_MsgRecvQueue := q\<rparr>) w) = nconn a w"
  "so_MsgRecvQueue (upd_conn a f s) = so_MsgRecvQueue s"
  "so_MsgSendQueue (nt_sock (nupd a f w)) = so_MsgSendQueue (nt_sock w)"
  "so_MsgRecvQueue (nt_sock (nupd a f w)) = so_MsgRecvQueue (nt_sock w)"
  "length (so_connectionList (nt_sock (nupd a f w))) = length (so_connectionList (nt_sock w))"
  by simp_all

text \<open>The request a client's head stands for, as the handlers see it.\<close>

definition stands_for ::
  "string \<Rightarrow> string \<Rightarrow> (string \<times> string) list \<Rightarrow> (string \<times> string) list \<Rightarrow> http_request \<Rightarrow> bool" where
  "stands_for m path ps hs r \<longleftrightarrow>
     rq_method r = method_of m \<and> rq_path r = path \<and> rq_queryParameters r = map_of (rev ps) \<and>
     rq_headers r = map_of (rev hs) \<and> rq_version r = ''HTTP/1.1''"

definition asks_keepalive :: "(string \<times> string) list \<Rightarrow> bool" where
  "asks_keepalive hs \<longleftrightarrow> strcaseeq (c_str (lookup_str (map_of (rev hs)) ''Connection'')) ''keep-alive''"

lemma wants_close_iff: "stands_for m path ps hs r \<Longrightarrow> wants_close r \<longleftrightarrow> \<not> asks_keepalive hs"
proof -
  have "c_str ''HTTP/1.1'' = ''HTTP/1.1''" "strcaseeq ''HTTP/1.1'' ''HTTP/1.1''"
      "\<not> strcaseeq ''HTTP/1.1'' ''HTTP/1.0''"
    by code_simp+
  moreover have "strcaseeq s ''keep-alive'' \<Longrightarrow> \<not> strcaseeq s ''close''" for s
    by (auto simp: strcaseeq_def dest!: arg_cong [where f = length])
  ultimately show "stands_for m path ps hs r \<Longrightarrow> wants_close r \<longleftrightarrow> \<not> asks_keepalive hs"
    by (auto simp: wants_close_def stands_for_def asks_keepalive_def getHeader_def Let_def)
qed

text \<open>
  One chunk with a whole head of a request without a body, at the front of the queue of a
  live connection that expects a request.
\<close>

definition chunk_waiting ::
  "u32 \<Rightarrow> string \<Rightarrow> string \<Rightarrow> (string \<times> string) list \<Rightarrow> (string \<times> string) list \<Rightarrow> bytes \<Rightarrow> nat \<Rightarrow>
     's logic \<Rightarrow> bool" where
  "chunk_waiting n m path ps hs b a l \<longleftrightarrow>
     so_MsgRecvQueue (nt_sock (lg_net l)) =
        [(\<lparr>mh_conn = a, mh_iCurrsequence = cn_iCurrsequence (nconn a (lg_net l)), mh_sequence = n\<rparr>,
          render_head m path ps hs @ b)] \<and>
     a < length (so_connectionList (nt_sock (lg_net l))) \<and> fresh (cn_context (nconn a (lg_net l))) \<and>
     request_ok m path ps hs \<and> method_of m \<notin> {kPost, kPut} \<and> plain_content hs"

definition head_waiting ::
  "string \<Rightarrow> string \<Rightarrow> (string \<times> string) list \<Rightarrow> (string \<times> string) list \<Rightarrow> bytes \<Rightarrow> nat \<Rightarrow>
     's logic \<Rightarrow> bool" where
  "head_waiting m path ps hs b a l \<longleftrightarrow>
     (\<exists>n. chunk_waiting n m path ps hs b a l) \<and>
     so_MsgSendQueue (nt_sock (lg_net l)) = [] \<and> cn_iSendCount (nconn a (lg_net l)) \<le> 400"

text \<open>
  The turn of a thread on such a chunk, up to what the application answers: the connection is
  marked (\<open>marked_net\<close>), the response is queued, and the context is reset.
\<close>

definition marked_net :: "nat \<Rightarrow> bool \<Rightarrow> http_context \<Rightarrow> net \<Rightarrow> net" where
  "marked_net a close cx w =
     nupd a (\<lambda>c. c\<lparr>cn_ishttpClose := close\<rparr>)
       (nupd a (\<lambda>c. c\<lparr>cn_context := cx\<rparr>) (on_sock (\<lambda>s. s\<lparr>so_MsgRecvQueue := []\<rparr>) w))"

definition reset_net :: "nat \<Rightarrow> net \<Rightarrow> net" where
  "reset_net a w = nupd a (\<lambda>c. c\<lparr>cn_context := reset (cn_context (nconn a w))\<rparr>) w"

lemma marked_net_state:
  "so_MsgSendQueue (nt_sock (marked_net a cl cx w)) = so_MsgSendQueue (nt_sock w)"
  "so_MsgRecvQueue (nt_sock (marked_net a cl cx w)) = []"
  "length (so_connectionList (nt_sock (marked_net a cl cx w))) = length (so_connectionList (nt_sock w))"
  "nt_wire (marked_net a cl cx w) = nt_wire w"
  "a < length (so_connectionList (nt_sock w)) \<Longrightarrow>
     nconn a (marked_net a cl cx w) = (nconn a w)\<lparr>cn_context := cx, cn_ishttpClose := cl\<rparr>"
  by (simp_all add: marked_net_def nupd_conn)

lemma reset_net_state:
  "so_MsgSendQueue (nt_sock (reset_net a w)) = so_MsgSendQueue (nt_sock w)"
  "so_MsgRecvQueue (nt_sock (reset_net a w)) = so_MsgRecvQueue (nt_sock w)"
  "length (so_connectionList (nt_sock (reset_net a w))) = length (so_connectionList (nt_sock w))"
  "nt_wire (reset_net a w) = nt_wire w"
  "a < length (so_connectionList (nt_sock w)) \<Longrightarrow>
     nconn a (reset_net a w) = (nconn a w)\<lparr>cn_context := reset (cn_context (nconn a w))\<rparr>"
  by (simp_all add: reset_net_def nupd_conn)

lemma onRequest_answers:
  assumes "stands_for m path ps hs r"
    and "handleRequest (lg_router l) (lg_chain l) r (new_response (\<not> asks_keepalive hs), lg_app l) = Some (resp, st)"
  shows "onRequest now a r l = Some (l\<lparr>lg_net := msgSend now (appendToBuffer resp []) a
    (nupd a (\<lambda>c. c\<lparr>cn_ishttpClose := \<not> asks_keepalive hs\<rparr>) (lg_net l)), lg_app := st\<rparr>)"
  using assms(2) by (simp only: onRequest_def Let_def wants_close_iff [OF assms(1)]) simp

lemma head_turn_net:
  assumes "chunk_waiting n m path ps hs b a l"
    and "\<And>r. stands_for m path ps hs r \<Longrightarrow>
      handleRequest (lg_router l) (lg_chain l) r (new_response (\<not> asks_keepalive hs), lg_app l) = Some (resp, st)"
  shows "\<exists>cx. cx_sequence cx = cx_sequence (cn_context (nconn a (lg_net l))) + 1 \<and>
    ThreadFunc_turn env now l = Done (l\<lparr>
      lg_net := reset_net a (msgSend now (appendToBuffer resp []) a (marked_net a (\<not> asks_keepalive hs) cx (lg_net l))),
      lg_app := st,
      lg_waited := (if cx_sequence (cn_context (nconn a (lg_net l))) = n then lg_waited l else lg_waited l + 5000)\<rparr>)"
proof -
  let ?c = "nconn a (lg_net l)"
  have q: "so_MsgRecvQueue (nt_sock (lg_net l)) =
      [(\<lparr>mh_conn = a, mh_iCurrsequence = cn_iCurrsequence ?c, mh_sequence = n\<rparr>, render_head m path ps hs @ b)]"
    and w: "fresh (cn_context ?c)" "request_ok m path ps hs" "method_of m \<notin> {kPost, kPut}" "plain_content hs"
    using assms(1) unfolding chunk_waiting_def by blast+
  define cx where "cx = head_parsed m path ps hs now
    ((cn_context ?c)\<lparr>cx_buffer := render_head m path ps hs @ b, cx_state := kGotAll\<rparr>)"
  have p: "parseRequest env (render_head m path ps hs @ b) now (cn_context ?c) = Some (Returned True False cx)"
    unfolding cx_def by (rule head_without_body [OF w])
  have st: "stands_for m path ps hs (cx_request cx)" and sq: "cx_sequence cx = cx_sequence (cn_context ?c)"
    by (simp_all add: cx_def head_parsed_def stands_for_def)
  have ne: "render_head m path ps hs \<noteq> []" by (simp add: render_head_def)
  let ?w0 = "on_sock (\<lambda>s. s\<lparr>so_MsgRecvQueue := []\<rparr>) (lg_net l)"
  let ?h = "\<lparr>mh_conn = a, mh_iCurrsequence = cn_iCurrsequence ?c, mh_sequence = n\<rparr>"
  let ?cx = "cx\<lparr>cx_sequence := cx_sequence cx + 1\<rparr>"
  let ?w3 = "msgSend now (appendToBuffer resp []) a (marked_net a (\<not> asks_keepalive hs) ?cx (lg_net l))"
  let ?n = "if cx_sequence (cn_context ?c) = n then lg_waited l else lg_waited l + 5000"
  have c0: "nconn a ?w0 = ?c" by simp
  have on: "onRequest now a (cx_request cx) L = Some (L\<lparr>lg_net := msgSend now (appendToBuffer resp []) a
      (nupd a (\<lambda>c. c\<lparr>cn_ishttpClose := \<not> asks_keepalive hs\<rparr>) (lg_net L)), lg_app := st\<rparr>)"
    if "lg_router L = lg_router l" "lg_chain L = lg_chain l" "lg_app L = lg_app l" for L
    using assms(2) [OF st] that by (intro onRequest_answers [OF st]) simp
  have "threadRecvProcFunc env now ?h (render_head m path ps hs @ b) (l\<lparr>lg_net := ?w0\<rparr>) =
      Done (l\<lparr>lg_net := reset_net a ?w3, lg_app := st, lg_waited := ?n\<rparr>)"
    using ne p on by (simp add: threadRecvProcFunc_def Let_def c0 set_context_def reset_net_def marked_net_def)
  then have "ThreadFunc_turn env now l = Done (l\<lparr>lg_net := reset_net a ?w3, lg_app := st, lg_waited := ?n\<rparr>)"
    using q ne by (simp add: ThreadFunc_turn_def Let_def)
  then show ?thesis using sq by (intro exI [of _ ?cx]) simp
qed

lemma head_turn_full:
  assumes "chunk_waiting n m path ps hs b a l" and "so_MsgSendQueue (nt_sock (lg_net l)) = []"
    and "cn_iSendCount (nconn a (lg_net l)) \<le> 400"
    and "\<And>r. stands_for m path ps hs r \<Longrightarrow>
      handleRequest (lg_router l) (lg_chain l) r (new_response (\<not> asks_keepalive hs), lg_app l) = Some (resp, st)"
  shows "\<exists>l' cx. ThreadFunc_turn env now l = Done l' \<and> lg_app l' = st \<and>
    lg_router l' = lg_router l \<and> lg_chain l' = lg_chain l \<and>
    lg_waited l' = (if cx_sequence (cn_context (nconn a (lg_net l))) = n then lg_waited l else lg_waited l + 5000) \<and>
    so_MsgRecvQueue (nt_sock (lg_net l')) = [] \<and>
    so_MsgSendQueue (nt_sock (lg_net l')) =
      [(\<lparr>mh_conn = a, mh_iCurrsequence = cn_iCurrsequence (nconn a (lg_net l)), mh_sequence = 0\<rparr>,
        appendToBuffer resp [])] \<and>
    nt_wire (lg_net l') = nt_wire (lg_net l) \<and> fresh cx \<and>
    cx_sequence cx = cx_sequence (cn_context (nconn a (lg_net l))) + 1 \<and>
    nconn a (lg_net l') = (nconn a (lg_net l))
      \<lparr>cn_context := cx, cn_ishttpClose := \<not> asks_keepalive hs, cn_iSendCount := cn_iSendCount (nconn a (lg_net l)) + 1\<rparr>"
proof -
  have a: "a < length (so_connectionList (nt_sock (lg_net l)))" using assms(1) by (simp add: chunk_waiting_def)
  obtain cx where cx: "cx_sequence cx = cx_sequence (cn_context (nconn a (lg_net l))) + 1"
    and t: "ThreadFunc_turn env now l = Done (l\<lparr>
      lg_net := reset_net a (msgSend now (appendToBuffer resp []) a (marked_net a (\<not> asks_keepalive hs) cx (lg_net l))),
      lg_app := st,
      lg_waited := (if cx_sequence (cn_context (nconn a (lg_net l))) = n then lg_waited l else lg_waited l + 5000)\<rparr>)"
    using head_turn_net [OF assms(1,4), of env now] by blast
  let ?w2 = "marked_net a (\<not> asks_keepalive hs) cx (lg_net l)"
  have w2: "so_MsgSendQueue (nt_sock ?w2) = []" "cn_iSendCount (nconn a ?w2) \<le> 400"
      "a < length (so_connectionList (nt_sock ?w2))"
    using a assms(2,3) by (simp_all add: marked_net_state)
  note m = msgSend_state [OF w2, of now "appendToBuffer resp []"]
  have a3: "a < length (so_connectionList (nt_sock (msgSend now (appendToBuffer resp []) a ?w2)))"
    using m(4) w2(3) by simp
  have "fresh (reset cx)" "cx_sequence (reset cx) = cx_sequence cx" by (rule fresh_reset) (simp add: reset_def Let_def)
  moreover define l' where "l' = l\<lparr>
      lg_net := reset_net a (msgSend now (appendToBuffer resp []) a ?w2), lg_app := st,
      lg_waited := (if cx_sequence (cn_context (nconn a (lg_net l))) = n then lg_waited l else lg_waited l + 5000)\<rparr>"
  then have "lg_net l' = reset_net a (msgSend now (appendToBuffer resp []) a ?w2)" "lg_app l' = st"
      "lg_router l' = lg_router l" "lg_chain l' = lg_chain l"
      "lg_waited l' = (if cx_sequence (cn_context (nconn a (lg_net l))) = n then lg_waited l else lg_waited l + 5000)"
    by simp_all
  ultimately show ?thesis
    using cx a t [folded l'_def]
    by (intro exI [of _ l'] exI [of _ "reset cx"])
      (simp add: reset_net_state(5) [OF a3] reset_net_state(1-4) m marked_net_state msgSend_wire)
qed

lemma head_turn:
  assumes "head_waiting m path ps hs b a l"
    and "\<And>r. stands_for m path ps hs r \<Longrightarrow>
      handleRequest (lg_router l) (lg_chain l) r (new_response (\<not> asks_keepalive hs), lg_app l) = Some (resp, st)"
  shows "\<exists>l'. ThreadFunc_turn env now l = Done l' \<and> lg_app l' = st \<and>
    so_MsgRecvQueue (nt_sock (lg_net l')) = [] \<and>
    so_MsgSendQueue (nt_sock (lg_net l')) =
      [(\<lparr>mh_conn = a, mh_iCurrsequence = cn_iCurrsequence (nconn a (lg_net l)), mh_sequence = 0\<rparr>,
        appendToBuffer resp [])] \<and>
    fresh (cn_context (nconn a (lg_net l'))) \<and>
    cn_ishttpClose (nconn a (lg_net l')) = (\<not> asks_keepalive hs)"
proof -
  obtain n where "chunk_waiting n m path ps hs b a l" "so_MsgSendQueue (nt_sock (lg_net l)) = []"
      "cn_iSendCount (nconn a (lg_net l)) \<le> 400"
    using assms(1) by (auto simp: head_waiting_def)
  from head_turn_full [OF this assms(2), of env now] show ?thesis by auto
qed

section \<open>Properties\<close>

text \<open>
  C5: A request without a body that arrives in one chunk for a registered path, and that the
  middleware lets through, is answered by the handler, once: the thread queues exactly the
  handler's response as it prints after the middleware has had it, for
  this life of the connection, and the connection expects the next request. It is kept
  open only if the client asked for it. Bytes behind the head in the same chunk, a
  pipelined request say, are dropped.
\<close>

theorem request_answered:
  assumes "head_waiting m path ps hs b a l"
    and "rt_handlers (lg_router l) (method_of m, path) = None"
    and "rt_callbacks (lg_router l) (method_of m, path) = Some cb"
    and "\<And>r. stands_for m path ps hs r \<Longrightarrow>
      processBefore (lg_chain l) (r, lg_app l) = (Passed, f r, st1) \<and> rq_method (f r) = rq_method r \<and> rq_path (f r) = rq_path r"
    and "\<And>r. stands_for m path ps hs r \<Longrightarrow>
      cb (f r) (new_response (\<not> asks_keepalive hs), st1) = (None, resp, st2)"
    and "processAfter (lg_chain l) (resp, st2) = (resp', st)"
  shows "\<exists>l'. ThreadFunc_turn env now l = Done l' \<and> lg_app l' = st \<and>
    so_MsgRecvQueue (nt_sock (lg_net l')) = [] \<and>
    so_MsgSendQueue (nt_sock (lg_net l')) =
      [(\<lparr>mh_conn = a, mh_iCurrsequence = cn_iCurrsequence (nconn a (lg_net l)), mh_sequence = 0\<rparr>,
        appendToBuffer resp' [])] \<and>
    fresh (cn_context (nconn a (lg_net l'))) \<and>
    cn_ishttpClose (nconn a (lg_net l')) = (\<not> asks_keepalive hs)"
proof (rule head_turn [OF assms(1)])
  fix r assume r: "stands_for m path ps hs r"
  then have "rq_method r = method_of m" "rq_path r = path" by (simp_all add: stands_for_def)
  then show "handleRequest (lg_router l) (lg_chain l) r (new_response (\<not> asks_keepalive hs), lg_app l) = Some (resp', st)"
    using assms(2,3) assms(4,5) [OF r] assms(6)
    by (simp add: handleRequest_def route_def run_handler_def Let_def)
qed

text \<open>
  A client that asks to keep the connection open and names a path nobody registered
  gets the status line of a 404 and \<open>Connection: close\<close>, without a length and a body,
  but the connection is not marked to be closed: the client waits for an end that the
  server does not send.
\<close>

theorem unknown_path_keepalive:
  assumes "head_waiting m path ps hs b a l" and "lg_chain l = []" and "asks_keepalive hs"
    and "rt_handlers (lg_router l) (method_of m, path) = None"
    and "rt_callbacks (lg_router l) (method_of m, path) = None"
    and "rt_regexHandlers (lg_router l) = []" and "rt_regexCallbacks (lg_router l) = []"
  shows "\<exists>l' h. ThreadFunc_turn env now l = Done l' \<and>
    so_MsgSendQueue (nt_sock (lg_net l')) =
      [(h, ''HTTP/1.1 404 Not Found'' @ crlf @ ''Connection: close'' @ crlf @ crlf)] \<and>
    \<not> cn_ishttpClose (nconn a (lg_net l'))"
proof -
  define resp where "resp = (new_response False)\<lparr>rs_statusCode := k404NotFound, rs_statusMessage := ''Not Found'',
    rs_closeConnection := True, rs_httpVersion := ''HTTP/1.1''\<rparr>"
  have "handleRequest (lg_router l) (lg_chain l) r (new_response (\<not> asks_keepalive hs), lg_app l) =
      Some (resp, lg_app l)" if "stands_for m path ps hs r" for r
    using that assms(2-7)
    by (simp add: handleRequest_def route_def stands_for_def not_found_def processAfter_def resp_def
        setVersion_rs_def setCloseConnection_def setStatusMessage_def setStatusCode_def)
  from head_turn [OF assms(1) this, of env now] assms(3) obtain l' h where
    l': "ThreadFunc_turn env now l = Done l'" "so_MsgSendQueue (nt_sock (lg_net l')) = [(h, appendToBuffer resp [])]"
      "\<not> cn_ishttpClose (nconn a (lg_net l'))" by blast
  have "status_prefix resp = ''HTTP/1.1 404 ''"
    unfolding resp_def by code_simp
  then have "appendToBuffer resp [] = ''HTTP/1.1 404 Not Found'' @ crlf @ ''Connection: close'' @ crlf @ crlf"
    by (simp add: appendToBuffer_def connection_line_def resp_def new_response_def)
  with l' show ?thesis by auto
qed

text \<open>
  When the rate limiter turns a request away, the message the client gets begins with a
  blank where a status line has its version: the \<open>catch\<close> clause never sets one.
\<close>

theorem rejected_request_has_no_version:
  assumes "head_waiting m path ps hs b a l" and "lg_chain l = [Some rateLimiter]"
    and "tb_tokens (refill_tokens (ms_now (lg_app l)) (ms_bucket (lg_app l))) < 1"
  shows "\<exists>l' h t. ThreadFunc_turn env now l = Done l' \<and>
    so_MsgSendQueue (nt_sock (lg_net l')) = [(h, '' 429 Too Many Requests'' @ crlf @ t)]"
proof -
  let ?s = "lg_app l"
  define e where "e = HttpException k429TooManyRequests ''Too Many Requests''"
  define resp where "resp = exception_response e (new_response (\<not> asks_keepalive hs))"
  define st where "st = ?s\<lparr>ms_bucket := refill_tokens (ms_now ?s) (ms_bucket ?s)\<rparr>"
  have "processBefore [Some rateLimiter] (r, ?s) = (Raised e, r, st)" for r
    using assms(3) by (simp add: rateLimiter_def try_consume_def Let_def e_def st_def)
  then have "handleRequest (lg_router l) (lg_chain l) r (new_response (\<not> asks_keepalive hs), ?s) = Some (resp, st)" for r
    by (simp add: handleRequest_def assms(2) resp_def)
  from head_turn [OF assms(1) this, of env now] obtain l' h where
    l': "ThreadFunc_turn env now l = Done l'" "so_MsgSendQueue (nt_sock (lg_net l')) = [(h, appendToBuffer resp [])]"
    by blast
  have f: "rs_httpVersion resp = []" "rs_statusCode resp = k429TooManyRequests" "rs_statusMessage resp = ''Too Many Requests''"
    by (simp_all add: resp_def exception_response_def e_def setBody_rs_def setStatusMessage_def
        setStatusCode_def new_response_def)
  have d: "take 31 (c_str [] @ '' '' @ dec 429 @ '' '') = '' 429 ''" by code_simp
  have "status_prefix resp = '' 429 ''"
    unfolding status_prefix_def f status_code.simps by (rule d)
  then have "\<exists>t. appendToBuffer resp [] = '' 429 Too Many Requests'' @ crlf @ t"
    by (auto simp: appendToBuffer_def f)
  with l' show ?thesis by auto
qed

text \<open>
  The chunks of a client on a reused connection are numbered from 0 again, but the
  number its context expects is not reset: if the former client got any chunk through,
  the first chunk of the new one waits for the whole five seconds before it is parsed.
\<close>

theorem reused_connection_waits:
  assumes "so_freeConnectionList (nt_sock (lg_net l)) = a # fr" and "so_MsgRecvQueue (nt_sock (lg_net l)) = []"
    and "a < length (so_connectionList (nt_sock (lg_net l)))"
    and "cx_sequence (cn_context (nconn a (lg_net l))) \<noteq> 0" and "d \<noteq> []"
    and "ngx_get_connection fd (nt_sock (lg_net l)) = Some (c, s1)"
    and "l1 = l\<lparr>lg_net := (lg_net l)\<lparr>nt_sock := ngx_http_read_request_handler t c (Received d) s1\<rparr>\<rparr>"
    and "ThreadFunc_turn env now l1 = Done l2"
  shows "lg_waited l2 = lg_waited l + 5000"
proof -
  let ?s = "nt_sock (lg_net l)"
  let ?t = "?s\<lparr>so_freeConnectionList := fr, so_free_connection_n := so_free_connection_n ?s - 1,
       so_onlineUserCount := so_onlineUserCount ?s + 1\<rparr>"
  have c: "c = a" and s1: "s1 = upd_conn a (GetOneToUse fd) ?t"
    using assms(1,6) by (auto simp: ngx_get_connection.simps)
  let ?c = "GetOneToUse fd (nconn a (lg_net l))"
  let ?h = "\<lparr>mh_conn = a, mh_iCurrsequence = cn_iCurrsequence ?c, mh_sequence = 0\<rparr>"
  let ?d = "take (1024 * 1024) d"
  have ca: "conn a s1 = ?c" and len: "a < length (so_connectionList s1)" using assms(3) by (simp_all add: s1 conn_upd)
  have n: "cn_sequence ?c = 0" "cx_sequence (cn_context ?c) \<noteq> 0"
    using assms(4) by (simp_all add: GetOneToUse_def reset_def Let_def)
  let ?w1 = "lg_net l1"
  have q: "so_MsgRecvQueue (nt_sock ?w1) = [(?h, ?d)]"
    using assms(2,5) n by (simp add: assms(7) c s1 ngx_http_read_request_handler_def Let_def
        inMsgRecvQueueAndSignal_def conn_upd assms(3))
  have c1: "nconn a ?w1 = ?c\<lparr>cn_sequence := 1\<rparr>"
    using assms(5) ca len n(1) by (simp add: assms(7) c ngx_http_read_request_handler_def Let_def
        inMsgRecvQueueAndSignal_def nconn_def conn_upd del: conn_nt_sock)
  have ne: "?d \<noteq> []" using assms(5) by (cases d) auto
  let ?l1 = "l1\<lparr>lg_net := on_sock (\<lambda>s. s\<lparr>so_MsgRecvQueue := []\<rparr>) ?w1\<rparr>"
  obtain r where r: "threadRecvProcFunc env now ?h ?d ?l1 = r" by simp
  have "lg_waited l2 = lg_waited l1 + 5000"
  proof (cases "parseRequest env ?d now (cn_context ?c)")
    case None
    then show ?thesis using assms(8) q ne c1 n
      by (simp add: ThreadFunc_turn_def Let_def threadRecvProcFunc_def)
  next
    case (Some res)
    then show ?thesis using assms(8) q ne c1 n
      by (auto simp: ThreadFunc_turn_def Let_def threadRecvProcFunc_def set_context_def onRequest_def
          split: parse_result.splits if_splits option.splits prod.splits)
  qed
  then show ?thesis by (simp add: assms(7))
qed

section \<open>Witnesses\<close>

definition logic_with ::
  "bytes \<Rightarrow> 's router \<Rightarrow> 's middleware option list \<Rightarrow> 's \<Rightarrow> 's logic" where
  "logic_with d rt ms st =
     \<lparr>lg_net = on_sock (\<lambda>s. s\<lparr>so_MsgRecvQueue :=
          [(\<lparr>mh_conn = 0, mh_iCurrsequence = 1, mh_sequence = 0\<rparr>, d)]\<rparr>) (one_client []),
      lg_router = rt, lg_chain = ms, lg_app = st, lg_waited = 0\<rparr>"

lemma logic_with_waiting:
  "head_waiting ''GET'' ''/a'' [] [(''Connection'', ''keep-alive'')] ''zz'' 0
     (logic_with (render_head ''GET'' ''/a'' [] [(''Connection'', ''keep-alive'')] @ ''zz'') rt ms st)"
proof -
  have "request_ok ''GET'' ''/a'' [] [(''Connection'', ''keep-alive'')]"
    "method_of ''GET'' \<notin> {kPost, kPut}" "plain_content [(''Connection'', ''keep-alive'')]"
    by code_simp+
  moreover have "cn_context (nconn 0 (one_client [])) = reset (new_context 0)"
    by (simp add: one_client_def nconn_def conn_def GetOneToUse_def new_connection_def del: conn_nt_sock)
  ultimately show ?thesis
    by (simp add: head_waiting_def chunk_waiting_def logic_with_def)
qed

definition hello :: "nat handler" where
  "hello req = (\<lambda>(resp, n). (None, setBody_rs ''hi'' resp, Suc n))"

text \<open>A middleware that counts by tens and marks the response.\<close>

definition marking :: "nat middleware" where
  "marking = \<lparr>mw_before = (\<lambda>(r, n). (None, r, n + 10)), mw_after = (\<lambda>(p, n). (None, addHeader_rs ''X-Seen'' ''1'' p, n))\<rparr>"

theorem request_answered_witness:
  "\<exists>l' :: nat logic. lg_app l' = 15 \<and> (\<exists>h. so_MsgSendQueue (nt_sock (lg_net l')) =
     [(h, appendToBuffer (addHeader_rs ''X-Seen'' ''1'' (setBody_rs ''hi'' (new_response False))) [])])"
proof -
  let ?hs = "[(''Connection'', ''keep-alive'')]"
  let ?rt = "registerCallback kGet ''/a'' hello new_router"
  let ?l = "logic_with (render_head ''GET'' ''/a'' [] ?hs @ ''zz'') ?rt [Some marking] (4 :: nat)"
  have m: "method_of ''GET'' = kGet" by code_simp
  have k: "asks_keepalive ?hs" by code_simp
  have p: "rt_handlers (lg_router ?l) (method_of ''GET'', ''/a'') = None"
    "rt_callbacks (lg_router ?l) (method_of ''GET'', ''/a'') = Some hello"
    by (simp_all add: logic_with_def registerCallback_def new_router_def m)
  have c: "processBefore (lg_chain ?l) (r, lg_app ?l) = (Passed, r, 14) \<and> rq_method r = rq_method r \<and> rq_path r = rq_path r" for r
    by (simp add: logic_with_def marking_def)
  have h: "hello r (new_response (\<not> asks_keepalive ?hs), 14) = (None, setBody_rs ''hi'' (new_response False), 15)" for r
    by (simp add: hello_def k)
  have d: "processAfter (lg_chain ?l) (setBody_rs ''hi'' (new_response False), 15) =
      (addHeader_rs ''X-Seen'' ''1'' (setBody_rs ''hi'' (new_response False)), 15)"
    by (simp add: logic_with_def marking_def processAfter_def)
  from request_answered [OF logic_with_waiting p c h d, of demo_env 0] show ?thesis by blast
qed

theorem unknown_path_keepalive_witness:
  "\<exists>l' :: unit logic. (\<exists>h. so_MsgSendQueue (nt_sock (lg_net l')) =
      [(h, ''HTTP/1.1 404 Not Found'' @ crlf @ ''Connection: close'' @ crlf @ crlf)]) \<and>
    \<not> cn_ishttpClose (nconn 0 (lg_net l'))"
proof -
  have k: "asks_keepalive [(''Connection'', ''keep-alive'')]" by code_simp
  show ?thesis
    using unknown_path_keepalive [OF logic_with_waiting [of new_router "[]" "()"] _ k, of demo_env 0]
    by (auto simp: logic_with_def new_router_def)
qed

theorem rejected_request_has_no_version_witness:
  "\<exists>l' :: mw_state logic. \<exists>h t. so_MsgSendQueue (nt_sock (lg_net l')) =
      [(h, '' 429 Too Many Requests'' @ crlf @ t)]"
proof -
  let ?s = "\<lparr>ms_bucket = new_bucket 0 1 0, ms_now = 0\<rparr>"
  have "tb_tokens (refill_tokens (ms_now ?s) (ms_bucket ?s)) < 1"
    by (simp add: refill_tokens_def new_bucket_def to_double_def rat_number_collapse)
  then show ?thesis
    using rejected_request_has_no_version [OF logic_with_waiting [of new_router "[Some rateLimiter]" ?s], of demo_env 0]
    by (auto simp: logic_with_def)
qed

definition reused_logic :: "unit logic" where
  "reused_logic = \<lparr>lg_net = on_sock (\<lambda>s. (upd_conn 0 (\<lambda>c. c\<lparr>cn_context := (cn_context c)\<lparr>cx_sequence := 3\<rparr>\<rparr>) s)
       \<lparr>so_freeConnectionList := [0]\<rparr>) (one_client []),
     lg_router = new_router, lg_chain = [], lg_app = (), lg_waited = 0\<rparr>"

theorem reused_connection_waits_witness:
  "\<exists>l' :: unit logic. lg_waited l' = 5000"
proof -
  let ?hs = "[(''Connection'', ''keep-alive'')]"
  let ?d = "render_head ''GET'' ''/a'' [] ?hs @ []"
  let ?l = reused_logic
  have c: "nconn 0 (lg_net ?l) = (nconn 0 (one_client []))\<lparr>cn_context := (cn_context (nconn 0 (one_client [])))\<lparr>cx_sequence := 3\<rparr>\<rparr>"
    by (simp add: reused_logic_def conn_upd)
  have l: "so_freeConnectionList (nt_sock (lg_net ?l)) = [0]" "so_MsgRecvQueue (nt_sock (lg_net ?l)) = []"
    "0 < length (so_connectionList (nt_sock (lg_net ?l)))" "so_MsgSendQueue (nt_sock (lg_net ?l)) = []"
    "cx_sequence (cn_context (nconn 0 (lg_net ?l))) \<noteq> 0"
    by (simp_all add: reused_logic_def conn_upd) (simp_all add: one_client_def fresh_sock_def)
  obtain s1 where g: "ngx_get_connection 9 (nt_sock (lg_net ?l)) = Some (0, s1)"
      "conn 0 s1 = GetOneToUse 9 (nconn 0 (lg_net ?l))" "so_MsgRecvQueue s1 = []"
      "so_MsgSendQueue s1 = []" "0 < length (so_connectionList s1)"
    using l(1-4) by (auto simp: ngx_get_connection.simps conn_upd)
  define l1 where "l1 = ?l\<lparr>lg_net := (lg_net ?l)\<lparr>nt_sock := ngx_http_read_request_handler 0 0 (Received ?d) s1\<rparr>\<rparr>"
  have d: "?d \<noteq> []" "take (1024 * 1024) ?d = ?d"
    by (simp_all add: render_head_def request_line_def render_target_def render_headers_def)
  have "so_MsgRecvQueue (nt_sock (lg_net l1)) =
      [(\<lparr>mh_conn = 0, mh_iCurrsequence = cn_iCurrsequence (conn 0 s1), mh_sequence = cn_sequence (conn 0 s1)\<rparr>, ?d)]"
    and c1: "nconn 0 (lg_net l1) = (conn 0 s1)\<lparr>cn_sequence := cn_sequence (conn 0 s1) + 1\<rparr>"
    and "0 < length (so_connectionList (nt_sock (lg_net l1)))" "so_MsgSendQueue (nt_sock (lg_net l1)) = []"
    using g d unfolding l1_def nconn_def
    by (simp_all add: ngx_http_read_request_handler_def Let_def inMsgRecvQueueAndSignal_def conn_upd del: conn_nt_sock)
  moreover have "fresh (cn_context (conn 0 s1))" "cn_iSendCount (conn 0 s1) = 0"
    by (simp_all add: g(2) GetOneToUse_def)
  moreover have "request_ok ''GET'' ''/a'' [] ?hs" "method_of ''GET'' \<notin> {kPost, kPut}" "plain_content ?hs"
    by code_simp+
  ultimately have w: "head_waiting ''GET'' ''/a'' [] ?hs [] 0 l1"
    unfolding head_waiting_def chunk_waiting_def c1 by auto
  have "handleRequest (lg_router l1) (lg_chain l1) r (new_response (\<not> asks_keepalive ?hs), lg_app l1) =
      Some (not_found ((new_request)\<lparr>rq_version := ''HTTP/1.1''\<rparr>) (new_response (\<not> asks_keepalive ?hs)), ())"
    if "stands_for ''GET'' ''/a'' [] ?hs r" for r
    using that by (simp add: l1_def reused_logic_def handleRequest_def route_def new_router_def processAfter_def
        not_found_def stands_for_def)
  from head_turn [OF w this] obtain l2 where "ThreadFunc_turn demo_env 0 l1 = Done l2" by blast
  from reused_connection_waits [OF l(1-3,5) d(1) g(1) l1_def this] show ?thesis
    by (auto simp: reused_logic_def)
qed

end
