(* ===== verification/Session.thy ===== *)
theory Session
  imports HttpRequest HttpResponse
begin

text \<open>
  Sessions: \<open>src/session/session.cpp\<close>, \<open>sessionManager.cpp\<close> and
  \<open>sessionStorage.cpp\<close>. Sessions are shared pointers, so a session is an address into
  a heap, and the storage maps an identifier to an address. Times are nanoseconds; a call
  reads the clock several times, and \<open>clk i\<close> is the i-th reading. \<open>dice\<close> is the
  sequence of the random hexadecimal digits. The locale \<open>session_storage\<close> is the
  interface \<open>SessionStorage\<close> with the laws the manager relies on; it is interpreted
  on the memory storage.
\<close>

section \<open>Session\<close>

record session =
  ss_id :: string
  ss_data :: "string \<rightharpoonup> string"
  ss_expiry :: int
  ss_maxAge :: int
  ss_manager :: bool

definition second :: int where "second = 1000000000"

definition isExpired :: "int \<Rightarrow> session \<Rightarrow> bool" where
  "isExpired now s = (ss_expiry s < now)"

definition refresh :: "int \<Rightarrow> session \<Rightarrow> session" where
  "refresh now s = s\<lparr>ss_expiry := now + ss_maxAge s * second\<rparr>"

definition new_session :: "int \<Rightarrow> string \<Rightarrow> bool \<Rightarrow> int \<Rightarrow> session" where
  "new_session now sid manager maxAge =
     refresh now \<lparr>ss_id = sid, ss_data = Map.empty, ss_expiry = 0, ss_maxAge = maxAge,
       ss_manager = manager\<rparr>"

definition default_maxAge :: int where "default_maxAge = 3600"

definition setManager :: "bool \<Rightarrow> session \<Rightarrow> session" where
  "setManager m s = s\<lparr>ss_manager := m\<rparr>"

definition getValue :: "string \<Rightarrow> session \<Rightarrow> string" where
  "getValue k s = lookup_str (ss_data s) k"

definition remove_value :: "string \<Rightarrow> session \<Rightarrow> session" where
  "remove_value k s = s\<lparr>ss_data := (ss_data s)(k := None)\<rparr>"

definition clear_values :: "session \<Rightarrow> session" where
  "clear_values s = s\<lparr>ss_data := Map.empty\<rparr>"

section \<open>The memory storage\<close>

record session_world =
  sw_heap :: "session list"
  sw_store :: "string \<rightharpoonup> nat"

definition deref :: "nat \<Rightarrow> session_world \<Rightarrow> session" where
  "deref a w = sw_heap w ! a"

definition update_at :: "nat \<Rightarrow> (session \<Rightarrow> session) \<Rightarrow> session_world \<Rightarrow> session_world" where
  "update_at a f w = w\<lparr>sw_heap := (sw_heap w)[a := f (deref a w)]\<rparr>"

definition save :: "nat \<Rightarrow> session_world \<Rightarrow> session_world" where
  "save a w = w\<lparr>sw_store := (sw_store w)(ss_id (deref a w) \<mapsto> a)\<rparr>"

definition load :: "int \<Rightarrow> string \<Rightarrow> session_world \<Rightarrow> nat option \<times> session_world" where
  "load now sid w =
     (case sw_store w sid of
        None \<Rightarrow> (None, w)
      | Some a \<Rightarrow>
          if \<not> isExpired now (deref a w) then (Some a, w)
          else (None, w\<lparr>sw_store := (sw_store w)(sid := None)\<rparr>))"

definition remove :: "string \<Rightarrow> session_world \<Rightarrow> session_world" where
  "remove sid w = w\<lparr>sw_store := (sw_store w)(sid := None)\<rparr>"

text \<open>\<open>Session::setValue\<close> saves the session when it has a manager.\<close>

definition setValue :: "string \<Rightarrow> string \<Rightarrow> nat \<Rightarrow> session_world \<Rightarrow> session_world" where
  "setValue k v a w =
     (let w' = update_at a (\<lambda>s. s\<lparr>ss_data := (ss_data s)(k \<mapsto> v)\<rparr>) w
      in if ss_manager (deref a w') then save a w' else w')"

section \<open>SessionManager\<close>

definition hex_lower :: "nat \<Rightarrow> char" where
  "hex_lower d = (if d < 10 then char_of (48 + d) else char_of (87 + d))"

definition generateSessionId :: "(nat \<Rightarrow> nat) \<Rightarrow> string" where
  "generateSessionId dice = map (\<lambda>i. hex_lower (dice i mod 16)) [0..<32]"

definition getSessionIdFromCookie :: "http_request \<Rightarrow> string" where
  "getSessionIdFromCookie req =
     (let cookie = getHeader ''Cookie'' req in
      case find_sub ''sessionId='' cookie of
        None \<Rightarrow> []
      | Some p \<Rightarrow>
          (let pos = p + 10 in
           case find_from '';'' cookie pos of
             Some e \<Rightarrow> substr cookie pos (e - pos)
           | None \<Rightarrow> drop pos cookie))"

definition setSessionCookie :: "string \<Rightarrow> http_response \<Rightarrow> http_response" where
  "setSessionCookie sid resp =
     addHeader_rs ''Set-Cookie'' (''sessionId='' @ sid @ ''; Path=/; HttpOnly'') resp"

definition updateSession :: "nat \<Rightarrow> session_world \<Rightarrow> session_world" where
  "updateSession a w = save a w"

definition destroySession :: "string \<Rightarrow> session_world \<Rightarrow> session_world" where
  "destroySession sid w = remove sid w"

definition cleanExpiredSessions :: "session_world \<Rightarrow> session_world" where
  "cleanExpiredSessions w = w"

definition alloc :: "session \<Rightarrow> session_world \<Rightarrow> nat \<times> session_world" where
  "alloc s w = (length (sw_heap w), w\<lparr>sw_heap := sw_heap w @ [s]\<rparr>)"

definition getSession ::
  "(nat \<Rightarrow> int) \<Rightarrow> (nat \<Rightarrow> nat) \<Rightarrow> http_request \<Rightarrow> http_response \<times> session_world \<Rightarrow>
     nat \<times> http_response \<times> session_world" where
  "getSession clk dice req = (\<lambda>(resp, w).
     (let sessionId = getSessionIdFromCookie req;
          (found, w1) = (if sessionId \<noteq> [] then load (clk 0) sessionId w else (None, w));
          (a, resp', w2) =
            (case found of
               Some a \<Rightarrow>
                 if \<not> isExpired (clk 1) (deref a w1) then (a, resp, update_at a (setManager True) w1)
                 else (let sid = generateSessionId dice;
                           (b, w') = alloc (new_session (clk 2) sid True default_maxAge) w1
                       in (b, setSessionCookie sid resp, w'))
             | None \<Rightarrow>
                 (let sid = generateSessionId dice;
                      (b, w') = alloc (new_session (clk 2) sid True default_maxAge) w1
                  in (b, setSessionCookie sid resp, w')))
      in (a, resp', save a (update_at a (refresh (clk 3)) w2))))"

section \<open>The contract of a storage\<close>

locale session_storage =
  fixes put :: "'a \<Rightarrow> 'w \<Rightarrow> 'w"
    and fetch :: "int \<Rightarrow> string \<Rightarrow> 'w \<Rightarrow> 'a option \<times> 'w"
    and discard :: "string \<Rightarrow> 'w \<Rightarrow> 'w"
    and ident :: "'a \<Rightarrow> 'w \<Rightarrow> string"
    and live :: "int \<Rightarrow> 'a \<Rightarrow> 'w \<Rightarrow> bool"
  assumes fetch_put: "live t a w \<Longrightarrow> fst (fetch t (ident a w) (put a w)) = Some a"
    and fetch_put_other: "sid \<noteq> ident a w \<Longrightarrow> fst (fetch t sid (put a w)) = fst (fetch t sid w)"
    and fetch_discard: "fst (fetch t sid (discard sid w)) = None"
    and fetch_discard_other: "sid \<noteq> sid' \<Longrightarrow> fst (fetch t sid' (discard sid w)) = fst (fetch t sid' w)"
    and fetch_live: "fst (fetch t sid w) = Some a \<Longrightarrow> live t a w"
    and ident_put: "ident b (put a w) = ident b w"
    and live_put: "live t b (put a w) = live t b w"
begin

lemma ident_puts: "ident b (fold put as w) = ident b w"
  by (induction "as" arbitrary: w) (simp_all add: ident_put)

text \<open>A saved session is found as long as it lives and no other of its name is saved.\<close>

lemma fetch_puts_other:
  "\<forall>b \<in> set as. ident b w \<noteq> sid \<Longrightarrow> fst (fetch t sid (fold put as w)) = fst (fetch t sid w)"
  by (induction "as" arbitrary: w) (auto simp: ident_put fetch_put_other)

lemma found_after_puts:
  "live t a w \<Longrightarrow> \<forall>b \<in> set as. ident b w \<noteq> ident a w \<Longrightarrow>
     fst (fetch t (ident a w) (fold put as (put a w))) = Some a"
  by (simp add: fetch_puts_other ident_put fetch_put)

lemma gone_after_discard:
  "\<forall>b \<in> set as. ident b (discard sid w) \<noteq> sid \<Longrightarrow>
     fst (fetch t sid (fold put as (discard sid w))) = None"
  by (simp add: fetch_puts_other fetch_discard)

end

interpretation mem: session_storage save load remove "\<lambda>a w. ss_id (deref a w)"
  "\<lambda>t a w. \<not> isExpired t (deref a w)"
  by unfold_locales
    (auto simp: save_def load_def remove_def deref_def split: option.splits if_splits)

section \<open>Facts\<close>

definition world_ok :: "session_world \<Rightarrow> bool" where
  "world_ok w \<longleftrightarrow> (\<forall>sid a. sw_store w sid = Some a \<longrightarrow> a < length (sw_heap w) \<and> ss_id (deref a w) = sid)"

lemma deref_update [simp]:
  "a < length (sw_heap w) \<Longrightarrow> deref a (update_at a f w) = f (deref a w)"
  by (simp add: deref_def update_at_def)

lemma deref_update_other [simp]: "b \<noteq> a \<Longrightarrow> deref b (update_at a f w) = deref b w"
  by (simp add: deref_def update_at_def)

lemma store_update [simp]: "sw_store (update_at a f w) = sw_store w"
  by (simp add: update_at_def)

lemma heap_length_update [simp]: "length (sw_heap (update_at a f w)) = length (sw_heap w)"
  by (simp add: update_at_def)

lemma save_simps [simp]:
  "sw_heap (save a w) = sw_heap w" "deref b (save a w) = deref b w"
  "sw_store (save a w) = (sw_store w)(ss_id (deref a w) \<mapsto> a)"
  by (simp_all add: save_def deref_def)

lemma ident_kept [simp]:
  "ss_id (refresh t s) = ss_id s" "ss_id (setManager m s) = ss_id s"
  "ss_data (refresh t s) = ss_data s" "ss_data (setManager m s) = ss_data s"
  "ss_maxAge (refresh t s) = ss_maxAge s" "ss_maxAge (setManager m s) = ss_maxAge s"
  "ss_expiry (refresh t s) = t + ss_maxAge s * second"
  by (simp_all add: refresh_def setManager_def)

lemma new_session_simps [simp]:
  "ss_id (new_session t sid m age) = sid" "ss_data (new_session t sid m age) = Map.empty"
  "ss_maxAge (new_session t sid m age) = age"
  by (simp_all add: new_session_def)

lemma ident_update:
  assumes "\<And>s. ss_id (f s) = ss_id s"
  shows "ss_id (deref b (update_at a f w)) = ss_id (deref b w)"
proof (cases "a < length (sw_heap w)")
  case True
  with assms show ?thesis by (cases "b = a") simp_all
qed (simp add: deref_def update_at_def list_update_beyond)

lemma world_ok_update: "world_ok w \<Longrightarrow> (\<And>s. ss_id (f s) = ss_id s) \<Longrightarrow> world_ok (update_at a f w)"
  by (simp add: world_ok_def ident_update)

lemma world_ok_save: "world_ok w \<Longrightarrow> a < length (sw_heap w) \<Longrightarrow> world_ok (save a w)"
  by (auto simp: world_ok_def)

lemma world_ok_load: "world_ok w \<Longrightarrow> world_ok (snd (load t sid w))"
  by (auto simp: world_ok_def load_def deref_def split: option.splits)

lemma world_ok_remove: "world_ok w \<Longrightarrow> world_ok (remove sid w)"
  by (auto simp: world_ok_def remove_def deref_def)

lemma world_ok_alloc: "world_ok w \<Longrightarrow> world_ok (snd (alloc s w))"
  by (fastforce simp: world_ok_def alloc_def deref_def nth_append)

lemma cookie_alone:
  assumes "getHeader ''Cookie'' req = ''sessionId='' @ sid" and "CHR '';'' \<notin> set sid"
  shows "getSessionIdFromCookie req = sid"
proof -
  have "find_sub '';'' sid = None" using assms(2) by (rule find_sub_absent)
  then show ?thesis using assms(1) by (simp add: getSessionIdFromCookie_def find_from_def)
qed

lemma substr_no_char:
  assumes "find_from [c] s pos = Some e"
  shows "c \<notin> set (substr s pos (e - pos))"
proof -
  obtain i where i: "find_sub [c] (drop pos s) = Some i" and e: "e = i + pos"
    using assms by (auto simp: find_from_def split: if_splits)
  have "find_sub [c] xs = Some j \<Longrightarrow> c \<notin> set (take j xs)" for xs :: "'a list" and j
    by (induction xs arbitrary: j) (auto split: if_splits)
  from this [OF i] show ?thesis by (simp add: substr_def e)
qed

lemma find_from_None_drop:
  assumes "find_from [c] s pos = None" and "pos \<le> length s"
  shows "c \<notin> set (drop pos s)"
proof -
  have "find_sub [c] xs = None \<Longrightarrow> c \<notin> set xs" for xs :: "'a list"
    by (induction xs) (auto split: if_splits)
  with assms show ?thesis by (auto simp: find_from_def)
qed

lemma cookie_id_no_semicolon: "CHR '';'' \<notin> set (getSessionIdFromCookie req)"
proof (cases "find_sub ''sessionId='' (getHeader ''Cookie'' req)")
  case None
  then show ?thesis by (simp add: getSessionIdFromCookie_def Let_def)
next
  case (Some p)
  then have "p + 10 \<le> length (getHeader ''Cookie'' req)" by (auto dest: find_sub_bound)
  with Some show ?thesis
    by (auto simp: getSessionIdFromCookie_def Let_def split: option.splits
        dest: substr_no_char find_from_None_drop)
qed

lemma hex_lower_plain: "d < 16 \<Longrightarrow> hex_lower d \<noteq> CHR '';''"
proof -
  assume "d < 16"
  then have "ordc (hex_lower d) \<noteq> 59" by (auto simp: hex_lower_def ordc_def)
  then show ?thesis by (auto simp: ordc_def)
qed

lemma generated_id: "length (generateSessionId dice) = 32" "CHR '';'' \<notin> set (generateSessionId dice)"
  using hex_lower_plain by (auto simp: generateSessionId_def) (metis mod_less_divisor zero_less_numeral)

text \<open>The two ways through \<open>getSession\<close>.\<close>

lemma getSession_resumes:
  assumes "getSessionIdFromCookie req = sid" and "sid \<noteq> []" and "sw_store w sid = Some a"
    and "\<not> isExpired (clk 0) (deref a w)" and "\<not> isExpired (clk 1) (deref a w)"
  shows "getSession clk dice req (resp, w) =
    (a, resp, save a (update_at a (refresh (clk 3)) (update_at a (setManager True) w)))"
  using assms by (simp add: getSession_def load_def Let_def)

definition adopted :: "(nat \<Rightarrow> int) \<Rightarrow> string \<Rightarrow> session_world \<Rightarrow> bool" where
  "adopted clk sid w \<longleftrightarrow> sid \<noteq> [] \<and>
     (\<exists>a. sw_store w sid = Some a \<and> \<not> isExpired (clk 0) (deref a w) \<and> \<not> isExpired (clk 1) (deref a w))"

lemma getSession_creates:
  assumes "\<not> adopted clk (getSessionIdFromCookie req) w"
  shows "\<exists>w1. sw_heap w1 = sw_heap w \<and> (world_ok w \<longrightarrow> world_ok w1) \<and>
    getSession clk dice req (resp, w) =
      (length (sw_heap w), setSessionCookie (generateSessionId dice) resp,
       save (length (sw_heap w)) (update_at (length (sw_heap w)) (refresh (clk 3))
         (snd (alloc (new_session (clk 2) (generateSessionId dice) True default_maxAge) w1))))"
proof -
  let ?sid = "getSessionIdFromCookie req"
  let ?w1 = "if ?sid \<noteq> [] then snd (load (clk 0) ?sid w) else w"
  have h: "sw_heap ?w1 = sw_heap w" by (simp add: load_def split: option.split)
  have ok: "world_ok w \<longrightarrow> world_ok ?w1" by (simp add: world_ok_load)
  have "getSession clk dice req (resp, w) =
      (length (sw_heap w), setSessionCookie (generateSessionId dice) resp,
       save (length (sw_heap w)) (update_at (length (sw_heap w)) (refresh (clk 3))
         (snd (alloc (new_session (clk 2) (generateSessionId dice) True default_maxAge) ?w1))))"
    using assms h
    by (auto simp: getSession_def Let_def load_def alloc_def adopted_def split: option.splits)
  with h ok show ?thesis by blast
qed

lemma deref_alloc [simp]:
  "deref (length (sw_heap w)) (snd (alloc s w)) = s"
  "b < length (sw_heap w) \<Longrightarrow> deref b (snd (alloc s w)) = deref b w"
  "length (sw_heap (snd (alloc s w))) = Suc (length (sw_heap w))"
  "sw_store (snd (alloc s w)) = sw_store w"
  by (simp_all add: alloc_def deref_def nth_append)

definition session_good :: "nat \<Rightarrow> session_world \<Rightarrow> bool" where
  "session_good a w \<longleftrightarrow> a < length (sw_heap w) \<and> sw_store w (ss_id (deref a w)) = Some a \<and>
     ss_id (deref a w) \<noteq> [] \<and> CHR '';'' \<notin> set (ss_id (deref a w))"

lemma getSession_good:
  assumes "world_ok w" and "getSession clk dice req (resp, w) = (a, resp', w')"
  shows "world_ok w' \<and> session_good a w' \<and>
    ss_expiry (deref a w') = clk 3 + ss_maxAge (deref a w') * second"
proof (cases "adopted clk (getSessionIdFromCookie req) w")
  case True
  then obtain b where b: "sw_store w (getSessionIdFromCookie req) = Some b"
    and sid: "getSessionIdFromCookie req \<noteq> []"
    and live: "\<not> isExpired (clk 0) (deref b w)" "\<not> isExpired (clk 1) (deref b w)"
    by (auto simp: adopted_def)
  from b assms(1) have lt: "b < length (sw_heap w)" and i: "ss_id (deref b w) = getSessionIdFromCookie req"
    by (auto simp: world_ok_def)
  from getSession_resumes [OF refl sid b live, of dice resp] assms(2)
  have "a = b" and w': "w' = save b (update_at b (refresh (clk 3)) (update_at b (setManager True) w))"
    by simp_all
  with lt i sid cookie_id_no_semicolon [of req] assms(1) show ?thesis
    by (auto simp: session_good_def intro!: world_ok_save world_ok_update)
next
  case False
  from getSession_creates [OF False, of dice resp] assms
  obtain w1 where h: "sw_heap w1 = sw_heap w" and ok: "world_ok w1" and a: "a = length (sw_heap w)"
    and w': "w' = save a (update_at a (refresh (clk 3))
      (snd (alloc (new_session (clk 2) (generateSessionId dice) True default_maxAge) w1)))"
    by auto
  have a1: "a = length (sw_heap w1)" using a h by simp
  have "generateSessionId dice \<noteq> []" using generated_id(1) [of dice] by fastforce
  with generated_id(2) [of dice] ok show ?thesis unfolding w' a1
    by (auto simp: session_good_def intro!: world_ok_save world_ok_update world_ok_alloc)
qed

section \<open>Properties\<close>

text \<open>
  C15: a session lives on: when a request got a session, a later request whose cookie carries
  the identifier of that session, at a time within the session's age, gets the same session
  with the same data, and no new cookie.
\<close>

theorem session_resumed:
  assumes "world_ok w" and "getSession clk dice req (resp, w) = (a, resp1, w1)"
    and "getHeader ''Cookie'' req2 = ''sessionId='' @ ss_id (deref a w1)"
    and "clk2 0 \<le> clk 3 + ss_maxAge (deref a w1) * second"
    and "clk2 1 \<le> clk 3 + ss_maxAge (deref a w1) * second"
  shows "\<exists>w2. getSession clk2 dice2 req2 (resp2, w1) = (a, resp2, w2) \<and>
    ss_data (deref a w2) = ss_data (deref a w1) \<and> ss_id (deref a w2) = ss_id (deref a w1)"
proof -
  note good = getSession_good [OF assms(1,2)]
  have lt: "a < length (sw_heap w1)" using good by (simp add: session_good_def)
  have sid: "getSessionIdFromCookie req2 = ss_id (deref a w1)"
    using good assms(3) by (intro cookie_alone) (simp_all add: session_good_def)
  have "getSession clk2 dice2 req2 (resp2, w1) =
    (a, resp2, save a (update_at a (refresh (clk2 3)) (update_at a (setManager True) w1)))"
    using good assms(4,5) by (intro getSession_resumes [OF sid])
      (simp_all add: session_good_def isExpired_def)
  with lt show ?thesis by simp
qed

definition demo_world :: session_world where
  "demo_world = \<lparr>sw_heap = [], sw_store = Map.empty\<rparr>"

lemma session_resumed_witness:
  "\<exists>a resp1 w1 w2. getSession (\<lambda>_. 0) (\<lambda>i. i) new_request (new_response True, demo_world) = (a, resp1, w1) \<and>
    getSession (\<lambda>_. 5) (\<lambda>_. 0) (addHeader ''Cookie'' (''sessionId='' @ ss_id (deref a w1)) new_request)
      (new_response True, w1) = (a, new_response True, w2)"
proof -
  obtain a resp1 w1 where g: "getSession (\<lambda>_. 0) (\<lambda>i. i) new_request (new_response True, demo_world) =
      (a, resp1, w1)" by (metis prod_cases3)
  have ok: "world_ok demo_world" by (simp add: world_ok_def demo_world_def)
  have age: "ss_maxAge (deref a w1) = 3600"
    using g by (auto simp: getSession_def getSessionIdFromCookie_def Let_def alloc_def deref_def
        update_at_def demo_world_def new_request_def getHeader_def default_maxAge_def)
  from session_resumed [OF ok g, of "addHeader ''Cookie'' (''sessionId='' @ ss_id (deref a w1)) new_request"
      "\<lambda>_. 5" "\<lambda>_. 0" "new_response True"] age g
  show ?thesis by (auto simp: second_def)
qed

text \<open>
  C26: an identifier the server does not know, or whose session has expired, is never taken
  over from a client: the session then has the 32 digits the server draws, no data, and the
  response sets the cookie to them.
\<close>

theorem foreign_id_not_adopted:
  assumes "\<not> adopted clk (getSessionIdFromCookie req) w"
  shows "\<exists>w'. getSession clk dice req (resp, w) =
      (length (sw_heap w), setSessionCookie (generateSessionId dice) resp, w') \<and>
    ss_id (deref (length (sw_heap w)) w') = generateSessionId dice \<and>
    ss_data (deref (length (sw_heap w)) w') = Map.empty \<and> length (generateSessionId dice) = 32"
proof -
  obtain w1 where h: "sw_heap w1 = sw_heap w" and g: "getSession clk dice req (resp, w) =
      (length (sw_heap w), setSessionCookie (generateSessionId dice) resp,
       save (length (sw_heap w)) (update_at (length (sw_heap w)) (refresh (clk 3))
         (snd (alloc (new_session (clk 2) (generateSessionId dice) True default_maxAge) w1))))"
    using getSession_creates [OF assms] by blast
  show ?thesis unfolding g h [symmetric] by (simp add: generated_id)
qed

lemma foreign_id_not_adopted_witness:
  "fst (getSession (\<lambda>_. 0) (\<lambda>i. i) (addHeader ''Cookie'' ''sessionId=stolen'' new_request)
     (new_response True, demo_world)) = 0"
proof -
  have "\<not> adopted (\<lambda>_. 0) (getSessionIdFromCookie (addHeader ''Cookie'' ''sessionId=stolen'' new_request)) demo_world"
    by (simp add: adopted_def demo_world_def)
  from foreign_id_not_adopted [OF this, of "\<lambda>i. i" "new_response True"]
  show ?thesis by (auto simp: demo_world_def)
qed

text \<open>
  A destroyed session is not found again, whatever other sessions are saved after it.
\<close>

theorem destroyed_session_gone:
  assumes "\<forall>b \<in> set bs. ss_id (deref b (destroySession sid w)) \<noteq> sid"
  shows "fst (load now sid (fold save bs (destroySession sid w))) = None"
  using mem.gone_after_discard [of bs sid w now] assms by (simp add: destroySession_def)

lemma destroyed_session_gone_witness:
  "fst (load 0 ''x'' (fold save [] (destroySession ''x'' demo_world))) = None"
  by (rule destroyed_session_gone) simp

lemma world_ok_setValue:
  assumes "world_ok w" and "a < length (sw_heap w)"
  shows "world_ok (setValue k v a w)"
proof -
  have "world_ok (update_at a (\<lambda>s. s\<lparr>ss_data := (ss_data s)(k \<mapsto> v)\<rparr>) w)"
    by (rule world_ok_update [OF assms(1)]) simp
  then show ?thesis using assms(2) by (simp add: setValue_def Let_def world_ok_save)
qed

text \<open>
  C25: the storage is well typed: every identifier it holds leads to a session that exists and
  has this identifier, and every operation of sessions, storage and manager keeps it so; what
  \<open>getSession\<close> gives is a session that is stored, under a name that a cookie can carry.
\<close>

theorem session_store_typed:
  assumes "world_ok w" and "b < length (sw_heap w)"
  shows "(case getSession clk dice req (resp, w) of (a, resp', w') \<Rightarrow> world_ok w' \<and> session_good a w') \<and>
    world_ok (setValue k v b w) \<and> world_ok (update_at b (remove_value k) w) \<and>
    world_ok (update_at b clear_values w) \<and> world_ok (save b w) \<and> world_ok (snd (load now sid w)) \<and>
    world_ok (destroySession sid w) \<and> world_ok (updateSession b w) \<and> world_ok (cleanExpiredSessions w)"
proof -
  obtain a resp' w' where g: "getSession clk dice req (resp, w) = (a, resp', w')" by (metis prod_cases3)
  have "world_ok (update_at b (remove_value k) w)" "world_ok (update_at b clear_values w)"
    by (rule world_ok_update [OF assms(1)], simp add: remove_value_def clear_values_def)+
  with getSession_good [OF assms(1) g] g assms show ?thesis
    by (simp add: world_ok_setValue world_ok_save world_ok_load world_ok_remove destroySession_def
        updateSession_def cleanExpiredSessions_def)
qed

lemma session_store_typed_witness:
  "world_ok (setValue ''user'' ''ann'' 0 \<lparr>sw_heap = [new_session 0 ''x'' True 3600], sw_store = [''x'' \<mapsto> 0]\<rparr>)"
proof -
  have "world_ok \<lparr>sw_heap = [new_session 0 ''x'' True 3600], sw_store = [''x'' \<mapsto> 0]\<rparr>"
    by (simp add: world_ok_def deref_def)
  from session_store_typed [OF this, of 0 "\<lambda>_. 0" "\<lambda>_. 0" new_request "new_response True" "''user''" "''ann''"]
  show ?thesis by simp
qed

end
