(* ===== verification/Logging.thy ===== *)
theory Logging
  imports Conf
begin

text \<open>
  The logger: \<open>src/logger/my_logger.cpp\<close>, with the constants of
  \<open>include/util/my_macro.h\<close>. The formatter writes between two pointers, \<open>buf\<close> and
  \<open>last\<close>; here that is the text written so far and \<open>room\<close>, the number of bytes left,
  an integer, so that writing past \<open>last\<close> would show as a negative one. Arguments are a
  list; \<open>va_arg\<close> on a missing argument or one of another type is undefined behaviour
  and is \<open>None\<close>, as is reading the format behind its end, and a copy whose length, the room,
  would be negative.
\<close>

unbundle bit_operations_syntax

section \<open>Numbers\<close>

definition NGX_MAX_UINT32_VALUE :: u64 where "NGX_MAX_UINT32_VALUE = 0xffffffff"
definition NGX_MAX_ERROR_STR :: nat where "NGX_MAX_ERROR_STR = 2048"

definition hex_digit_char :: "bool \<Rightarrow> nat \<Rightarrow> char" where
  "hex_digit_char upper d =
     (if d < 10 then char_of (48 + d) else if upper then char_of (55 + d) else char_of (87 + d))"

fun hex_text :: "bool \<Rightarrow> nat \<Rightarrow> string" where
  "hex_text upper n =
     (if n < 16 then [hex_digit_char upper n]
      else hex_text upper (n div 16) @ [hex_digit_char upper (n mod 16)])"

declare hex_text.simps [simp del]

text \<open>A value below 2 to the 32 is printed from its low word.\<close>

definition number_text :: "u64 \<Rightarrow> nat \<Rightarrow> string" where
  "number_text ui64 hexadecimal =
     (if hexadecimal = 0 then
        if ui64 \<le> NGX_MAX_UINT32_VALUE then dec (unat (ucast ui64 :: u32)) else dec (unat ui64)
      else hex_text (hexadecimal \<noteq> 1) (unat ui64))"

type_synonym out = "string \<times> int"

definition put :: "string \<Rightarrow> out \<Rightarrow> out" where
  "put s = (\<lambda>(t, room). (t @ s, room - int (length s)))"

text \<open>
  Padding stops at the end of the room; the digits are cut to what is left of it. A
  negative rest would be a huge length for the copy.
\<close>

definition ngx_sprintf_num :: "u64 \<Rightarrow> char \<Rightarrow> nat \<Rightarrow> u64 \<Rightarrow> out \<Rightarrow> out option" where
  "ngx_sprintf_num ui64 zero hexadecimal width o1 =
     (let ds = number_text ui64 hexadecimal;
          o2 = put (replicate (min (unat width - length ds) (nat (snd o1))) zero) o1
      in if snd o2 < 0 then None
         else if snd o2 \<le> int (length ds) then Some (put (take (nat (snd o2)) ds) o2)
         else Some (put ds o2))"

section \<open>The formatter\<close>

text \<open>
  An argument: a word, a string, or a \<open>double\<close> given by its sign, its integer part
  \<open>(uint64_t) |f|\<close> and, for a scale \<open>s\<close>, the value of
  \<open>(uint64_t) ((|f| - integer part) * s + 0.5)\<close>.
\<close>

datatype farg = Num u64 | Str string | Dbl bool u64 "u64 \<Rightarrow> u64"

fun read_width :: "u64 \<Rightarrow> string \<Rightarrow> u64 \<times> string" where
  "read_width w [] = (w, [])"
| "read_width w (c # cs) =
     (if is_digit c then read_width (w * 10 + of_nat (ordc c) - 48) cs else (w, c # cs))"

fun read_flags :: "bool \<Rightarrow> nat \<Rightarrow> string \<Rightarrow> bool \<times> nat \<times> u64 \<times> string" where
  "read_flags sign hex [] = (sign, hex, 0, [])"
| "read_flags sign hex (c # cs) =
     (if c = CHR ''u'' then read_flags False hex cs
      else if c = CHR ''X'' then read_flags False 2 cs
      else if c = CHR ''x'' then read_flags False 1 cs
      else if c = CHR ''.'' then (case read_width 0 cs of (fw, r) \<Rightarrow> (sign, hex, fw, r))
      else (sign, hex, 0, c # cs))"

lemma read_width_length: "length (snd (read_width w s)) \<le> length s"
  by (induction w s rule: read_width.induct) auto

lemma read_flags_length: "length (snd (snd (snd (read_flags sg h s)))) \<le> length s"
proof (induction sg h s rule: read_flags.induct)
  case (2 sg h c cs)
  then show ?case using read_width_length [of 0 cs] by (auto split: prod.splits)
qed simp

definition signed_number :: "u64 \<Rightarrow> char \<Rightarrow> nat \<Rightarrow> u64 \<Rightarrow> out \<Rightarrow> out option" where
  "signed_number i64 zero hex width o1 =
     (if sint i64 < 0 then ngx_sprintf_num (- i64) zero hex width (put ''-'' o1)
      else ngx_sprintf_num i64 zero hex width o1)"

definition print_double ::
  "bool \<Rightarrow> u64 \<Rightarrow> (u64 \<Rightarrow> u64) \<Rightarrow> char \<Rightarrow> u64 \<Rightarrow> u64 \<Rightarrow> out \<Rightarrow> out option" where
  "print_double neg ip frac_at zero width frac_width o0 =
     (let o1 = (if neg then put ''-'' o0 else o0) in
      if frac_width = 0 then ngx_sprintf_num ip zero 0 width o1
      else
        (let scale = 10 ^ unat frac_width;
             (ip', frac) = (if scale \<le> frac_at scale then (ip + 1, 0) else (ip, frac_at scale))
         in case ngx_sprintf_num ip' zero 0 width o1 of
              None \<Rightarrow> None
            | Some o2 \<Rightarrow>
                ngx_sprintf_num frac (CHR ''0'') 0 frac_width (if 0 < snd o2 then put ''.'' o2 else o2)))"

text \<open>
  One conversion, at the character after the flags: the format left, the arguments left
  and the text. \<open>%p\<close> takes a pointer as a word, \<open>%P\<close> a \<open>pid_t\<close>.
\<close>

fun convert ::
  "char \<Rightarrow> bool \<Rightarrow> nat \<Rightarrow> char \<Rightarrow> u64 \<Rightarrow> u64 \<Rightarrow> farg list \<Rightarrow> out \<Rightarrow> (farg list \<times> out) option" where
  "convert c sign hex zero width frac_width args o1 =
     (if c = CHR ''%'' then Some (args, put ''%'' o1)
      else if c \<in> {CHR ''d'', CHR ''i'', CHR ''L''} then
        (case args of
           Num v # as \<Rightarrow>
             map_option (Pair as)
               (if sign then signed_number v zero hex width o1 else ngx_sprintf_num v zero hex width o1)
         | _ \<Rightarrow> None)
      else if c = CHR ''p'' then
        (case args of
           Num v # as \<Rightarrow> map_option (Pair as) (ngx_sprintf_num v (CHR ''0'') 2 16 o1)
         | _ \<Rightarrow> None)
      else if c = CHR ''s'' then
        (case args of
           Str s # as \<Rightarrow> Some (as, put (take (nat (snd o1)) (c_str s)) o1)
         | _ \<Rightarrow> None)
      else if c = CHR ''P'' then
        (case args of
           Num v # as \<Rightarrow> map_option (Pair as) (signed_number (scast (ucast v :: u32)) zero hex width o1)
         | _ \<Rightarrow> None)
      else if c = CHR ''f'' then
        (case args of
           Dbl neg ip frac_at # as \<Rightarrow> map_option (Pair as) (print_double neg ip frac_at zero width frac_width o1)
         | _ \<Rightarrow> None)
      else Some (args, put [c] o1))"

declare convert.simps [simp del]

function ngx_vslprintf :: "string \<Rightarrow> farg list \<Rightarrow> out \<Rightarrow> out option" where
  "ngx_vslprintf [] args o1 = Some o1"
| "ngx_vslprintf (ch # fmt) args o1 =
     (if snd o1 \<le> 0 then Some o1
      else if ch \<noteq> CHR ''%'' then ngx_vslprintf fmt args (put [ch] o1)
      else
        (let zero = (if fmt \<noteq> [] \<and> hd fmt = CHR ''0'' then CHR ''0'' else CHR '' '');
             wr = read_width 0 fmt;
             fl = read_flags True 0 (snd wr)
         in case snd (snd (snd fl)) of
              [] \<Rightarrow> None
            | c # r \<Rightarrow>
                (case convert c (fst fl) (fst (snd fl)) zero (fst wr) (fst (snd (snd fl))) args o1 of
                   None \<Rightarrow> None
                 | Some (args', o2) \<Rightarrow> ngx_vslprintf r args' o2)))"
  by pat_completeness auto
termination
proof (relation "measure (\<lambda>(f, _). length f)", goal_cases)
  case (3 ch fmt args o1 zero wr fl c r p args' o2)
  have "Suc (length r) \<le> length (snd wr)"
    using read_flags_length [of True 0 "snd wr"] 3(6,5) by simp
  also have "\<dots> \<le> length fmt" using read_width_length [of 0 fmt] 3(4) by simp
  finally show ?case by simp
qed simp_all

declare ngx_vslprintf.simps [simp del]

definition ngx_slprintf :: "string \<Rightarrow> farg list \<Rightarrow> out \<Rightarrow> out option" where
  "ngx_slprintf fmt args o1 = ngx_vslprintf fmt args o1"

definition ngx_snprintf :: "nat \<Rightarrow> string \<Rightarrow> farg list \<Rightarrow> string option" where
  "ngx_snprintf n fmt args = map_option fst (ngx_vslprintf fmt args ([], int n))"

section \<open>Writing the log\<close>

record my_log_t =
  ml_LogLevel :: int
  ml_fd :: int

definition initial_log :: my_log_t where
  "initial_log = \<lparr>ml_LogLevel = 7, ml_fd = -1\<rparr>"

definition err_level :: "string list" where
  "err_level = [''stderr'', ''emerg'', ''alert'', ''crit'', ''error'', ''warn'', ''notice'', ''info'', ''debug'']"

text \<open>The text of an error number goes in whole or not at all.\<close>

definition ngx_log_errno :: "(int \<Rightarrow> string) \<Rightarrow> int \<Rightarrow> out \<Rightarrow> out" where
  "ngx_log_errno strerror err o1 =
     (let left = '' ('' @ dec_int err @ '': ''; msg = strerror err; right = '') '' in
      if int (length msg) + int (length left) + int (length right) < snd o1
      then put right (put msg (put left o1)) else o1)"

definition end_line :: "out \<Rightarrow> string" where
  "end_line = (\<lambda>(t, room). (if room \<le> 1 then take (NGX_MAX_ERROR_STR - 2) t else t) @ [LF])"

text \<open>What a process writes: descriptor and text. \<open>fails\<close> says which writes fail for good.\<close>

record log_env =
  le_time :: "int \<times> int \<times> int \<times> int \<times> int \<times> int"
  le_pid :: int
  le_strerror :: "int \<Rightarrow> string"
  le_fails :: "int \<Rightarrow> bool"

definition num_arg :: "int \<Rightarrow> farg" where "num_arg i = Num (word_of_int i)"

definition ngx_log_error_core ::
  "log_env \<Rightarrow> my_log_t \<Rightarrow> nat \<Rightarrow> int \<Rightarrow> string \<Rightarrow> farg list \<Rightarrow> (int \<times> string) list option" where
  "ngx_log_error_core env lg level err fmt args =
     (case le_time env of (y, mo, d, h, mi, s) \<Rightarrow>
        (case ngx_slprintf ''%4d-%02d-%02d %02d:%02d:%02d''
                [num_arg y, num_arg mo, num_arg d, num_arg h, num_arg mi, num_arg s] ([], 2 ^ 63) of
           None \<Rightarrow> None
         | Some (strcurrtime, _) \<Rightarrow>
             if length err_level \<le> level then None
             else
               (case Option.bind (ngx_slprintf '' [%s] '' [Str (err_level ! level)]
                         (put strcurrtime ([], int NGX_MAX_ERROR_STR)))
                       (\<lambda>o1. Option.bind (ngx_slprintf ''%P: '' [num_arg (le_pid env)] o1)
                          (ngx_vslprintf fmt args)) of
                  None \<Rightarrow> None
                | Some o2 \<Rightarrow>
                    (let text = end_line (if err \<noteq> 0 then ngx_log_errno (le_strerror env) err o2 else o2)
                     in if ml_LogLevel lg < int level then Some []
                        else Some ((ml_fd lg, text) #
                               (if le_fails env (ml_fd lg) \<and> ml_fd lg \<noteq> 2 then [(2, text)] else []))))))"

text \<open>With a log file open the finished line goes there too, as the format of another call.\<close>

definition ngx_log_stderr ::
  "log_env \<Rightarrow> my_log_t \<Rightarrow> int \<Rightarrow> string \<Rightarrow> farg list \<Rightarrow> (int \<times> string) list option" where
  "ngx_log_stderr env lg err fmt args =
     (case ngx_vslprintf fmt args (put ''nginx: '' ([], int NGX_MAX_ERROR_STR)) of
        None \<Rightarrow> None
      | Some o1 \<Rightarrow>
          (let text = end_line (if err \<noteq> 0 then ngx_log_errno (le_strerror env) err o1 else o1) in
           if 2 < ml_fd lg then
             map_option (\<lambda>ws. (2, text) # ws)
               (ngx_log_error_core env lg 0 0 (c_str (butlast text)) [])
           else Some [(2, text)]))"

text \<open>
  Opening the log: the path of the executable (\<open>None\<close> when it cannot be read), whether
  the directory is there or can be made, and the descriptor of the file.
\<close>

definition ngx_log_init ::
  "string option \<Rightarrow> (string \<Rightarrow> bool) \<Rightarrow> (string \<Rightarrow> int option) \<Rightarrow> conf_item list \<Rightarrow> my_log_t \<Rightarrow> my_log_t" where
  "ngx_log_init exe dir_ok open_file items lg =
     (case exe of
        None \<Rightarrow> lg\<lparr>ml_fd := 2\<rparr>
      | Some exePath \<Rightarrow>
          (let exeDir = (case rfind_char (CHR ''/'') exePath of None \<Rightarrow> exePath | Some p \<Rightarrow> take p exePath);
               logDir = exeDir @ ''/../log''
           in if \<not> dir_ok logDir then lg\<lparr>ml_fd := 2\<rparr>
              else
                (let file = logDir @ ''/'' @ (case GetString ''Log'' items of None \<Rightarrow> ''error.log'' | Some n \<Rightarrow> n)
                 in lg\<lparr>ml_LogLevel := GetIntDefault ''LogLevel'' 6 items,
                       ml_fd := (case open_file file of None \<Rightarrow> 2 | Some fd \<Rightarrow> fd)\<rparr>)))"

definition ngx_log_close :: "my_log_t \<Rightarrow> my_log_t" where
  "ngx_log_close lg = (if ml_fd lg \<noteq> 2 \<and> ml_fd lg \<noteq> -1 then lg\<lparr>ml_fd := -1\<rparr> else lg)"

section \<open>The formatter stays within its room\<close>

definition extends :: "out \<Rightarrow> out \<Rightarrow> bool" where
  "extends o1 o2 \<longleftrightarrow> (\<exists>a. fst o2 = fst o1 @ a \<and> snd o2 = snd o1 - int (length a)) \<and> 0 \<le> snd o2"

lemma extends_refl [simp]: "0 \<le> snd o1 \<Longrightarrow> extends o1 o1"
  by (auto simp: extends_def)

lemma extends_trans: "extends o1 o2 \<Longrightarrow> extends o2 o3 \<Longrightarrow> extends o1 o3"
  by (auto simp: extends_def)

lemma extends_put: "int (length s) \<le> snd o1 \<Longrightarrow> extends o1 (put s o1)"
  by (cases o1) (auto simp: extends_def put_def)

lemma put_simps [simp]: "snd (put s o1) = snd o1 - int (length s)" "fst (put s o1) = fst o1 @ s"
  by (cases o1; simp add: put_def)+

lemma sprintf_num_extends:
  assumes "0 \<le> snd o1"
  shows "\<exists>o2. ngx_sprintf_num v zero hex width o1 = Some o2 \<and> extends o1 o2"
proof -
  let ?ds = "number_text v hex"
  let ?o2 = "put (replicate (min (unat width - length ?ds) (nat (snd o1))) zero) o1"
  have 2: "extends o1 ?o2" using assms by (intro extends_put) simp
  then have r: "0 \<le> snd ?o2" by (simp only: extends_def)
  show ?thesis
  proof (cases "snd ?o2 \<le> int (length ?ds)")
    case True
    have "extends ?o2 (put (take (nat (snd ?o2)) ?ds) ?o2)"
      using r True by (intro extends_put) (simp only: length_take, linarith)
    from extends_trans [OF 2 this] show ?thesis
      using r True by (simp only: ngx_sprintf_num_def Let_def not_le [symmetric]) simp
  next
    case False
    have "extends ?o2 (put ?ds ?o2)" using False by (intro extends_put) linarith
    from extends_trans [OF 2 this] show ?thesis
      using r False by (simp only: ngx_sprintf_num_def Let_def not_le [symmetric]) simp
  qed
qed

lemma sprintf_num_Some:
  "ngx_sprintf_num v zero hex width o1 = Some o2 \<Longrightarrow> 0 \<le> snd o1 \<Longrightarrow> extends o1 o2"
  using sprintf_num_extends [of o1 v zero hex width] by auto

lemma signed_number_Some:
  assumes "signed_number v zero hex width o1 = Some o2" and "0 < snd o1"
  shows "extends o1 o2"
proof -
  have "extends o1 (put ''-'' o1)" using assms(2) by (intro extends_put) simp
  then show ?thesis
    using assms by (auto simp: signed_number_def dest!: sprintf_num_Some intro: extends_trans split: if_splits)
qed

lemma print_double_Some:
  assumes "print_double neg ip frac_at zero width fw o0 = Some o2" and "0 < snd o0"
  shows "extends o0 o2"
proof -
  define o1 where "o1 = (if neg then put ''-'' o0 else o0)"
  have 1: "extends o0 o1" and r1: "0 \<le> snd o1"
    using assms(2) extends_put [of "''-''" o0] by (auto simp: o1_def)
  show ?thesis
  proof (cases "fw = 0")
    case True
    then show ?thesis using assms(1) 1 r1
      by (auto simp: print_double_def Let_def o1_def [symmetric] dest!: sprintf_num_Some intro: extends_trans)
  next
    case False
    then obtain ip' frac o3 where 3: "ngx_sprintf_num ip' zero 0 width o1 = Some o3"
      and 2: "ngx_sprintf_num frac (CHR ''0'') 0 fw (if 0 < snd o3 then put ''.'' o3 else o3) = Some o2"
      using assms(1) by (auto simp: print_double_def Let_def o1_def [symmetric] split: if_splits option.splits prod.splits)
    have e3: "extends o1 o3" using 3 r1 by (rule sprintf_num_Some)
    then have r3: "0 \<le> snd o3" by (simp add: extends_def)
    let ?o4 = "if 0 < snd o3 then put ''.'' o3 else o3"
    have e4: "extends o3 ?o4" using r3 extends_put [of "''.''" o3] by simp
    then have "0 \<le> snd ?o4" by (simp only: extends_def)
    from sprintf_num_Some [OF 2 this] 1 e3 e4 show ?thesis by (blast intro: extends_trans)
  qed
qed

lemma convert_Some:
  assumes "convert c sign hex zero width fw args o1 = Some (as, o2)" and "0 < snd o1"
  shows "extends o1 o2"
proof -
  have one: "extends o1 (put [x] o1)" for x using assms(2) by (intro extends_put) simp
  have str: "extends o1 (put (take (nat (snd o1)) s) o1)" for s
    using assms(2) by (intro extends_put) simp
  have num: "ngx_sprintf_num v z h w o1 = Some o2 \<Longrightarrow> extends o1 o2" for v z h w
    using assms(2) sprintf_num_Some by simp
  show ?thesis
    using assms(1) one str num signed_number_Some [OF _ assms(2)] print_double_Some [OF _ assms(2)]
    by (auto simp: convert.simps split: if_splits list.splits farg.splits)
qed

lemma vslprintf_extends:
  "ngx_vslprintf fmt args o1 = Some o2 \<Longrightarrow> 0 \<le> snd o1 \<Longrightarrow> extends o1 o2"
proof (induction fmt args o1 rule: ngx_vslprintf.induct)
  case (1 args o1)
  then show ?case by (simp add: ngx_vslprintf.simps)
next
  case (2 ch fmt args o1)
  let ?wr = "read_width 0 fmt"
  let ?fl = "read_flags True 0 (snd ?wr)"
  let ?zero = "if fmt \<noteq> [] \<and> hd fmt = CHR ''0'' then CHR ''0'' else CHR '' ''"
  show ?case
  proof (cases "snd o1 \<le> 0")
    case True
    then show ?thesis using 2 by (simp add: ngx_vslprintf.simps)
  next
    case room: False
    show ?thesis
    proof (cases "ch = CHR ''%''")
      case False
      have "extends o1 (put [ch] o1)" using room by (intro extends_put) simp
      moreover have "extends (put [ch] o1) o2"
        using "2.IH"(1) [OF room False] "2.prems" room False by (simp add: ngx_vslprintf.simps)
      ultimately show ?thesis by (rule extends_trans)
    next
      case True
      then obtain c r args' o3 where s: "snd (snd (snd ?fl)) = c # r"
        and cv: "convert c (fst ?fl) (fst (snd ?fl)) ?zero (fst ?wr) (fst (snd (snd ?fl))) args o1 = Some (args', o3)"
        and rec: "ngx_vslprintf r args' o3 = Some o2"
        using "2.prems"(1) room by (subst (asm) ngx_vslprintf.simps) (auto simp: Let_def split: list.splits option.splits)
      have e: "extends o1 o3" using convert_Some [OF cv] room by simp
      moreover have "extends o3 o2"
        using "2.IH"(2) [OF room _ refl refl refl s cv refl rec] True e by (simp add: extends_def)
      ultimately show ?thesis by (rule extends_trans)
    qed
  qed
qed

text \<open>
  Arguments a format asks for: as many as its conversions take, each of their type, and no
  conversion cut off at the end.
\<close>

fun take_arg :: "char \<Rightarrow> farg list \<Rightarrow> farg list option" where
  "take_arg c args =
     (if c \<in> {CHR ''d'', CHR ''i'', CHR ''L'', CHR ''p'', CHR ''P''} then
        (case args of Num v # as \<Rightarrow> Some as | _ \<Rightarrow> None)
      else if c = CHR ''s'' then (case args of Str s # as \<Rightarrow> Some as | _ \<Rightarrow> None)
      else if c = CHR ''f'' then (case args of Dbl neg ip fr # as \<Rightarrow> Some as | _ \<Rightarrow> None)
      else Some args)"

function args_fit :: "string \<Rightarrow> farg list \<Rightarrow> bool" where
  "args_fit [] args = True"
| "args_fit (ch # fmt) args =
     (if ch \<noteq> CHR ''%'' then args_fit fmt args
      else (case snd (snd (snd (read_flags True 0 (snd (read_width 0 fmt))))) of
              [] \<Rightarrow> False
            | c # r \<Rightarrow> (case take_arg c args of None \<Rightarrow> False | Some args' \<Rightarrow> args_fit r args')))"
  by pat_completeness auto
termination
proof (relation "measure (\<lambda>(f, _). length f)", goal_cases)
  case (3 ch fmt args c r args')
  have "Suc (length r) \<le> length (snd (read_width 0 fmt))"
    using read_flags_length [of True 0 "snd (read_width 0 fmt)"] 3(2) by simp
  also have "\<dots> \<le> length fmt" by (rule read_width_length)
  finally show ?case by simp
qed simp_all

declare take_arg.simps [simp del] args_fit.simps [simp del]

lemma sprintf_num_defined: "0 \<le> snd o1 \<Longrightarrow> ngx_sprintf_num v zero hex width o1 \<noteq> None"
  using sprintf_num_extends [of o1 v zero hex width] by auto

lemma signed_number_defined: "0 < snd o1 \<Longrightarrow> signed_number v zero hex width o1 \<noteq> None"
  unfolding signed_number_def by (simp add: sprintf_num_defined del: not_None_eq)

lemma print_double_defined:
  assumes "0 < snd o0"
  shows "print_double neg ip frac_at zero width fw o0 \<noteq> None"
proof -
  let ?o1 = "if neg then put ''-'' o0 else o0"
  have r1: "0 \<le> snd ?o1" using assms by simp
  show ?thesis
  proof (cases "fw = 0")
    case True
    then show ?thesis unfolding print_double_def Let_def using sprintf_num_defined [OF r1] by (simp del: not_None_eq)
  next
    case False
    obtain ip' frac where s: "(if 10 ^ unat fw \<le> frac_at (10 ^ unat fw) then (ip + 1, 0) else (ip, frac_at (10 ^ unat fw))) = (ip', frac)"
      by (metis surj_pair)
    obtain o3 where o3: "ngx_sprintf_num ip' zero 0 width ?o1 = Some o3" "extends ?o1 o3"
      using sprintf_num_extends [OF r1] by blast
    then have "0 \<le> snd o3" by (simp add: extends_def)
    then have "0 \<le> snd (if 0 < snd o3 then put ''.'' o3 else o3)" by simp
    from sprintf_num_defined [OF this] show ?thesis
      unfolding print_double_def Let_def s using False o3(1) by (simp del: not_None_eq)
  qed
qed

lemma convert_args:
  assumes "take_arg c args = Some as" and "0 < snd o1"
  shows "map_option fst (convert c sign hex zero width fw args o1) = Some as"
proof -
  have "0 \<le> snd o1" using assms(2) by simp
  note d = sprintf_num_defined [OF this] signed_number_defined [OF assms(2)] print_double_defined [OF assms(2)]
  have ex: "\<exists>a b. ngx_sprintf_num v z h w o1 = Some (a, b)" "\<exists>a b. signed_number v z h w o1 = Some (a, b)"
    "\<exists>a b. print_double neg ip fr z w fw o1 = Some (a, b)" for v z h w neg ip fr
    using d(1) [of v z h w] d(2) [of v z h w] d(3) [of neg ip fr z w fw] by auto
  show ?thesis
    using assms(1) unfolding convert.simps take_arg.simps
    by (cases args; cases "hd args") (auto simp: ex split: if_splits)
qed

lemma convert_extends:
  assumes "take_arg c args = Some as" and "0 < snd o1"
  obtains o2 where "convert c sign hex zero width fw args o1 = Some (as, o2)" "extends o1 o2"
proof -
  from convert_args [OF assms, of sign hex zero width fw] obtain o2 where
    "convert c sign hex zero width fw args o1 = Some (as, o2)" by auto
  moreover from this have "extends o1 o2" using assms(2) by (rule convert_Some)
  ultimately show ?thesis by (rule that)
qed

lemma vslprintf_returns: "args_fit fmt args \<Longrightarrow> 0 \<le> snd o1 \<Longrightarrow> \<exists>o2. ngx_vslprintf fmt args o1 = Some o2"
proof (induction fmt args arbitrary: o1 rule: args_fit.induct)
  case (1 args)
  then show ?case by (simp add: ngx_vslprintf.simps)
next
  case (2 ch fmt args)
  show ?case
  proof (cases "snd o1 \<le> 0")
    case True
    then show ?thesis by (simp add: ngx_vslprintf.simps)
  next
    case room: False
    show ?thesis
    proof (cases "ch = CHR ''%''")
      case False
      then show ?thesis using 2(1) [OF False, of "put [ch] o1"] 2(3) room by (simp add: ngx_vslprintf.simps args_fit.simps)
    next
      case True
      obtain c r as where s: "snd (snd (snd (read_flags True 0 (snd (read_width 0 fmt))))) = c # r"
        and t: "take_arg c args = Some as" and f: "args_fit r as"
        using 2(3) True by (subst (asm) args_fit.simps) (auto split: list.splits option.splits)
      have "0 < snd o1" using room by simp
      from convert_extends [OF t this] obtain o3 where
        cv: "convert c (fst (read_flags True 0 (snd (read_width 0 fmt)))) (fst (snd (read_flags True 0 (snd (read_width 0 fmt)))))
            (if fmt \<noteq> [] \<and> hd fmt = CHR ''0'' then CHR ''0'' else CHR '' '') (fst (read_width 0 fmt))
            (fst (snd (snd (read_flags True 0 (snd (read_width 0 fmt)))))) args o1 = Some (as, o3)"
        and "extends o1 o3" by metis
      then have "0 \<le> snd o3" by (simp add: extends_def)
      then have "\<exists>o2. ngx_vslprintf r as o3 = Some o2" using 2(2) [OF _ s t f] True by simp
      then show ?thesis using room True
        by (subst ngx_vslprintf.simps) (simp only: Let_def s cv list.case option.case prod.case if_False simp_thms)
    qed
  qed
qed

section \<open>What the formatter prints\<close>

lemma vslprintf_plain:
  "CHR ''%'' \<notin> set s \<Longrightarrow> int (length s) \<le> snd o1 \<Longrightarrow>
     ngx_vslprintf (s @ f) args o1 = ngx_vslprintf f args (put s o1)"
proof (induction s arbitrary: o1)
  case Nil
  then show ?case by (cases o1) (simp add: put_def)
next
  case (Cons c s)
  have "c \<noteq> CHR ''%''" using Cons.prems(1) by auto
  then have "ngx_vslprintf ((c # s) @ f) args o1 = ngx_vslprintf (s @ f) args (put [c] o1)"
    using Cons.prems(2) by (simp add: ngx_vslprintf.simps(2))
  also have "\<dots> = ngx_vslprintf f args (put s (put [c] o1))"
    using Cons.prems by (intro Cons.IH) simp_all
  also have "put s (put [c] o1) = put (c # s) o1" by (cases o1) (simp add: put_def)
  finally show ?case .
qed

lemma vslprintf_Nil [simp]: "ngx_vslprintf [] args o1 = Some o1"
  by (simp add: ngx_vslprintf.simps)

lemma vslprintf_text:
  "CHR ''%'' \<notin> set s \<Longrightarrow> int (length s) \<le> snd o1 \<Longrightarrow> ngx_vslprintf s args o1 = Some (put s o1)"
  using vslprintf_plain [of s o1 "[]" args] by simp

lemma number_text_dec: "number_text v 0 = dec (unat v)"
proof (cases "v \<le> NGX_MAX_UINT32_VALUE")
  case True
  then have "unat v < 2 ^ 32"
    by (simp add: NGX_MAX_UINT32_VALUE_def word_le_nat_alt)
  then have "unat (ucast v :: u32) = unat v"
    by (simp add: unsigned_ucast_eq take_bit_nat_eq_self)
  then show ?thesis by (simp add: number_text_def)
qed (simp add: number_text_def)

text \<open>A number in a field, when there is room for it.\<close>

definition field :: "char \<Rightarrow> nat \<Rightarrow> nat \<Rightarrow> string" where
  "field zero width n = replicate (width - length (dec n)) zero @ dec n"

lemma sprintf_num_dec:
  assumes "int (length (field zero (unat width) (unat v))) \<le> snd o1"
  shows "ngx_sprintf_num v zero 0 width o1 = Some (put (field zero (unat width) (unat v)) o1)"
proof -
  let ?ds = "dec (unat v)" and ?n = "unat width - length (dec (unat v))"
  have n: "min ?n (nat (snd o1)) = ?n" using assms by (simp add: field_def)
  have l: "int (length ?ds) \<le> snd (put (replicate ?n zero) o1)" using assms by (simp add: field_def)
  have p: "put ?ds (put (replicate ?n zero) o1) = put (field zero (unat width) (unat v)) o1"
    by (cases o1) (simp add: put_def field_def)
  show ?thesis
    unfolding ngx_sprintf_num_def number_text_dec Let_def n using l p by auto
qed

lemma read_width_literal: "\<not> is_digit c \<Longrightarrow> read_width w (c # f) = (w, c # f)"
  by simp

lemma num_arg_word:
  assumes "0 \<le> i" and "i < 2 ^ 31"
  shows "sint (word_of_int i :: u64) = i" and "unat (word_of_int i :: u64) = nat i"
    and "scast (ucast (word_of_int i :: u64) :: u32) = (word_of_int i :: u64)"
proof -
  have u: "uint (word_of_int i :: u64) = i" using assms by (simp add: uint_word_of_int)
  show "unat (word_of_int i :: u64) = nat i" by (simp only: unat_eq_nat_uint u)
  show s: "sint (word_of_int i :: u64) = i"
    unfolding sint_uint u using assms signed_take_bit_int_eq_self [of 63 i] by simp
  have "uint (ucast (word_of_int i :: u64) :: u32) = i"
    unfolding unsigned_ucast_eq u using assms by (simp add: take_bit_int_eq_self)
  then have "sint (ucast (word_of_int i :: u64) :: u32) = i"
    using assms signed_take_bit_int_eq_self [of 31 i] by (simp add: sint_uint)
  then show "scast (ucast (word_of_int i :: u64) :: u32) = (word_of_int i :: u64)"
    by (simp add: scast_eq)
qed

text \<open>
  One directive of the line's head: a number with a width and a padding character, and a
  string.
\<close>

lemma print_num:
  assumes "read_width 0 f = (w, CHR ''d'' # r)" and "0 \<le> i" and "i < 2 ^ 31"
    and "zero = (if f \<noteq> [] \<and> hd f = CHR ''0'' then CHR ''0'' else CHR '' '')"
    and "int (length (field zero (unat w) (nat i))) \<le> snd o1" and "0 < snd o1"
  shows "ngx_vslprintf (CHR ''%'' # f) (num_arg i # args) o1 =
    ngx_vslprintf r args (put (field zero (unat w) (nat i)) o1)"
proof -
  have "ngx_sprintf_num (word_of_int i) zero 0 w o1 = Some (put (field zero (unat w) (nat i)) o1)"
    using sprintf_num_dec [of zero w "word_of_int i" o1] assms(5) num_arg_word(2) [OF assms(2,3)] by simp
  then have "convert CHR ''d'' True 0 zero w 0 (num_arg i # args) o1 = Some (args, put (field zero (unat w) (nat i)) o1)"
    using assms(2) num_arg_word(1) [OF assms(2,3)]
    by (simp add: convert.simps num_arg_def signed_number_def)
  then show ?thesis
    using assms(1,6) unfolding assms(4) by (subst ngx_vslprintf.simps) (simp add: Let_def)
qed

lemma print_str:
  assumes "CHR 0x00 \<notin> set s" and "int (length s) \<le> snd o1" and "0 < snd o1"
  shows "ngx_vslprintf (CHR ''%'' # CHR ''s'' # r) (Str s # args) o1 = ngx_vslprintf r args (put s o1)"
proof -
  have "c_str s = s" using assms(1) by (auto simp: c_str_def takeWhile_eq_all_conv)
  then have "convert CHR ''s'' True 0 (CHR '' '') 0 0 (Str s # args) o1 = Some (args, put s o1)"
    using assms(2) by (simp add: convert.simps)
  then show ?thesis
    using assms(3) by (subst ngx_vslprintf.simps) (simp add: Let_def is_digit_def ordc_def)
qed

lemma print_str_missing:
  "0 < snd o1 \<Longrightarrow> ngx_vslprintf (CHR ''%'' # CHR ''s'' # r) [] o1 = None"
  by (subst ngx_vslprintf.simps) (simp add: Let_def is_digit_def ordc_def convert.simps)

lemma print_pid:
  assumes "0 \<le> i" and "i < 2 ^ 31" and "int (length (dec (nat i))) \<le> snd o1" and "0 < snd o1"
  shows "ngx_vslprintf (CHR ''%'' # CHR ''P'' # r) (num_arg i # args) o1 = ngx_vslprintf r args (put (dec (nat i)) o1)"
proof -
  have "ngx_sprintf_num (word_of_int i) (CHR '' '') 0 0 o1 = Some (put (dec (nat i)) o1)"
    using sprintf_num_dec [of "CHR '' ''" 0 "word_of_int i" o1] assms(3) num_arg_word(2) [OF assms(1,2)]
    by (simp add: field_def)
  then have "convert CHR ''P'' True 0 (CHR '' '') 0 0 (num_arg i # args) o1 = Some (args, put (dec (nat i)) o1)"
    using assms(1) num_arg_word(1,3) [OF assms(1,2)]
    by (simp add: convert.simps num_arg_def signed_number_def)
  then show ?thesis
    using assms(4) by (subst ngx_vslprintf.simps) (simp add: Let_def is_digit_def ordc_def)
qed

text \<open>Two-digit and four-digit fields of a date.\<close>

lemma dec_length_step: "length (dec n) = (if n < 10 then 1 else Suc (length (dec (n div 10))))"
  by (simp add: dec.simps [of n])

lemma dec_length_2: "n < 100 \<Longrightarrow> length (dec n) \<le> 2"
proof -
  assume "n < 100"
  then have "n div 10 < 10" by presburger
  then show ?thesis by (simp add: dec_length_step [of n] dec_length_step [of "n div 10"])
qed

lemma field_length: "length (field z w n) = max w (length (dec n))"
  by (simp add: field_def)

definition time_ok :: "int \<times> int \<times> int \<times> int \<times> int \<times> int \<Rightarrow> bool" where
  "time_ok = (\<lambda>(y, mo, d, h, mi, s). 1000 \<le> y \<and> y < 10000 \<and> (\<forall>x \<in> {mo, d, h, mi, s}. 0 \<le> x \<and> x < 100))"

definition two :: "int \<Rightarrow> string" where
  "two x = field (CHR ''0'') 2 (nat x)"

fun time_text :: "int \<times> int \<times> int \<times> int \<times> int \<times> int \<Rightarrow> string" where
  "time_text (y, mo, d, h, mi, s) =
     dec (nat y) @ ''-'' @ two mo @ ''-'' @ two d @ '' '' @ two h @ '':'' @ two mi @ '':'' @ two s"

lemma two_length: "0 \<le> x \<Longrightarrow> x < 100 \<Longrightarrow> length (two x) = 2"
  using dec_length_2 [of "nat x"] by (simp add: two_def field_length)

lemma dec_length_4: "1000 \<le> n \<Longrightarrow> n < 10000 \<Longrightarrow> length (dec n) = 4"
proof -
  assume n: "1000 \<le> n" "n < 10000"
  have 1: "100 \<le> n div 10" "n div 10 < 1000" using n by linarith+
  have 2: "10 \<le> n div 10 div 10" "n div 10 div 10 < 100" using 1 by linarith+
  have 3: "n div 10 div 10 div 10 < 10" using 2 by linarith
  have d: "\<not> n < 10" "\<not> n div 10 < 10" "\<not> n div 10 div 10 < 10" "n div 10 div 10 div 10 < 10"
    using n(1) 1(1) 2(1) 3 by simp_all
  have "length (dec (n div 10 div 10 div 10)) = 1" using d(4) dec_length_step [of "n div 10 div 10 div 10"] by (simp only: if_True)
  then have "length (dec (n div 10 div 10)) = 2" using d(3) dec_length_step [of "n div 10 div 10"] by (simp only: if_False)
  then have "length (dec (n div 10)) = 3" using d(2) dec_length_step [of "n div 10"] by (simp only: if_False)
  then show ?thesis using d(1) dec_length_step [of n] by (simp only: if_False)
qed

lemma time_text_length: "time_ok tm \<Longrightarrow> length (time_text tm) = 19"
  by (cases tm) (auto simp: time_ok_def two_length dec_length_4)

lemma put_put: "put b (put a o1) = put (a @ b) o1"
  by (cases o1) (simp add: put_def)

lemma print_two:
  assumes "0 \<le> i" and "i < 100" and "2 < snd o1"
  shows "ngx_vslprintf (CHR ''%'' # CHR ''0'' # CHR ''2'' # CHR ''d'' # r) (num_arg i # args) o1 =
    ngx_vslprintf r args (put (two i) o1)"
proof -
  have w: "read_width 0 (CHR ''0'' # CHR ''2'' # CHR ''d'' # r) = (2, CHR ''d'' # r)"
    by (simp add: is_digit_def ordc_def)
  show ?thesis
    using print_num [OF w, where i = i and zero = "CHR ''0''" and ?o1.0 = o1 and args = args] assms two_length [OF assms(1,2)] by (simp add: two_def)
qed

lemma print_time:
  assumes "time_ok (y, mo, d, h, mi, s)" and "20 < R"
  shows "ngx_slprintf ''%4d-%02d-%02d %02d:%02d:%02d''
      [num_arg y, num_arg mo, num_arg d, num_arg h, num_arg mi, num_arg s] ([], R) =
    Some (time_text (y, mo, d, h, mi, s), R - 19)"
proof -
  have ok: "0 \<le> mo" "mo < 100" "0 \<le> d" "d < 100" "0 \<le> h" "h < 100" "0 \<le> mi" "mi < 100" "0 \<le> s" "s < 100"
    and y: "1000 \<le> y" "y < 10000" using assms by (auto simp: time_ok_def)
  have w: "read_width 0 (CHR ''4'' # CHR ''d'' # r) = (4, CHR ''d'' # r)" for r
    by (simp add: is_digit_def ordc_def)
  have f4: "field (CHR '' '') 4 (nat y) = dec (nat y)" and l4: "length (dec (nat y)) = 4"
    using dec_length_4 [of "nat y"] y by (simp_all add: field_def)
  have 4: "ngx_vslprintf (CHR ''%'' # CHR ''4'' # CHR ''d'' # r) (num_arg y # args) ([], R) =
      ngx_vslprintf r args (put (dec (nat y)) ([], R))" for r args
    using print_num [OF w, where i = y and zero = "CHR '' ''" and ?o1.0 = "([], R)" and args = args] y f4 l4 assms(2) by simp
  have c: "ngx_vslprintf (c # r) args o1 = ngx_vslprintf r args (put [c] o1)"
    if "c \<noteq> CHR ''%''" "0 < snd o1" for c r args and o1 :: out
    using vslprintf_plain [of "[c]" o1 r args] that by simp
  show ?thesis
    unfolding ngx_slprintf_def
    using assms(2) by (simp add: 4 c print_two ok put_put two_length l4) (simp add: put_def two_length ok l4)
qed

text \<open>The head of a line and a message behind it.\<close>

definition line_head :: "log_env \<Rightarrow> nat \<Rightarrow> string" where
  "line_head env level =
     time_text (le_time env) @ '' ['' @ err_level ! level @ ''] '' @ dec (nat (le_pid env)) @ '': ''"

definition env_ok :: "log_env \<Rightarrow> bool" where
  "env_ok env \<longleftrightarrow> time_ok (le_time env) \<and> 0 \<le> le_pid env \<and> le_pid env < 2 ^ 31"

lemma level_text: "n < length err_level \<Longrightarrow> CHR 0x00 \<notin> set (err_level ! n) \<and> length (err_level ! n) \<le> 6"
proof -
  have "\<forall>x \<in> set err_level. CHR 0x00 \<notin> set x \<and> length x \<le> 6" by (simp add: err_level_def)
  then show "n < length err_level \<Longrightarrow> CHR 0x00 \<notin> set (err_level ! n) \<and> length (err_level ! n) \<le> 6"
    by (meson nth_mem)
qed

lemma dec_length_le: "n < 10 ^ Suc k \<Longrightarrow> length (dec n) \<le> Suc k"
proof (induction k arbitrary: n)
  case 0
  then show ?case using dec_length_step [of n] by simp
next
  case (Suc k)
  then have "n div 10 < 10 ^ Suc k" by (simp add: less_mult_imp_div_less)
  then show ?case using Suc.IH [of "n div 10"] dec_length_step [of n] by (simp split: if_splits)
qed

lemma pid_length: "0 \<le> p \<Longrightarrow> p < 2 ^ 31 \<Longrightarrow> length (dec (nat p)) \<le> 10"
  using dec_length_le [of "nat p" 9] by (simp add: nat_less_iff)

lemma line_head_length:
  "env_ok env \<Longrightarrow> level < length err_level \<Longrightarrow> length (line_head env level) \<le> 45"
  using level_text [of level] pid_length [of "le_pid env"]
  by (auto simp: line_head_def env_ok_def time_text_length)

lemma core_head:
  assumes "env_ok env" and "level < length err_level"
  shows "ngx_log_error_core env lg level err fmt args =
    (case ngx_vslprintf fmt args (put (line_head env level) ([], int NGX_MAX_ERROR_STR)) of
       None \<Rightarrow> None
     | Some o2 \<Rightarrow>
         (let text = end_line (if err \<noteq> 0 then ngx_log_errno (le_strerror env) err o2 else o2)
          in if ml_LogLevel lg < int level then Some []
             else Some ((ml_fd lg, text) #
                    (if le_fails env (ml_fd lg) \<and> ml_fd lg \<noteq> 2 then [(2, text)] else []))))"
proof -
  obtain y mo d h mi s where tm: "le_time env = (y, mo, d, h, mi, s)" by (cases "le_time env")
  have ok: "time_ok (y, mo, d, h, mi, s)" using assms(1) tm by (simp add: env_ok_def)
  let ?t = "time_text (y, mo, d, h, mi, s)"
  let ?o = "put ?t ([], int NGX_MAX_ERROR_STR)"
  have l: "length ?t = 19" using time_text_length [OF ok] .
  note lv = level_text [OF assms(2)]
  have p: "length (dec (nat (le_pid env))) \<le> 10"
    using assms(1) pid_length [of "le_pid env"] by (simp add: env_ok_def)
  have c: "ngx_vslprintf (c # r) args o1 = ngx_vslprintf r args (put [c] o1)"
    if "c \<noteq> CHR ''%''" "0 < snd o1" for c r args and o1 :: out
    using vslprintf_plain [of "[c]" o1 r args] that by simp
  let ?o1 = "put ('' ['' @ err_level ! level @ ''] '') ?o"
  have 1: "ngx_slprintf '' [%s] '' [Str (err_level ! level)] ?o = Some ?o1"
    unfolding ngx_slprintf_def using l lv
    by (simp add: c print_str put_put NGX_MAX_ERROR_STR_def del: time_text.simps)
  have 2: "ngx_slprintf ''%P: '' [num_arg (le_pid env)] ?o1 = Some (put (dec (nat (le_pid env)) @ '': '') ?o1)"
    unfolding ngx_slprintf_def using l lv p assms(1)
    by (simp add: c print_pid put_put NGX_MAX_ERROR_STR_def env_ok_def del: time_text.simps)
  have 3: "put (dec (nat (le_pid env)) @ '': '') ?o1 = put (line_head env level) ([], int NGX_MAX_ERROR_STR)"
    by (simp add: put_put line_head_def tm)
  show ?thesis
    unfolding ngx_log_error_core_def tm prod.case
    using print_time [OF ok, of "2 ^ 63"] assms(2) 1 2 3
    by (simp add: not_le del: time_text.simps)
qed

section \<open>Properties\<close>

text \<open>A process of 2024 and a log on descriptor 3.\<close>

definition demo_log_env :: log_env where
  "demo_log_env = \<lparr>le_time = (2024, 5, 6, 7, 8, 9), le_pid = 17113,
     le_strerror = (\<lambda>_. ''Error''), le_fails = (\<lambda>_. False)\<rparr>"

lemma demo_env_ok [simp]: "env_ok demo_log_env"
  by (simp add: env_ok_def demo_log_env_def time_ok_def)

lemma ngx_log_errno_extends: "0 \<le> snd o1 \<Longrightarrow> extends o1 (ngx_log_errno se err o1)"
  by (auto simp: ngx_log_errno_def Let_def put_put intro!: extends_put)

definition accounted :: "out \<Rightarrow> bool" where
  "accounted o1 \<longleftrightarrow> int (length (fst o1)) + snd o1 = int NGX_MAX_ERROR_STR \<and> 0 \<le> snd o1"

lemma accounted_extends: "accounted o1 \<Longrightarrow> extends o1 o2 \<Longrightarrow> accounted o2"
  by (auto simp: accounted_def extends_def)

lemma end_line_fits: "accounted o1 \<Longrightarrow> length (end_line o1) < NGX_MAX_ERROR_STR \<and> last (end_line o1) = LF"
  by (cases o1) (auto simp: accounted_def end_line_def NGX_MAX_ERROR_STR_def)

lemma formatted_line_fits:
  assumes "ngx_vslprintf fmt args o1 = Some o2" and "accounted o1"
  shows "length (end_line (if err \<noteq> 0 then ngx_log_errno se err o2 else o2)) < NGX_MAX_ERROR_STR \<and>
    last (end_line (if err \<noteq> 0 then ngx_log_errno se err o2 else o2)) = LF"
proof -
  have a2: "accounted o2"
    using accounted_extends [OF assms(2)] vslprintf_extends [OF assms(1)] assms(2) by (simp add: accounted_def)
  then have "accounted (ngx_log_errno se err o2)"
    using accounted_extends [OF a2] ngx_log_errno_extends by (simp add: accounted_def)
  with a2 show ?thesis using end_line_fits by simp
qed

lemma core_lines_fit:
  assumes "ngx_log_error_core env lg level err fmt args = Some ws" and "env_ok env"
    and "level < length err_level" and "(fd, text) \<in> set ws"
  shows "length text < NGX_MAX_ERROR_STR \<and> last text = LF"
proof -
  let ?o = "put (line_head env level) ([], int NGX_MAX_ERROR_STR)"
  have "accounted ?o"
    using line_head_length [OF assms(2,3)] by (simp add: accounted_def NGX_MAX_ERROR_STR_def)
  moreover obtain o2 where o2: "ngx_vslprintf fmt args ?o = Some o2"
    using assms(1) unfolding core_head [OF assms(2,3)] by (auto split: option.splits)
  moreover define t where "t = end_line (if err \<noteq> 0 then ngx_log_errno (le_strerror env) err o2 else o2)"
  have "ws = [] \<or> ws = (ml_fd lg, t) # (if le_fails env (ml_fd lg) \<and> ml_fd lg \<noteq> 2 then [(2, t)] else [])"
    using assms(1) o2 unfolding core_head [OF assms(2,3)] t_def Let_def by (simp only: option.case option.inject) (simp only: split: if_split_asm, simp_all)
  then have "text = t" using assms(4) by (auto split: if_splits)
  ultimately show ?thesis unfolding t_def using formatted_line_fits by blast
qed

text \<open>
  C29: The formatter never writes behind its room: for every format with the arguments it asks
  for, whatever the widths, the scales and the values, the call is defined, keeps the text before, and what
  it appends fits in the room it was given, down to a room of no byte. A write that had passed the
  end would make the length of a later copy negative, and the call undefined.
\<close>

theorem formatter_within_room:
  assumes "args_fit fmt args" and "0 \<le> room"
  shows "\<exists>a. ngx_vslprintf fmt args (t, room) = Some (t @ a, room - int (length a)) \<and> int (length a) \<le> room"
proof -
  obtain o2 where "ngx_vslprintf fmt args (t, room) = Some o2" using vslprintf_returns [OF assms(1), of "(t, room)"] assms(2) by auto
  moreover from vslprintf_extends [OF this] assms(2) have "extends (t, room) o2" by simp
  ultimately show ?thesis by (cases o2) (auto simp: extends_def)
qed

lemma snprintf_five: "ngx_vslprintf ''%5d|%s'' [num_arg 42, Str ''abcdef''] ([], 8) = Some (''   42|ab'', 0)"
proof -
  have w: "read_width 0 (CHR ''5'' # CHR ''d'' # r) = (5, CHR ''d'' # r)" for r
    by (simp add: is_digit_def ordc_def)
  have f: "field (CHR '' '') 5 42 = ''   42''" by code_simp
  have "ngx_vslprintf ''%5d|%s'' [num_arg 42, Str ''abcdef''] ([], 8) =
      ngx_vslprintf ''|%s'' [Str ''abcdef''] (''   42'', 3)"
    using print_num [OF w, where i = 42 and zero = "CHR '' ''" and ?o1.0 = "([], 8)"] f by (simp add: put_def)
  also have "\<dots> = Some (''   42|ab'', 0)"
    by (simp add: ngx_vslprintf.simps put_def Let_def is_digit_def ordc_def convert.simps c_str_def)
  finally show ?thesis .
qed

theorem formatter_within_room_witness:
  "\<exists>a. ngx_vslprintf ''%5d|%s'' [num_arg 42, Str ''abcdef''] ([], 8) = Some (a, 0) \<and> a = ''   42|ab'' \<and> length a \<le> 8"
proof -
  have w: "read_width 0 (CHR ''5'' # CHR ''d'' # r) = (5, CHR ''d'' # r)" for r
    by (simp add: is_digit_def ordc_def)
  have "args_fit ''%5d|%s'' [num_arg 42, Str ''abcdef'']"
    by (simp add: args_fit.simps w take_arg.simps num_arg_def) (simp add: is_digit_def ordc_def)
  from formatter_within_room [OF this, of 8 "[]"] snprintf_five show ?thesis by auto
qed

text \<open>
  Every line the logger writes, to the log file or to the standard error, is shorter
  than the 2048 bytes of its buffer and ends with a line feed, whatever is logged.
\<close>

theorem log_lines_fit:
  assumes "env_ok env"
    and "(level < length err_level \<and> ngx_log_error_core env lg level err fmt args = Some ws) \<or>
      ngx_log_stderr env lg err fmt args = Some ws"
    and "(fd, text) \<in> set ws"
  shows "length text < 2048 \<and> last text = LF"
  using assms(2)
proof
  assume "level < length err_level \<and> ngx_log_error_core env lg level err fmt args = Some ws"
  then show ?thesis using core_lines_fit [OF _ assms(1) _ assms(3), of lg level err fmt args]
    by (simp add: NGX_MAX_ERROR_STR_def)
next
  assume s: "ngx_log_stderr env lg err fmt args = Some ws"
  let ?o = "put ''nginx: '' ([], int NGX_MAX_ERROR_STR)"
  have a: "accounted ?o" by (simp add: accounted_def NGX_MAX_ERROR_STR_def)
  obtain o1 where o1: "ngx_vslprintf fmt args ?o = Some o1"
    using s by (auto simp: ngx_log_stderr_def split: option.splits)
  let ?t = "end_line (if err \<noteq> 0 then ngx_log_errno (le_strerror env) err o1 else o1)"
  have "text = ?t \<or> (\<exists>ws'. ngx_log_error_core env lg 0 0 (c_str (butlast ?t)) [] = Some ws' \<and> (fd, text) \<in> set ws')"
    using s o1 assms(3) by (auto simp: ngx_log_stderr_def Let_def split: if_splits)
  then show ?thesis
    using formatted_line_fits [OF o1 a, of err "le_strerror env"] core_lines_fit [OF _ assms(1), of lg 0 0]
    by (auto simp: NGX_MAX_ERROR_STR_def err_level_def)
qed

lemma plain_line:
  assumes "env_ok env" and "level < length err_level" and "int level \<le> ml_LogLevel lg"
    and "\<not> le_fails env (ml_fd lg)" and "CHR ''%'' \<notin> set fmt" and "length fmt \<le> 2000"
  shows "ngx_log_error_core env lg level 0 fmt args = Some [(ml_fd lg, line_head env level @ fmt @ [LF])]"
proof -
  have l: "length (line_head env level) \<le> 45" using line_head_length [OF assms(1,2)] .
  have "ngx_vslprintf fmt args (put (line_head env level) ([], int NGX_MAX_ERROR_STR)) =
      Some (line_head env level @ fmt, 2048 - int (length (line_head env level)) - int (length fmt))"
    using vslprintf_text [OF assms(5), of "put (line_head env level) ([], int NGX_MAX_ERROR_STR)" args] l assms(6)
    by (simp add: NGX_MAX_ERROR_STR_def) (simp add: put_def)
  then show ?thesis
    unfolding core_head [OF assms(1,2)] using l assms(3,4,6) by (simp add: end_line_def)
qed

text \<open>
  A message without directives is written to the log as one line with the date in its
  fixed columns, the name of the level and the process number; a message of a level
  beyond the configured one is not written.
\<close>

theorem log_line_written:
  assumes "env_ok env" and "level < length err_level" and "\<not> le_fails env (ml_fd lg)"
    and "CHR ''%'' \<notin> set msg" and "length msg \<le> 2000"
  shows "ngx_log_error_core env lg level 0 msg args =
    Some (if int level \<le> ml_LogLevel lg
          then [(ml_fd lg, time_text (le_time env) @ '' ['' @ err_level ! level @ ''] '' @
                   dec (nat (le_pid env)) @ '': '' @ msg @ [LF])]
          else [])"
proof (cases "int level \<le> ml_LogLevel lg")
  case True
  then show ?thesis using plain_line [OF assms(1,2) _ assms(3-5)] by (simp add: line_head_def)
next
  case False
  have "length (line_head env level) \<le> 45" using line_head_length [OF assms(1,2)] .
  then have "\<exists>o2. ngx_vslprintf msg args (put (line_head env level) ([], int NGX_MAX_ERROR_STR)) = Some o2"
    using vslprintf_text [OF assms(4), of "put (line_head env level) ([], int NGX_MAX_ERROR_STR)" args] assms(5)
    by (simp add: NGX_MAX_ERROR_STR_def)
  then show ?thesis unfolding core_head [OF assms(1,2)] using False by auto
qed

theorem log_line_written_witness:
  "ngx_log_error_core demo_log_env \<lparr>ml_LogLevel = 6, ml_fd = 3\<rparr> 6 0 ''started'' [] =
     Some [(3, ''2024-05-06 07:08:09 [notice] 17113: started'' @ [LF])]"
proof -
  have t: "time_text (le_time demo_log_env) = ''2024-05-06 07:08:09''" "dec (nat (le_pid demo_log_env)) = ''17113''"
    by (simp_all add: demo_log_env_def two_def field_def dec.simps num_simps)
  show ?thesis
    using log_line_written [of demo_log_env 6 "\<lparr>ml_LogLevel = 6, ml_fd = 3\<rparr>" "''started''" "[]"]
    by (simp add: err_level_def t) (simp add: demo_log_env_def)
qed

lemma log_lines_fit_witness_line:
  "ngx_log_error_core demo_log_env \<lparr>ml_LogLevel = 6, ml_fd = 3\<rparr> 6 0 ''started'' [] =
     Some [(3, line_head demo_log_env 6 @ ''started'' @ [LF])]"
  using plain_line [of demo_log_env 6 "\<lparr>ml_LogLevel = 6, ml_fd = 3\<rparr>" "''started''"]
  by (simp add: err_level_def) (simp add: demo_log_env_def)

theorem log_lines_fit_witness:
  "length (line_head demo_log_env 6 @ ''started'' @ [LF]) < 2048"
  using log_lines_fit [OF demo_env_ok disjI1 [OF conjI [OF _ log_lines_fit_witness_line]]]
  by (simp add: err_level_def)

text \<open>
  What \<open>ngx_log_stderr\<close> has formatted is formatted again when a log file is open: a
  path with \<open>%s\<close> in it, which a client chooses, is printed to the screen as it is while
  no file is open, and with one makes the logger take an argument that is not there.
\<close>

theorem logged_path_is_a_format:
  assumes "env_ok env" and "CHR ''%'' \<notin> set a" and "length a \<le> 1000" and "length b \<le> 500"
    and "CHR 0x00 \<notin> set (a @ b)"
  shows "ngx_log_stderr env \<lparr>ml_LogLevel = lvl, ml_fd = 2\<rparr> 0 ''test handleRequest %s'' [Str (a @ ''%s'' @ b)] =
      Some [(2, ''nginx: test handleRequest '' @ a @ ''%s'' @ b @ [LF])] \<and>
    (2 < fd \<longrightarrow>
       ngx_log_stderr env \<lparr>ml_LogLevel = lvl, ml_fd = fd\<rparr> 0 ''test handleRequest %s'' [Str (a @ ''%s'' @ b)] = None)"
proof -
  let ?p = "a @ ''%s'' @ b"
  let ?o = "put ''nginx: '' ([], int NGX_MAX_ERROR_STR)"
  let ?o1 = "put ''test handleRequest '' ?o"
  have n: "CHR 0x00 \<notin> set ?p" using assms(5) by auto
  have "ngx_vslprintf (''test handleRequest '' @ ''%s'') [Str ?p] ?o = ngx_vslprintf ''%s'' [Str ?p] ?o1"
    by (rule vslprintf_plain) (simp_all add: NGX_MAX_ERROR_STR_def)
  also have "\<dots> = Some (put ?p ?o1)"
    using print_str [OF n, of ?o1 "[]" "[]"] assms(3,4) by (simp add: NGX_MAX_ERROR_STR_def)
  finally have f: "ngx_vslprintf ''test handleRequest %s'' [Str ?p] ?o = Some (put ?p ?o1)" by simp
  let ?line = "''nginx: test handleRequest '' @ ?p"
  have e: "end_line (put ?p ?o1) = ?line @ [LF]"
    using assms(3,4) by (simp add: put_def end_line_def NGX_MAX_ERROR_STR_def)
  have c: "c_str ?line = ?line" using n by (auto simp: c_str_def takeWhile_eq_all_conv)
  let ?h = "put (line_head env 0) ([], int NGX_MAX_ERROR_STR)"
  have l: "length (line_head env 0) \<le> 45" using line_head_length [OF assms(1), of 0] by (simp add: err_level_def)
  have "ngx_vslprintf ((''nginx: test handleRequest '' @ a) @ (CHR ''%'' # CHR ''s'' # b)) [] ?h =
      ngx_vslprintf (CHR ''%'' # CHR ''s'' # b) [] (put (''nginx: test handleRequest '' @ a) ?h)"
    using assms(2,3) l by (intro vslprintf_plain) (simp_all add: NGX_MAX_ERROR_STR_def)
  also have "\<dots> = None"
    using assms(3) l by (intro print_str_missing) (simp add: NGX_MAX_ERROR_STR_def)
  finally have "ngx_vslprintf ?line [] ?h = None" by simp
  then have "ngx_log_error_core env lg 0 0 ?line [] = None" for lg
    using core_head [OF assms(1), of 0 lg 0 ?line "[]"] by (simp add: err_level_def)
  with f e c show ?thesis
    by (simp add: ngx_log_stderr_def Let_def butlast_append)
qed

theorem logged_path_is_a_format_witness:
  "ngx_log_stderr demo_log_env \<lparr>ml_LogLevel = 6, ml_fd = 3\<rparr> 0 ''test handleRequest %s'' [Str ''/%s''] = None"
  using logged_path_is_a_format [of demo_log_env "''/''" "[]" 6 3] by simp

end
