(* ===== verification/LockFreeQueue.thy ===== *)
theory LockFreeQueue
  imports Prelude
begin

text \<open>
  The queue of \<open>include/threadPool/my_lockfreequeue.h\<close> that carries received data to the
  pool's threads and responses to the send threads. A node is a cell of a heap of
  addresses; \<open>new\<close> takes an address that is not in use, which may be one that was deleted
  before. A thread is a place in the code with its local variables (\<open>lf_pc\<close>), and one turn
  of it is one access to memory that other threads can see, so that \<open>lf_step\<close> is the
  interleaving of any number of threads. Reading or writing a node that is not
  allocated is undefined: the turn is \<open>None\<close>. A weak exchange may fail without a reason
  (\<open>fails\<close>). The atomic variables are taken as sequentially consistent: the reorderings the
  code's weaker memory orders allow are not modelled, so what goes wrong here goes wrong
  there as well.

  The queue is right, and no call is held up, between one enqueuing and one dequeuing
  thread; the tags it counts are compared nowhere, and with a second thread on either side
  it reads nodes that are deleted.
\<close>

section \<open>Nodes and the queue\<close>

record 'a lf_node =
  nd_data :: 'a
  nd_next :: "nat option"

record 'a lf_queue =
  lf_heap :: "nat \<rightharpoonup> 'a lf_node"
  lf_head :: nat
  lf_head_tag :: u64
  lf_tail :: nat
  lf_tail_tag :: u64
  lf_size :: int

definition new_lf_queue :: "'a \<Rightarrow> nat \<Rightarrow> 'a lf_queue" where
  "new_lf_queue d a = \<lparr>lf_heap = [a \<mapsto> \<lparr>nd_data = d, nd_next = None\<rparr>],
     lf_head = a, lf_head_tag = 0, lf_tail = a, lf_tail_tag = 0, lf_size = 0\<rparr>"

text \<open>
  The destructor follows the list and deletes it; it returns nothing when it meets a node
  that is deleted already.
\<close>

partial_function (option) destroy_lf_queue ::
  "(nat \<rightharpoonup> 'a lf_node) \<Rightarrow> nat option \<Rightarrow> (nat \<rightharpoonup> 'a lf_node) option" where
  "destroy_lf_queue hp h =
     (case h of
        None \<Rightarrow> Some hp
      | Some x \<Rightarrow>
          (case hp x of
             None \<Rightarrow> None
           | Some nd \<Rightarrow> destroy_lf_queue (hp(x := None)) (nd_next nd)))"

section \<open>One thread, access by access\<close>

text \<open>
  The places of \<open>Enqueue\<close> and of \<open>TryDequeue\<close>, named after the access that comes next.
  Their arguments are the local variables in use: \<open>new_node\<close>, \<open>old_tail_ptr\<close>,
  \<open>old_tail_tag\<close>, \<open>next\<close>, and \<open>old_head_ptr\<close>, \<open>old_head_tag\<close>, \<open>old_tail_ptr\<close>,
  \<open>next\<close>, \<open>msg\<close>.
\<close>

datatype 'a lf_pc =
    Idle
  | Enq_new 'a
  | Enq_loop nat
  | Enq_tag nat nat
  | Enq_next nat nat u64
  | Enq_check nat nat u64 "nat option"
  | Enq_link nat nat u64
  | Enq_count nat u64
  | Enq_store nat u64
  | Enq_retag u64
  | Enq_help nat nat nat
  | Enq_helptag nat
  | Enq_done
  | Deq_loop
  | Deq_tag nat
  | Deq_tail nat u64
  | Deq_next nat u64 nat
  | Deq_check nat u64 nat "nat option"
  | Deq_help nat nat
  | Deq_helptag
  | Deq_read nat u64 "nat option"
  | Deq_cas nat u64 nat 'a
  | Deq_retag nat u64 'a
  | Deq_delete nat 'a
  | Deq_count 'a
  | Deq_done "'a option"

fun enqueue_turn :: "nat \<Rightarrow> bool \<Rightarrow> 'a lf_pc \<Rightarrow> 'a lf_queue \<Rightarrow> ('a lf_pc \<times> 'a lf_queue) option" where
  "enqueue_turn a fails (Enq_new v) s =
     Some (Enq_loop a, s\<lparr>lf_heap := (lf_heap s)(a \<mapsto> \<lparr>nd_data = v, nd_next = None\<rparr>)\<rparr>)"
| "enqueue_turn a fails (Enq_loop n) s = Some (Enq_tag n (lf_tail s), s)"
| "enqueue_turn a fails (Enq_tag n t) s = Some (Enq_next n t (lf_tail_tag s), s)"
| "enqueue_turn a fails (Enq_next n t g) s =
     (case lf_heap s t of None \<Rightarrow> None | Some nd \<Rightarrow> Some (Enq_check n t g (nd_next nd), s))"
| "enqueue_turn a fails (Enq_check n t g nx) s =
     Some (if t \<noteq> lf_tail s then Enq_loop n
           else (case nx of None \<Rightarrow> Enq_link n t g | Some m \<Rightarrow> Enq_help n t m), s)"
| "enqueue_turn a fails (Enq_link n t g) s =
     (case lf_heap s t of
        None \<Rightarrow> None
      | Some nd \<Rightarrow>
          if nd_next nd = None \<and> \<not> fails
          then Some (Enq_count n g, s\<lparr>lf_heap := (lf_heap s)(t \<mapsto> nd\<lparr>nd_next := Some n\<rparr>)\<rparr>)
          else Some (Enq_loop n, s))"
| "enqueue_turn a fails (Enq_count n g) s = Some (Enq_store n g, s\<lparr>lf_size := lf_size s + 1\<rparr>)"
| "enqueue_turn a fails (Enq_store n g) s = Some (Enq_retag g, s\<lparr>lf_tail := n\<rparr>)"
| "enqueue_turn a fails (Enq_retag g) s = Some (Enq_done, s\<lparr>lf_tail_tag := g + 1\<rparr>)"
| "enqueue_turn a fails (Enq_help n t m) s =
     Some (Enq_helptag n, if lf_tail s = t \<and> \<not> fails then s\<lparr>lf_tail := m\<rparr> else s)"
| "enqueue_turn a fails (Enq_helptag n) s = Some (Enq_loop n, s\<lparr>lf_tail_tag := lf_tail_tag s + 1\<rparr>)"
| "enqueue_turn a fails pc s = Some (pc, s)"

fun dequeue_turn :: "bool \<Rightarrow> 'a lf_pc \<Rightarrow> 'a lf_queue \<Rightarrow> ('a lf_pc \<times> 'a lf_queue) option" where
  "dequeue_turn fails Deq_loop s = Some (Deq_tag (lf_head s), s)"
| "dequeue_turn fails (Deq_tag h) s = Some (Deq_tail h (lf_head_tag s), s)"
| "dequeue_turn fails (Deq_tail h g) s = Some (Deq_next h g (lf_tail s), s)"
| "dequeue_turn fails (Deq_next h g t) s =
     (case lf_heap s h of None \<Rightarrow> None | Some nd \<Rightarrow> Some (Deq_check h g t (nd_next nd), s))"
| "dequeue_turn fails (Deq_check h g t nx) s =
     Some (if h \<noteq> lf_head s then Deq_loop
           else if h = t then (case nx of None \<Rightarrow> Deq_done None | Some m \<Rightarrow> Deq_help t m)
           else Deq_read h g nx, s)"
| "dequeue_turn fails (Deq_help t m) s =
     Some (Deq_helptag, if lf_tail s = t then s\<lparr>lf_tail := m\<rparr> else s)"
| "dequeue_turn fails Deq_helptag s = Some (Deq_loop, s\<lparr>lf_tail_tag := lf_tail_tag s + 1\<rparr>)"
| "dequeue_turn fails (Deq_read h g nx) s =
     (case nx of
        None \<Rightarrow> None
      | Some m \<Rightarrow>
          (case lf_heap s m of None \<Rightarrow> None | Some nd \<Rightarrow> Some (Deq_cas h g m (nd_data nd), s)))"
| "dequeue_turn fails (Deq_cas h g m v) s =
     (if lf_head s = h \<and> \<not> fails then Some (Deq_retag h g v, s\<lparr>lf_head := m\<rparr>) else Some (Deq_loop, s))"
| "dequeue_turn fails (Deq_retag h g v) s = Some (Deq_delete h v, s\<lparr>lf_head_tag := g + 1\<rparr>)"
| "dequeue_turn fails (Deq_delete h v) s =
     (case lf_heap s h of None \<Rightarrow> None | Some nd \<Rightarrow> Some (Deq_count v, s\<lparr>lf_heap := (lf_heap s)(h := None)\<rparr>))"
| "dequeue_turn fails (Deq_count v) s = Some (Deq_done (Some v), s\<lparr>lf_size := lf_size s - 1\<rparr>)"
| "dequeue_turn fails pc s = Some (pc, s)"

fun enqueuing :: "'a lf_pc \<Rightarrow> bool" where
  "enqueuing (Enq_new v) = True"
| "enqueuing (Enq_loop n) = True"
| "enqueuing (Enq_tag n t) = True"
| "enqueuing (Enq_next n t g) = True"
| "enqueuing (Enq_check n t g nx) = True"
| "enqueuing (Enq_link n t g) = True"
| "enqueuing (Enq_count n g) = True"
| "enqueuing (Enq_store n g) = True"
| "enqueuing (Enq_retag g) = True"
| "enqueuing (Enq_help n t m) = True"
| "enqueuing (Enq_helptag n) = True"
| "enqueuing pc = False"

definition lf_turn :: "nat \<Rightarrow> bool \<Rightarrow> 'a lf_pc \<Rightarrow> 'a lf_queue \<Rightarrow> ('a lf_pc \<times> 'a lf_queue) option" where
  "lf_turn a fails pc s = (if enqueuing pc then enqueue_turn a fails pc s else dequeue_turn fails pc s)"

section \<open>Any number of threads\<close>

datatype 'a lf_event = Call_enqueue nat 'a | Ret_enqueue nat | Call_dequeue nat | Ret_dequeue nat "'a option"

type_synonym 'a lf_sys = "'a lf_queue \<times> (nat \<Rightarrow> 'a lf_pc)"

inductive lf_step :: "nat set \<Rightarrow> nat set \<Rightarrow> 'a lf_sys \<Rightarrow> 'a lf_event list \<Rightarrow> 'a lf_sys option \<Rightarrow> bool"
  for P C where
  call_enqueue: "i \<in> P \<Longrightarrow> pcs i = Idle \<Longrightarrow>
     lf_step P C (s, pcs) [Call_enqueue i v] (Some (s, pcs(i := Enq_new v)))"
| ret_enqueue: "pcs i = Enq_done \<Longrightarrow> lf_step P C (s, pcs) [Ret_enqueue i] (Some (s, pcs(i := Idle)))"
| call_dequeue: "i \<in> C \<Longrightarrow> pcs i = Idle \<Longrightarrow>
     lf_step P C (s, pcs) [Call_dequeue i] (Some (s, pcs(i := Deq_loop)))"
| ret_dequeue: "pcs i = Deq_done r \<Longrightarrow> lf_step P C (s, pcs) [Ret_dequeue i r] (Some (s, pcs(i := Idle)))"
| turn: "lf_heap s a = None \<Longrightarrow> lf_turn a fails (pcs i) s = Some (pc', s') \<Longrightarrow>
     lf_step P C (s, pcs) [] (Some (s', pcs(i := pc')))"
| undefined_access: "lf_heap s a = None \<Longrightarrow> lf_turn a fails (pcs i) s = None \<Longrightarrow> lf_step P C (s, pcs) [] None"

inductive lf_run :: "nat set \<Rightarrow> nat set \<Rightarrow> 'a lf_sys \<Rightarrow> 'a lf_event list \<Rightarrow> 'a lf_sys option \<Rightarrow> bool"
  for P C x where
  start: "lf_run P C x [] (Some x)"
| more: "lf_run P C x tr (Some y) \<Longrightarrow> lf_step P C y es z \<Longrightarrow> lf_run P C x (tr @ es) z"

section \<open>The atomic queue\<close>

datatype 'a fifo_pc = A_idle | A_enq 'a | A_enq_done | A_deq | A_deq_done "'a option"

type_synonym 'a fifo_sys = "'a list \<times> (nat \<Rightarrow> 'a fifo_pc)"

inductive fifo_step :: "nat set \<Rightarrow> nat set \<Rightarrow> 'a fifo_sys \<Rightarrow> 'a lf_event list \<Rightarrow> 'a fifo_sys \<Rightarrow> bool"
  for P C where
  "i \<in> P \<Longrightarrow> ps i = A_idle \<Longrightarrow> fifo_step P C (q, ps) [Call_enqueue i v] (q, ps(i := A_enq v))"
| "ps i = A_enq v \<Longrightarrow> fifo_step P C (q, ps) [] (q @ [v], ps(i := A_enq_done))"
| "ps i = A_enq_done \<Longrightarrow> fifo_step P C (q, ps) [Ret_enqueue i] (q, ps(i := A_idle))"
| "i \<in> C \<Longrightarrow> ps i = A_idle \<Longrightarrow> fifo_step P C (q, ps) [Call_dequeue i] (q, ps(i := A_deq))"
| "ps i = A_deq \<Longrightarrow> fifo_step P C ([], ps) [] ([], ps(i := A_deq_done None))"
| "ps i = A_deq \<Longrightarrow> fifo_step P C (v # q, ps) [] (q, ps(i := A_deq_done (Some v)))"
| "ps i = A_deq_done r \<Longrightarrow> fifo_step P C (q, ps) [Ret_dequeue i r] (q, ps(i := A_idle))"

inductive fifo_run :: "nat set \<Rightarrow> nat set \<Rightarrow> 'a fifo_sys \<Rightarrow> 'a lf_event list \<Rightarrow> 'a fifo_sys \<Rightarrow> bool"
  for P C x where
  start: "fifo_run P C x [] x"
| more: "fifo_run P C x tr y \<Longrightarrow> fifo_step P C y es z \<Longrightarrow> fifo_run P C x (tr @ es) z"

section \<open>One enqueuing and one dequeuing thread\<close>

text \<open>The nodes from \<open>head_ptr_\<close> on.\<close>

fun linked :: "(nat \<rightharpoonup> 'a lf_node) \<Rightarrow> nat list \<Rightarrow> bool" where
  "linked hp [] = False"
| "linked hp [x] = (\<exists>nd. hp x = Some nd \<and> nd_next nd = None)"
| "linked hp (x # y # ns) = ((\<exists>nd. hp x = Some nd \<and> nd_next nd = Some y) \<and> linked hp (y # ns))"

definition datum :: "(nat \<rightharpoonup> 'a lf_node) \<Rightarrow> nat \<Rightarrow> 'a" where
  "datum hp x = nd_data (the (hp x))"

lemma linked_not_Nil: "linked hp ns \<Longrightarrow> ns \<noteq> []"
  by auto

lemma linked_frame: "\<forall>x \<in> set ns. hp' x = hp x \<Longrightarrow> linked hp' ns = linked hp ns"
  by (induction hp ns rule: linked.induct) auto

lemma linked_outside [simp]: "x \<notin> set ns \<Longrightarrow> linked (hp(x := v)) ns = linked hp ns"
  by (rule linked_frame) auto

lemma linked_last: "linked hp ns \<Longrightarrow> \<exists>nd. hp (last ns) = Some nd \<and> nd_next nd = None"
  by (induction hp ns rule: linked.induct) auto

lemma linked_alive: "linked hp ns \<Longrightarrow> x \<in> set ns \<Longrightarrow> \<exists>nd. hp x = Some nd"
  by (induction hp ns rule: linked.induct) auto

lemma linked_extend:
  assumes "linked hp ns" and "hp (last ns) = Some nd" and "distinct ns" and "n \<notin> set ns"
    and "hp n = Some \<lparr>nd_data = v, nd_next = None\<rparr>"
  shows "linked (hp(last ns \<mapsto> nd\<lparr>nd_next := Some n\<rparr>)) (ns @ [n])"
  using assms
proof (induction hp ns rule: linked.induct)
  case (3 hp x y ns)
  then show ?case by (cases "ns @ [n]") (auto split: if_splits)
qed auto

lemma linked_tl: "linked hp (x # y # ns) \<Longrightarrow> linked hp (y # ns)"
  by simp

lemma datum_frame [simp]: "x \<noteq> y \<Longrightarrow> datum (hp(y := v)) x = datum hp x"
  by (simp add: datum_def)

lemma data_frame: "y \<notin> set xs \<Longrightarrow> map (datum (hp(y := v))) xs = map (datum hp) xs"
  by (auto simp: datum_def)

lemma data_relinked:
  "hp y = Some nd \<Longrightarrow> map (datum (hp(y \<mapsto> nd\<lparr>nd_next := m\<rparr>))) xs = map (datum hp) xs"
  by (auto simp: datum_def)

lemma datum_relinked [simp]: "hp y = Some nd \<Longrightarrow> datum (hp(y \<mapsto> nd\<lparr>nd_next := m\<rparr>)) x = datum hp x"
  by (auto simp: datum_def)

lemma destroy_frees:
  "linked hp ns \<Longrightarrow> distinct ns \<Longrightarrow>
     destroy_lf_queue hp (Some (hd ns)) = Some (\<lambda>x. if x \<in> set ns then None else hp x)"
proof (induction ns arbitrary: hp rule: induct_list012)
  case (2 x)
  then show ?case
    by (subst destroy_lf_queue.simps) (auto simp: destroy_lf_queue.simps [of _ None] fun_eq_iff)
next
  case (3 x y ns)
  then obtain nd where nd: "hp x = Some nd" "nd_next nd = Some y" by auto
  have l: "linked (hp(x := None)) (y # ns)" and d: "distinct (y # ns)" using "3.prems" by auto
  have "destroy_lf_queue (hp(x := None)) (Some y) =
      Some (\<lambda>z. if z \<in> set (y # ns) then None else (hp(x := None)) z)"
    using "3.IH"(2) [OF l d] by (simp only: list.sel)
  then show ?case using nd by (subst destroy_lf_queue.simps) (auto simp: fun_eq_iff)
qed simp

text \<open>What each thread knows of the queue at each of its places.\<close>

definition own_node :: "nat \<Rightarrow> 'a lf_queue \<Rightarrow> nat list \<Rightarrow> bool" where
  "own_node n s ns \<longleftrightarrow> n \<notin> set ns \<and> (\<exists>v. lf_heap s n = Some \<lparr>nd_data = v, nd_next = None\<rparr>)"

fun producer_knows :: "'a lf_pc \<Rightarrow> 'a lf_queue \<Rightarrow> nat list \<Rightarrow> bool" where
  "producer_knows Idle s ns = (lf_tail s = last ns)"
| "producer_knows (Enq_new v) s ns = (lf_tail s = last ns)"
| "producer_knows (Enq_loop n) s ns = (lf_tail s = last ns \<and> own_node n s ns)"
| "producer_knows (Enq_tag n t) s ns = (lf_tail s = last ns \<and> t = last ns \<and> own_node n s ns)"
| "producer_knows (Enq_next n t g) s ns = (lf_tail s = last ns \<and> t = last ns \<and> own_node n s ns)"
| "producer_knows (Enq_check n t g nx) s ns =
     (lf_tail s = last ns \<and> t = last ns \<and> nx = None \<and> own_node n s ns)"
| "producer_knows (Enq_link n t g) s ns = (lf_tail s = last ns \<and> t = last ns \<and> own_node n s ns)"
| "producer_knows (Enq_count n g) s ns =
     (n = last ns \<and> (lf_tail s = n \<or> butlast ns \<noteq> [] \<and> lf_tail s = last (butlast ns)))"
| "producer_knows (Enq_store n g) s ns =
     (n = last ns \<and> (lf_tail s = n \<or> butlast ns \<noteq> [] \<and> lf_tail s = last (butlast ns)))"
| "producer_knows (Enq_retag g) s ns = (lf_tail s = last ns)"
| "producer_knows Enq_done s ns = (lf_tail s = last ns)"
| "producer_knows pc s ns = False"

fun consumer_knows :: "'a lf_pc \<Rightarrow> 'a lf_queue \<Rightarrow> nat list \<Rightarrow> bool" where
  "consumer_knows Idle s ns = True"
| "consumer_knows Deq_loop s ns = True"
| "consumer_knows (Deq_tag h) s ns = (h = lf_head s)"
| "consumer_knows (Deq_tail h g) s ns = (h = lf_head s)"
| "consumer_knows (Deq_next h g t) s ns = (h = lf_head s \<and> (t \<noteq> h \<longrightarrow> lf_tail s \<noteq> h))"
| "consumer_knows (Deq_check h g t nx) s ns =
     (h = lf_head s \<and> (t \<noteq> h \<longrightarrow> lf_tail s \<noteq> h) \<and>
      (nx = None \<and> t = h \<or> (\<exists>m ms. nx = Some m \<and> ns = h # m # ms)))"
| "consumer_knows (Deq_help t m) s ns = (t = lf_head s \<and> (\<exists>ms. ns = t # m # ms))"
| "consumer_knows Deq_helptag s ns = (lf_tail s \<noteq> lf_head s)"
| "consumer_knows (Deq_read h g nx) s ns = (lf_tail s \<noteq> h \<and> (\<exists>m ms. nx = Some m \<and> ns = h # m # ms))"
| "consumer_knows (Deq_cas h g m v) s ns =
     (lf_tail s \<noteq> h \<and> v = datum (lf_heap s) m \<and> (\<exists>ms. ns = h # m # ms))"
| "consumer_knows (Deq_retag h g v) s ns = (h \<notin> set ns \<and> lf_heap s h \<noteq> None)"
| "consumer_knows (Deq_delete h v) s ns = (h \<notin> set ns \<and> lf_heap s h \<noteq> None)"
| "consumer_knows (Deq_count v) s ns = True"
| "consumer_knows (Deq_done r) s ns = True"
| "consumer_knows pc s ns = False"

fun own :: "'a lf_pc \<Rightarrow> nat option" where
  "own (Enq_loop n) = Some n"
| "own (Enq_tag n t) = Some n"
| "own (Enq_next n t g) = Some n"
| "own (Enq_check n t g nx) = Some n"
| "own (Enq_link n t g) = Some n"
| "own pc = None"

fun unlinked :: "'a lf_pc \<Rightarrow> nat option" where
  "unlinked (Deq_retag h g v) = Some h"
| "unlinked (Deq_delete h v) = Some h"
| "unlinked pc = None"

definition spsc_ok :: "'a lf_queue \<Rightarrow> 'a lf_pc \<Rightarrow> 'a lf_pc \<Rightarrow> nat list \<Rightarrow> bool" where
  "spsc_ok s pp cc ns \<longleftrightarrow>
     linked (lf_heap s) ns \<and> hd ns = lf_head s \<and> distinct ns \<and>
     producer_knows pp s ns \<and> consumer_knows cc s ns \<and> (own pp = None \<or> own pp \<noteq> unlinked cc)"

fun abs_producer :: "(nat \<rightharpoonup> 'a lf_node) \<Rightarrow> 'a lf_pc \<Rightarrow> 'a fifo_pc" where
  "abs_producer hp (Enq_new v) = A_enq v"
| "abs_producer hp (Enq_loop n) = A_enq (datum hp n)"
| "abs_producer hp (Enq_tag n t) = A_enq (datum hp n)"
| "abs_producer hp (Enq_next n t g) = A_enq (datum hp n)"
| "abs_producer hp (Enq_check n t g nx) = A_enq (datum hp n)"
| "abs_producer hp (Enq_link n t g) = A_enq (datum hp n)"
| "abs_producer hp (Enq_count n g) = A_enq_done"
| "abs_producer hp (Enq_store n g) = A_enq_done"
| "abs_producer hp (Enq_retag g) = A_enq_done"
| "abs_producer hp Enq_done = A_enq_done"
| "abs_producer hp pc = A_idle"

fun abs_consumer :: "'a lf_pc \<Rightarrow> 'a fifo_pc" where
  "abs_consumer Idle = A_idle"
| "abs_consumer (Deq_check h g t nx) = (if h = t \<and> nx = None then A_deq_done None else A_deq)"
| "abs_consumer (Deq_retag h g v) = A_deq_done (Some v)"
| "abs_consumer (Deq_delete h v) = A_deq_done (Some v)"
| "abs_consumer (Deq_count v) = A_deq_done (Some v)"
| "abs_consumer (Deq_done r) = A_deq_done r"
| "abs_consumer pc = A_deq"

definition queued :: "'a lf_queue \<Rightarrow> nat list \<Rightarrow> 'a list" where
  "queued s ns = map (datum (lf_heap s)) (tl ns)"

lemma last_butlast_in: "butlast ns \<noteq> [] \<Longrightarrow> last (butlast ns) \<in> set ns"
  by (meson in_set_butlastD last_in_set)

lemma tail_in_chain: "linked (lf_heap s) ns \<Longrightarrow> producer_knows pp s ns \<Longrightarrow> lf_tail s \<in> set ns"
  by (cases pp) (auto dest: linked_not_Nil intro: last_butlast_in)

lemma consumer_after_link:
  assumes "consumer_knows cc s ns" and "lf_heap s t = Some nd" and "unlinked cc \<noteq> Some n"
  shows "consumer_knows cc (s\<lparr>lf_heap := (lf_heap s)(t \<mapsto> nd\<lparr>nd_next := m\<rparr>)\<rparr>) (ns @ [n])"
  using assms by (cases cc) auto

lemma consumer_after_new:
  assumes "consumer_knows cc s ns" and "linked (lf_heap s) ns" and "lf_heap s a = None"
  shows "consumer_knows cc (s\<lparr>lf_heap := (lf_heap s)(a \<mapsto> nd)\<rparr>) ns"
proof -
  have "a \<notin> set ns" using linked_alive [OF assms(2)] assms(3) by fastforce
  then show ?thesis using assms by (cases cc) auto
qed

lemma consumer_after_tail:
  assumes "consumer_knows cc s ns" and "linked (lf_heap s) ns" and "hd ns = lf_head s" and "lf_tail s \<in> set ns"
    and "distinct ns" and "n = last ns"
  shows "consumer_knows cc (s\<lparr>lf_tail := n\<rparr>) ns"
proof -
  have "lf_tail s \<noteq> hd ns \<Longrightarrow> last ns \<noteq> hd ns"
    using assms(4,5) by (cases ns) (auto split: if_splits dest: last_in_set)
  with assms show ?thesis by (cases cc) (auto split: if_splits)
qed

lemma consumer_same [simp]:
  "consumer_knows cc (s\<lparr>lf_size := i\<rparr>) ns = consumer_knows cc s ns"
  "consumer_knows cc (s\<lparr>lf_tail_tag := g\<rparr>) ns = consumer_knows cc s ns"
  "consumer_knows cc (s\<lparr>lf_head_tag := g\<rparr>) ns = consumer_knows cc s ns"
  by (cases cc; simp)+

lemma producer_same [simp]:
  "producer_knows pp (s\<lparr>lf_size := i\<rparr>) ns = producer_knows pp s ns"
  "producer_knows pp (s\<lparr>lf_tail_tag := g\<rparr>) ns = producer_knows pp s ns"
  "producer_knows pp (s\<lparr>lf_head_tag := g\<rparr>) ns = producer_knows pp s ns"
  "producer_knows pp (s\<lparr>lf_head := h\<rparr>) ns = producer_knows pp s ns"
  by (cases pp; simp add: own_node_def)+

lemma queued_same [simp]:
  "queued (s\<lparr>lf_size := i\<rparr>) ns = queued s ns"
  "queued (s\<lparr>lf_tail := t\<rparr>) ns = queued s ns"
  "queued (s\<lparr>lf_head := t\<rparr>) ns = queued s ns"
  "queued (s\<lparr>lf_tail_tag := g\<rparr>) ns = queued s ns"
  "queued (s\<lparr>lf_head_tag := g\<rparr>) ns = queued s ns"
  by (simp_all add: queued_def)

lemma producer_turn:
  assumes ok: "spsc_ok s pp cc ns" and fr: "lf_heap s a = None" and en: "enqueuing pp"
  shows "\<exists>pp' s' ns'. enqueue_turn a fails pp s = Some (pp', s') \<and> spsc_ok s' pp' cc ns' \<and>
    (queued s' ns' = queued s ns \<and> abs_producer (lf_heap s') pp' = abs_producer (lf_heap s) pp \<or>
     (\<exists>v. abs_producer (lf_heap s) pp = A_enq v \<and> abs_producer (lf_heap s') pp' = A_enq_done \<and>
        queued s' ns' = queued s ns @ [v]))"
proof -
  have L: "linked (lf_heap s) ns" and H: "hd ns = lf_head s" and D: "distinct ns"
    and P: "producer_knows pp s ns" and C: "consumer_knows cc s ns"
    and A: "own pp = None \<or> own pp \<noteq> unlinked cc"
    using ok by (auto simp: spsc_ok_def)
  have T: "lf_tail s \<in> set ns" using tail_in_chain [OF L P] .
  obtain nd where nd: "lf_heap s (last ns) = Some nd" "nd_next nd = None" using linked_last [OF L] by blast
  have a: "a \<notin> set ns" using linked_alive [OF L] fr by fastforce
  have atl: "a \<notin> set (tl ns)" using a by (cases ns) auto
  have una: "unlinked cc \<noteq> Some a" using C fr by (cases cc) auto
  show ?thesis
  proof (cases pp)
    case (Enq_new v)
    then show ?thesis
      using L H D P C fr a una atl consumer_after_new [OF C L fr]
      by (auto simp: spsc_ok_def own_node_def queued_def data_frame [OF atl] datum_def intro!: exI [of _ ns])
  next
    case (Enq_link n t g)
    show ?thesis
    proof (cases fails)
      case True
      then show ?thesis using Enq_link ok nd P by (auto simp: spsc_ok_def intro!: exI [of _ ns])
    next
      case False
      obtain v where v: "lf_heap s n = Some \<lparr>nd_data = v, nd_next = None\<rparr>" "n \<notin> set ns"
        using P Enq_link by (auto simp: own_node_def)
      have t: "t = last ns" "lf_tail s = last ns" using P Enq_link by auto
      have cc: "unlinked cc \<noteq> Some n" using A Enq_link by auto
      have ns: "ns \<noteq> []" using L by auto
      show ?thesis
        using Enq_link False t nd ns D H v cc linked_extend [OF L nd(1) D v(2,1)] consumer_after_link [OF C nd(1) cc]
        by (auto simp: spsc_ok_def queued_def data_relinked butlast_append datum_def intro!: exI [of _ "ns @ [n]"])
    qed
  next
    case (Enq_store n g)
    then show ?thesis
      using L H D P consumer_after_tail [OF C L H T D] by (auto simp: spsc_ok_def intro!: exI [of _ ns])
  qed (use ok en nd in \<open>auto simp: spsc_ok_def intro!: exI [of _ ns]\<close>)
qed

lemma producer_after_help:
  assumes "producer_knows pp s ns" and "ns = lf_tail s # m # ms" and "distinct ns"
  shows "producer_knows pp (s\<lparr>lf_tail := m\<rparr>) ns"
proof -
  have "last (m # ms) \<noteq> lf_tail s" using assms(2,3) last_in_set [of "m # ms"] by auto
  moreover have "ms \<noteq> [] \<Longrightarrow> last (butlast ns) \<noteq> lf_tail s"
    using assms(2,3) last_butlast_in [of "m # ms"] by (auto split: if_splits)
  ultimately show ?thesis using assms by (cases pp) (auto split: if_splits)
qed

lemma producer_after_head:
  assumes "producer_knows pp s (h # m # ms)" and "lf_tail s \<noteq> h"
  shows "producer_knows pp s (m # ms)"
  using assms by (cases pp) (auto simp: own_node_def split: if_splits)

lemma producer_after_delete:
  assumes "producer_knows pp s ns" and "own pp \<noteq> Some h"
  shows "producer_knows pp (s\<lparr>lf_heap := (lf_heap s)(h := None)\<rparr>) ns"
  using assms by (cases pp) (auto simp: own_node_def)

lemma own_outside: "producer_knows pp s ns \<Longrightarrow> own pp = Some n \<Longrightarrow> n \<notin> set ns"
  by (cases pp) (auto simp: own_node_def)

lemma abs_producer_delete: "own pp \<noteq> Some h \<Longrightarrow> abs_producer (hp(h := None)) pp = abs_producer hp pp"
  by (cases pp) auto

text \<open>The first node of the chain, where a dequeuer that read \<open>head\<close> and \<open>tail\<close> looks for the next.\<close>

lemma first_node:
  assumes "linked (lf_heap s) ns" and "h = hd ns" and "lf_tail s \<in> set ns" and "t \<noteq> h \<Longrightarrow> lf_tail s \<noteq> h"
  shows "\<exists>nd. lf_heap s h = Some nd \<and>
    (nd_next nd = None \<and> tl ns = [] \<and> t = h \<or> (\<exists>m ms. nd_next nd = Some m \<and> ns = h # m # ms))"
proof -
  obtain nd where nd: "lf_heap s h = Some nd"
    using linked_alive [OF assms(1), of h] linked_not_Nil [OF assms(1)] assms(2) by auto
  show ?thesis
  proof (cases "tl ns")
    case Nil
    then have ns: "ns = [h]" using linked_not_Nil [OF assms(1)] assms(2) by (cases ns) auto
    show ?thesis using assms(1,3,4) nd unfolding ns by auto
  next
    case (Cons m ms)
    then have ns: "ns = h # m # ms" using linked_not_Nil [OF assms(1)] assms(2) by (cases ns) auto
    show ?thesis using assms(1) nd unfolding ns by auto
  qed
qed

lemma consumer_turn:
  assumes ok: "spsc_ok s pp cc ns"
  shows "\<exists>cc' s' ns'. dequeue_turn fails cc s = Some (cc', s') \<and> spsc_ok s' pp cc' ns' \<and>
    abs_producer (lf_heap s') pp = abs_producer (lf_heap s) pp \<and>
    (queued s' ns' = queued s ns \<and> abs_consumer cc' = abs_consumer cc \<or>
     abs_consumer cc = A_deq \<and>
       (queued s ns = [] \<and> queued s' ns' = [] \<and> abs_consumer cc' = A_deq_done None \<or>
        (\<exists>v. queued s ns = v # queued s' ns' \<and> abs_consumer cc' = A_deq_done (Some v))))"
proof -
  have L: "linked (lf_heap s) ns" and H: "hd ns = lf_head s" and D: "distinct ns"
    and P: "producer_knows pp s ns" and C: "consumer_knows cc s ns"
    and A: "own pp = None \<or> own pp \<noteq> unlinked cc"
    using ok by (auto simp: spsc_ok_def)
  have T: "lf_tail s \<in> set ns" using tail_in_chain [OF L P] .
  show ?thesis
  proof (cases cc)
    case (Deq_next h g t)
    then have h: "h = hd ns" "h = lf_head s" and th: "t \<noteq> h \<Longrightarrow> lf_tail s \<noteq> h" using C H by auto
    obtain nd where nd: "lf_heap s h = Some nd"
      and nx: "nd_next nd = None \<and> tl ns = [] \<and> t = h \<or> (\<exists>m ms. nd_next nd = Some m \<and> ns = h # m # ms)"
      using first_node [OF L h(1) T th] by blast
    then have "spsc_ok s pp (Deq_check h g t (nd_next nd)) ns" using ok h th Deq_next by (auto simp: spsc_ok_def)
    moreover have "queued s ns = [] \<or> nd_next nd \<noteq> None" using nx by (auto simp: queued_def)
    ultimately show ?thesis using Deq_next nd by (intro exI conjI) (auto split: if_splits)
  next
    case (Deq_help t m)
    then obtain ms where ns: "ns = t # m # ms" using C by auto
    show ?thesis
      using Deq_help ok ns producer_after_help [OF P _ D, of m ms]
      by (auto simp: spsc_ok_def intro!: exI [of _ ns])
  next
    case (Deq_read h g nx)
    then obtain m ms where "ns = h # m # ms" "nx = Some m" using C by auto
    moreover obtain nd where "lf_heap s m = Some nd" using linked_alive [OF L, of m] calculation by auto
    ultimately have ns: "ns = h # m # ms" "nx = Some m" "lf_heap s m = Some nd" by auto
    then have "spsc_ok s pp (Deq_cas h g m (nd_data nd)) ns"
      using Deq_read ok unfolding spsc_ok_def by (auto simp: datum_def)
    then show ?thesis using Deq_read ns by (intro exI conjI) auto
  next
    case (Deq_cas h g m v)
    then obtain ms where ns: "ns = h # m # ms" and th: "lf_tail s \<noteq> h" and v: "v = datum (lf_heap s) m"
      using C by auto
    have al: "lf_heap s h \<noteq> None" using linked_alive [OF L] ns by auto
    show ?thesis
    proof (cases fails)
      case True
      then show ?thesis using Deq_cas ok by (auto simp: spsc_ok_def intro!: exI [of _ ns])
    next
      case False
      have "own pp \<noteq> Some h" using own_outside [OF P] ns by fastforce
      then show ?thesis
        using Deq_cas False L H D P al v producer_after_head [OF P [unfolded ns] th] unfolding ns
        by (auto simp: spsc_ok_def queued_def intro!: exI [of _ "m # ms"])
    qed
  next
    case (Deq_delete h v)
    then have "own pp \<noteq> Some h" "h \<notin> set ns" "lf_heap s h \<noteq> None" using A C by auto
    moreover have "h \<notin> set (tl ns)" using calculation(2) by (cases ns) auto
    ultimately show ?thesis
      using Deq_delete L H D P producer_after_delete [OF P] abs_producer_delete [of pp h "lf_heap s"]
      by (auto simp: spsc_ok_def queued_def data_frame intro!: exI [of _ ns])
  qed (use ok in \<open>auto simp: spsc_ok_def intro!: exI [of _ ns]\<close>)
qed

text \<open>The simulation.\<close>

definition two :: "nat \<Rightarrow> nat \<Rightarrow> 'p \<Rightarrow> 'p \<Rightarrow> 'p \<Rightarrow> nat \<Rightarrow> 'p" where
  "two p c z x y = (\<lambda>i. if i = p then x else if i = c then y else z)"

lemma two_at [simp]: "two p c z x y p = x" "p \<noteq> c \<Longrightarrow> two p c z x y c = y" "i \<noteq> p \<Longrightarrow> i \<noteq> c \<Longrightarrow> two p c z x y i = z"
  by (auto simp: two_def)

lemma two_upd [simp]: "(two p c z x y)(p := x') = two p c z x' y"
    "p \<noteq> c \<Longrightarrow> (two p c z x y)(c := y') = two p c z x y'"
    "i \<noteq> p \<Longrightarrow> i \<noteq> c \<Longrightarrow> (two p c z x y)(i := z) = two p c z x y"
  by (auto simp: two_def)

lemma two_same: "two p c z z z = (\<lambda>_. z)"
  by (auto simp: two_def)

definition spsc_related :: "nat \<Rightarrow> nat \<Rightarrow> 'a lf_sys \<Rightarrow> 'a fifo_sys \<Rightarrow> bool" where
  "spsc_related p c x y \<longleftrightarrow> (\<exists>s pp cc ns. x = (s, two p c Idle pp cc) \<and> spsc_ok s pp cc ns \<and>
     y = (queued s ns, two p c A_idle (abs_producer (lf_heap s) pp) (abs_consumer cc)))"

lemma spsc_relatedI:
  "spsc_ok s pp cc ns \<Longrightarrow> spsc_related p c (s, two p c Idle pp cc)
     (queued s ns, two p c A_idle (abs_producer (lf_heap s) pp) (abs_consumer cc))"
  unfolding spsc_related_def by blast

lemma spsc_places:
  assumes "spsc_ok s pp cc ns"
  shows "\<not> enqueuing cc" and "\<not> enqueuing pp \<Longrightarrow> pp = Idle \<or> pp = Enq_done"
proof -
  have "producer_knows pp s ns" "consumer_knows cc s ns" using assms by (auto simp: spsc_ok_def)
  then show "\<not> enqueuing cc" and "\<not> enqueuing pp \<Longrightarrow> pp = Idle \<or> pp = Enq_done"
    by (cases cc; simp) (cases pp; use \<open>producer_knows pp s ns\<close> in simp)
qed

lemma spsc_turn:
  assumes ok: "spsc_ok s pp cc ns" and "p \<noteq> c" and "lf_heap s a = None"
    and t: "lf_turn a fails (two p c Idle pp cc i) s = Some (pc', s')"
    and y: "y = (queued s ns, two p c A_idle (abs_producer (lf_heap s) pp) (abs_consumer cc))"
  shows "\<exists>y'. spsc_related p c (s', (two p c Idle pp cc)(i := pc')) y' \<and> (fifo_step {p} {c} y [] y' \<or> y' = y)"
proof (cases "i = p \<and> enqueuing pp")
  case True
  then have "enqueue_turn a fails pp s = Some (pc', s')" using t by (simp add: lf_turn_def)
  with producer_turn [OF ok assms(3), of fails] True obtain ns' where ok': "spsc_ok s' pc' cc ns'"
    and st: "queued s' ns' = queued s ns \<and> abs_producer (lf_heap s') pc' = abs_producer (lf_heap s) pp \<or>
     (\<exists>v. abs_producer (lf_heap s) pp = A_enq v \<and> abs_producer (lf_heap s') pc' = A_enq_done \<and>
        queued s' ns' = queued s ns @ [v])" by auto
  let ?y = "(queued s' ns', two p c A_idle (abs_producer (lf_heap s') pc') (abs_consumer cc))"
  have "spsc_related p c (s', (two p c Idle pp cc)(i := pc')) ?y"
    using spsc_relatedI [OF ok', of p c] True by simp
  moreover have "fifo_step {p} {c} y [] ?y \<or> ?y = y"
    using st fifo_step.intros(2) [of "two p c A_idle (abs_producer (lf_heap s) pp) (abs_consumer cc)" p _ "{p}" "{c}" "queued s ns"]
    by (auto simp: y)
  ultimately show ?thesis by blast
next
  case False
  show ?thesis
  proof (cases "i = c")
    case True
    then have "dequeue_turn fails cc s = Some (pc', s')"
      using t spsc_places(1) [OF ok] assms(2) by (simp add: lf_turn_def)
    with consumer_turn [OF ok, of fails] obtain ns' where ok': "spsc_ok s' pp pc' ns'"
      and ab: "abs_producer (lf_heap s') pp = abs_producer (lf_heap s) pp"
      and st: "queued s' ns' = queued s ns \<and> abs_consumer pc' = abs_consumer cc \<or>
        abs_consumer cc = A_deq \<and>
       (queued s ns = [] \<and> queued s' ns' = [] \<and> abs_consumer pc' = A_deq_done None \<or>
        (\<exists>v. queued s ns = v # queued s' ns' \<and> abs_consumer pc' = A_deq_done (Some v)))" by auto
    let ?y = "(queued s' ns', two p c A_idle (abs_producer (lf_heap s') pp) (abs_consumer pc'))"
    have "spsc_related p c (s', (two p c Idle pp cc)(i := pc')) ?y"
      using spsc_relatedI [OF ok', of p c] True assms(2) by simp
    moreover have "fifo_step {p} {c} y [] ?y \<or> ?y = y"
      using st ab assms(2)
        fifo_step.intros(5) [of "two p c A_idle (abs_producer (lf_heap s) pp) A_deq" c "{p}" "{c}"]
        fifo_step.intros(6) [of "two p c A_idle (abs_producer (lf_heap s) pp) A_deq" c "{p}" "{c}" _ "queued s' ns'"]
      by (auto simp: y)
    ultimately show ?thesis by blast
  next
    case other: False
    have "pc' = two p c Idle pp cc i \<and> s' = s"
      using False other t spsc_places(2) [OF ok] assms(2) by (cases "i = p") (auto simp: lf_turn_def)
    then have "(s', (two p c Idle pp cc)(i := pc')) = (s, two p c Idle pp cc)" by auto
    then have "spsc_related p c (s', (two p c Idle pp cc)(i := pc')) y"
      using spsc_relatedI [OF ok, of p c] y by simp
    then show ?thesis by blast
  qed
qed

lemma spsc_no_crash:
  assumes ok: "spsc_ok s pp cc ns" and "p \<noteq> c" and fr: "lf_heap s a = None"
  shows "lf_turn a fails (two p c Idle pp cc i) s \<noteq> None"
proof (cases "enqueuing (two p c Idle pp cc i)")
  case True
  then have "two p c Idle pp cc i = pp" using spsc_places(1) [OF ok] by (auto simp: two_def split: if_splits)
  with True producer_turn [OF ok fr, of fails] show ?thesis by (auto simp: lf_turn_def)
next
  case False
  then show ?thesis
    using consumer_turn [OF ok, of fails] spsc_places(2) [OF ok]
    by (auto simp: lf_turn_def two_def split: if_splits)
qed

lemma spsc_simulation:
  assumes "lf_step {p} {c} x es z" and "spsc_related p c x y" and "p \<noteq> c"
  shows "\<exists>x' y'. z = Some x' \<and> spsc_related p c x' y' \<and> (fifo_step {p} {c} y es y' \<or> es = [] \<and> y' = y)"
proof -
  obtain s pp cc ns where x: "x = (s, two p c Idle pp cc)" and ok: "spsc_ok s pp cc ns"
    and y: "y = (queued s ns, two p c A_idle (abs_producer (lf_heap s) pp) (abs_consumer cc))"
    using assms(2) unfolding spsc_related_def by blast
  have kn: "producer_knows pp s ns" "consumer_knows cc s ns" using ok by (auto simp: spsc_ok_def)
  have idle: "producer_knows pp s ns \<Longrightarrow> abs_producer (lf_heap s) pp = A_idle \<longleftrightarrow> pp = Idle" by (cases pp) auto
  show ?thesis
    using assms(1)
  proof cases
    case (call_enqueue i pcs s0 v)
    then show ?thesis
      using x y ok assms(3) fifo_step.intros(1) [of p "{p}" "two p c A_idle (abs_producer (lf_heap s) pp) (abs_consumer cc)" "{c}" "queued s ns" v]
      by (fastforce simp: spsc_related_def spsc_ok_def)
  next
    case (ret_enqueue pcs i s0)
    then have "i = p \<or> i = c" using x two_at(3) by fastforce
    then have "i = p" "pp = Enq_done" using ret_enqueue x kn assms(3) by auto
    then show ?thesis
      using ret_enqueue x y ok assms(3) fifo_step.intros(3) [of "two p c A_idle A_enq_done (abs_consumer cc)" p "{p}" "{c}" "queued s ns"]
      by (fastforce simp: spsc_related_def spsc_ok_def)
  next
    case (call_dequeue i pcs s0)
    then show ?thesis
      using x y ok assms(3) fifo_step.intros(4) [of c "{c}" "two p c A_idle (abs_producer (lf_heap s) pp) (abs_consumer cc)" "{p}" "queued s ns"]
      by (fastforce simp: spsc_related_def spsc_ok_def)
  next
    case (ret_dequeue pcs i r s0)
    then have "i = p \<or> i = c" using x two_at(3) by fastforce
    then have "i = c" "cc = Deq_done r" using ret_dequeue x kn assms(3) by auto
    then show ?thesis
      using ret_dequeue x y ok assms(3) fifo_step.intros(7) [of "two p c A_idle (abs_producer (lf_heap s) pp) (A_deq_done r)" c r "{p}" "{c}" "queued s ns"]
      by (fastforce simp: spsc_related_def spsc_ok_def)
  next
    case (turn s0 a fails pcs i pc' s')
    then have eq: "s0 = s" "pcs = two p c Idle pp cc" using x by auto
    show ?thesis using spsc_turn [OF ok assms(3) turn(4,5) [unfolded eq] y] turn eq by auto
  next
    case (undefined_access s0 a fails pcs i)
    then have eq: "s0 = s" "pcs = two p c Idle pp cc" using x by auto
    then show ?thesis using spsc_no_crash [OF ok assms(3), of a fails i] undefined_access by simp
  qed
qed

lemma spsc_start: "spsc_related p c (new_lf_queue d a, \<lambda>_. Idle) ([], \<lambda>_. A_idle)"
proof -
  have "spsc_ok (new_lf_queue d a) Idle Idle [a]" by (simp add: spsc_ok_def new_lf_queue_def)
  moreover have "queued (new_lf_queue d a) [a] = []" by (simp add: queued_def)
  ultimately show ?thesis using spsc_relatedI [of "new_lf_queue d a" Idle Idle "[a]" p c]
    by (simp add: two_same)
qed

lemma spsc_run:
  assumes "lf_run {p} {c} (new_lf_queue d a, \<lambda>_. Idle) tr z" and "p \<noteq> c"
  shows "\<exists>x y. z = Some x \<and> spsc_related p c x y \<and> fifo_run {p} {c} ([], \<lambda>_. A_idle) tr y"
  using assms(1)
proof induction
  case start
  show ?case by (intro exI conjI) (rule refl, rule spsc_start, rule fifo_run.start)
next
  case (more tr x es z)
  from more.IH obtain x1 y where x1: "Some x = Some x1" and "spsc_related p c x1 y"
    and run: "fifo_run {p} {c} ([], \<lambda>_. A_idle) tr y" by (elim exE conjE) (rule that)
  then have rel: "spsc_related p c x y" "fifo_run {p} {c} ([], \<lambda>_. A_idle) tr y" by (simp_all only: option.inject)
  from spsc_simulation [OF more.hyps(2) rel(1) assms(2)] obtain x' y' where
    z: "z = Some x'" "spsc_related p c x' y'" and st: "fifo_step {p} {c} y es y' \<or> es = [] \<and> y' = y" by blast
  from st have "fifo_run {p} {c} ([], \<lambda>_. A_idle) (tr @ es) y'"
  proof
    assume "fifo_step {p} {c} y es y'"
    with rel(2) show ?thesis by (rule fifo_run.more)
  next
    assume "es = [] \<and> y' = y"
    with rel(2) show ?thesis by simp
  qed
  with z show ?case by blast
qed

section \<open>How long a call takes\<close>

fun enq_left :: "'a lf_pc \<Rightarrow> nat" where
  "enq_left (Enq_new v) = 9"
| "enq_left (Enq_loop n) = 8"
| "enq_left (Enq_tag n t) = 7"
| "enq_left (Enq_next n t g) = 6"
| "enq_left (Enq_check n t g nx) = 5"
| "enq_left (Enq_link n t g) = 4"
| "enq_left (Enq_count n g) = 3"
| "enq_left (Enq_store n g) = 2"
| "enq_left (Enq_retag g) = 1"
| "enq_left pc = 0"

text \<open>A tail that still stands at the head costs one round of help.\<close>

definition help_left :: "nat \<Rightarrow> nat \<Rightarrow> nat" where
  "help_left h t = (if h = t then 8 else 0)"

fun deq_left :: "'a lf_queue \<Rightarrow> 'a lf_pc \<Rightarrow> nat" where
  "deq_left s Deq_loop = 10 + help_left (lf_head s) (lf_tail s)"
| "deq_left s (Deq_tag h) = 9 + help_left (lf_head s) (lf_tail s)"
| "deq_left s (Deq_tail h g) = 8 + help_left (lf_head s) (lf_tail s)"
| "deq_left s (Deq_next h g t) = 7 + help_left h t"
| "deq_left s (Deq_check h g t nx) = 6 + help_left h t"
| "deq_left s (Deq_help t m) = 12"
| "deq_left s Deq_helptag = 11"
| "deq_left s (Deq_read h g nx) = 5"
| "deq_left s (Deq_cas h g m v) = 4"
| "deq_left s (Deq_retag h g v) = 3"
| "deq_left s (Deq_delete h v) = 2"
| "deq_left s (Deq_count v) = 1"
| "deq_left s pc = 0"

lemma help_left_mono: "(h \<noteq> t \<Longrightarrow> h \<noteq> t') \<Longrightarrow> help_left h t' \<le> help_left h t"
  by (auto simp: help_left_def)

text \<open>
  A turn of one's own brings the return nearer by one turn, unless a weak exchange fails
  without a reason: then the loop begins again, and 5 or 7 turns are lost.
\<close>

lemma enq_own_turn:
  assumes "spsc_ok s pp cc ns" and "enqueue_turn a fails pp s = Some (pp', s')" and "enqueuing pp"
  shows "Suc (enq_left pp') \<le> enq_left pp + 5 * of_bool fails"
proof -
  have P: "producer_knows pp s ns" and L: "linked (lf_heap s) ns" using assms(1) by (auto simp: spsc_ok_def)
  obtain nd where nd: "lf_heap s (last ns) = Some nd" "nd_next nd = None" using linked_last [OF L] by blast
  show ?thesis using P nd assms(2,3) by (cases pp) (auto split: if_splits)
qed

lemma deq_own_turn:
  assumes "spsc_ok s pp cc ns" and "dequeue_turn fails cc s = Some (cc', s')" and "deq_left s cc \<noteq> 0"
  shows "Suc (deq_left s' cc') \<le> deq_left s cc + 7 * of_bool fails"
proof -
  have C: "consumer_knows cc s ns" and H: "hd ns = lf_head s" using assms(1) by (auto simp: spsc_ok_def)
  show ?thesis
  proof (cases cc)
    case (Deq_check h g t nx)
    then have "h = lf_head s" using C by simp
    then show ?thesis using assms(2) Deq_check by (cases nx) (auto simp: help_left_def split: if_splits)
  next
    case (Deq_cas h g m v)
    then have "h = lf_head s" "lf_tail s \<noteq> h" using C H by auto
    then show ?thesis using assms(2) Deq_cas by (auto simp: help_left_def split: if_splits)
  next
    case (Deq_tail h g)
    then have "h = lf_head s" using C by simp
    then show ?thesis using assms(2) Deq_tail by (auto simp: help_left_def)
  next
    case Deq_helptag
    then show ?thesis using assms(2) C by (auto simp: help_left_def)
  qed (use assms(2,3) in \<open>auto simp: help_left_def split: option.splits\<close>)
qed

lemma deq_left_others:
  assumes ok: "spsc_ok s pp cc ns" and t: "enqueue_turn a fails pp s = Some (pp', s')" and en: "enqueuing pp"
  shows "deq_left s' cc \<le> deq_left s cc"
proof -
  have P: "producer_knows pp s ns" and L: "linked (lf_heap s) ns" and D: "distinct ns" and H: "hd ns = lf_head s"
    using ok by (auto simp: spsc_ok_def)
  have h: "lf_head s' = lf_head s" using t en by (cases pp) (auto split: option.splits if_splits)
  have "lf_head s \<noteq> lf_tail s' " if n: "lf_head s \<noteq> lf_tail s"
  proof -
    have "last ns \<noteq> lf_head s"
      using tail_in_chain [OF L P] D H n by (cases ns) (auto split: if_splits dest: last_in_set)
    moreover have "lf_tail s' = lf_tail s \<or> lf_tail s' = last ns"
      using t en P by (cases pp) (auto split: option.splits if_splits)
    ultimately show ?thesis using n by auto
  qed
  then have "help_left (lf_head s') (lf_tail s') \<le> help_left (lf_head s) (lf_tail s)"
    unfolding h by (rule help_left_mono)
  then show ?thesis by (cases cc) auto
qed

lemma deq_left_bound: "deq_left s cc \<le> 18" and enq_left_bound: "enq_left pp \<le> 9"
  by (cases cc; simp add: help_left_def) (cases pp; simp)

text \<open>
  A stretch of a run in which thread \<open>i\<close> takes \<open>k\<close> turns of its own, \<open>f\<close> of them with the
  exchange failing for no reason (a turn that makes no exchange is not changed by that), and
  neither returns nor calls; the other threads do what they like in between.
\<close>

inductive call_run :: "nat set \<Rightarrow> nat set \<Rightarrow> nat \<Rightarrow> 'a lf_sys \<Rightarrow> nat \<Rightarrow> nat \<Rightarrow> 'a lf_sys \<Rightarrow> bool" for P C i x where
  no_turn: "call_run P C i x 0 0 x"
| own_turn: "call_run P C i x k f (s, pcs) \<Longrightarrow> lf_heap s b = None \<Longrightarrow> lf_turn b fails (pcs i) s = Some (pc', s') \<Longrightarrow>
    call_run P C i x (Suc k) (f + of_bool fails) (s', pcs(i := pc'))"
| other_turn: "call_run P C i x k f y \<Longrightarrow> lf_step P C y es (Some z) \<Longrightarrow> snd z i = snd y i \<Longrightarrow> call_run P C i x k f z"

definition spsc_reached :: "nat \<Rightarrow> nat \<Rightarrow> 'a lf_sys \<Rightarrow> bool" where
  "spsc_reached p c x \<longleftrightarrow> (\<exists>y. spsc_related p c x y)"

lemma spsc_reached_step:
  "lf_step {p} {c} x es (Some z) \<Longrightarrow> spsc_reached p c x \<Longrightarrow> p \<noteq> c \<Longrightarrow> spsc_reached p c z"
  unfolding spsc_reached_def using spsc_simulation by fastforce

lemma call_run_reached:
  assumes "call_run {p} {c} i x k f y" and "spsc_reached p c x" and "p \<noteq> c"
  shows "spsc_reached p c y"
  using assms(1)
proof induction
  case (own_turn k f s pcs b fails pc' s')
  then show ?case using spsc_reached_step [OF lf_step.turn] assms(3) by metis
qed (use assms spsc_reached_step in blast)+

text \<open>Steps that leave the dequeuing thread where it is.\<close>

lemma consumer_not_further:
  assumes "lf_step {p} {c} y es (Some z)" and "spsc_reached p c y" and "p \<noteq> c" and "snd z c = snd y c"
  shows "deq_left (fst z) (snd z c) \<le> deq_left (fst y) (snd y c)"
proof -
  obtain s pp cc ns where y: "y = (s, two p c Idle pp cc)" and ok: "spsc_ok s pp cc ns"
    using assms(2) unfolding spsc_reached_def spsc_related_def by blast
  have kn: "consumer_knows cc s ns" using ok by (simp add: spsc_ok_def)
  from assms(1) show ?thesis
  proof cases
    case (turn s0 a fails pcs i pc' s')
    then have eq: "s0 = s" "pcs = two p c Idle pp cc" and z: "z = (s', pcs(i := pc'))" using y by auto
    show ?thesis
    proof (cases "i = p \<and> enqueuing pp")
      case True
      then have "enqueue_turn a fails pp s = Some (pc', s')" using turn(5) eq by (simp add: lf_turn_def)
      then show ?thesis using deq_left_others [OF ok] True y z eq assms(3) by simp
    next
      case False
      show ?thesis
      proof (cases "i = c")
        case True
        then have "dequeue_turn fails cc s = Some (cc, s')" using turn(5) eq y z assms(3,4) spsc_places(1) [OF ok]
          by (simp add: lf_turn_def)
        then have "deq_left s cc = 0 \<or> s' = s" by (cases cc) (auto split: option.splits if_splits)
        moreover have "deq_left s cc = 0 \<Longrightarrow> deq_left s' cc = 0" by (cases cc) auto
        ultimately show ?thesis using y z eq True assms(3,4) by auto
      next
        case other: False
        then have "s' = s" using False turn(5) eq spsc_places(2) [OF ok] assms(3)
          by (cases "i = p") (auto simp: lf_turn_def)
        then show ?thesis using y z eq assms(4) by simp
      qed
    qed
  qed (use y assms(4) in auto)
qed

section \<open>Schedules\<close>

datatype 'a lf_act = Enqueue_by nat 'a | TryDequeue_by nat | Return_of nat | Turn_of nat nat bool

fun perform :: "nat set \<Rightarrow> nat set \<Rightarrow> 'a lf_act \<Rightarrow> 'a lf_sys \<Rightarrow> ('a lf_event list \<times> 'a lf_sys option) option" where
  "perform P C (Enqueue_by i v) (s, pcs) =
     (case pcs i of
        Idle \<Rightarrow> if i \<in> P then Some ([Call_enqueue i v], Some (s, pcs(i := Enq_new v))) else None
      | _ \<Rightarrow> None)"
| "perform P C (TryDequeue_by i) (s, pcs) =
     (case pcs i of
        Idle \<Rightarrow> if i \<in> C then Some ([Call_dequeue i], Some (s, pcs(i := Deq_loop))) else None
      | _ \<Rightarrow> None)"
| "perform P C (Return_of i) (s, pcs) =
     (case pcs i of
        Enq_done \<Rightarrow> Some ([Ret_enqueue i], Some (s, pcs(i := Idle)))
      | Deq_done r \<Rightarrow> Some ([Ret_dequeue i r], Some (s, pcs(i := Idle)))
      | _ \<Rightarrow> None)"
| "perform P C (Turn_of i a fails) (s, pcs) =
     (if lf_heap s a = None
      then Some ([], map_option (\<lambda>(pc', s'). (s', pcs(i := pc'))) (lf_turn a fails (pcs i) s))
      else None)"

lemma perform_step: "perform P C b x = Some (es, z) \<Longrightarrow> lf_step P C x es z"
proof (induction P C b x rule: perform.induct)
  case (4 P C i a fails s pcs)
  then show ?case
    by (cases "lf_turn a fails (pcs i) s") (auto intro: lf_step.turn lf_step.undefined_access split: if_splits)
qed (auto intro: lf_step.intros split: lf_pc.splits if_splits)

fun play :: "nat set \<Rightarrow> nat set \<Rightarrow> 'a lf_act list \<Rightarrow> 'a lf_sys \<Rightarrow> 'a lf_event list \<Rightarrow> ('a lf_event list \<times> 'a lf_sys option) option" where
  "play P C [] x tr = Some (tr, Some x)"
| "play P C (b # bs) x tr =
     (case perform P C b x of
        None \<Rightarrow> None
      | Some (es, None) \<Rightarrow> if bs = [] then Some (tr @ es, None) else None
      | Some (es, Some y) \<Rightarrow> play P C bs y (tr @ es))"

lemma play_run_from: "play P C bs x tr0 = Some (tr, z) \<Longrightarrow> lf_run P C x0 tr0 (Some x) \<Longrightarrow> lf_run P C x0 tr z"
proof (induction bs arbitrary: x tr0)
  case (Cons b bs)
  obtain es z' where p: "perform P C b x = Some (es, z')" using Cons.prems(1) by (auto split: option.splits)
  have r: "lf_run P C x0 (tr0 @ es) z'"
    using lf_run.more [OF Cons.prems(2) perform_step [OF p]] .
  show ?case
  proof (cases z')
    case None
    then show ?thesis using Cons.prems(1) p r by (auto split: if_splits)
  next
    case (Some y)
    then show ?thesis using Cons.prems(1) p r Cons.IH [of y "tr0 @ es"] by auto
  qed
qed simp

lemma play_run: "play P C bs x [] = Some (tr, z) \<Longrightarrow> lf_run P C x tr z"
  by (rule play_run_from) (auto intro: lf_run.start)

text \<open>A thread's own turns, one after the other.\<close>

definition turns :: "nat \<Rightarrow> nat \<Rightarrow> nat \<Rightarrow> 'a lf_act list" where
  "turns n i a = replicate n (Turn_of i a False)"

lemma lf_turn_simps [simp]:
  "enqueuing pc \<Longrightarrow> lf_turn a fails pc s = enqueue_turn a fails pc s"
  "\<not> enqueuing pc \<Longrightarrow> lf_turn a fails pc s = dequeue_turn fails pc s"
  by (simp_all add: lf_turn_def)

section \<open>The properties\<close>

definition holds_queue :: "'a lf_queue \<Rightarrow> 'a list \<Rightarrow> bool" where
  "holds_queue s q \<longleftrightarrow> (\<exists>ns. linked (lf_heap s) ns \<and> hd ns = lf_head s \<and> map (datum (lf_heap s)) (tl ns) = q)"

text \<open>
  C7: used by one enqueuing and one dequeuing thread, the lock-free queue is a first-in
  first-out queue: whatever the interleaving of their accesses, the addresses the allocator
  picks and the failures of the weak exchanges, no access is undefined, and the calls and
  returns seen so far are those of a run of the atomic queue, which holds what the list of
  nodes holds.
\<close>

theorem spsc_refines_fifo:
  assumes "lf_run {p} {c} (new_lf_queue d a, \<lambda>_. Idle) tr z" and "p \<noteq> c"
  shows "\<exists>s pcs q ps. z = Some (s, pcs) \<and> holds_queue s q \<and> fifo_run {p} {c} ([], \<lambda>_. A_idle) tr (q, ps)"
proof -
  obtain x y where z: "z = Some x" and rel: "spsc_related p c x y"
    and run: "fifo_run {p} {c} ([], \<lambda>_. A_idle) tr y"
    using spsc_run [OF assms] by blast
  obtain s pp cc ns where x: "x = (s, two p c Idle pp cc)" and ok: "spsc_ok s pp cc ns"
    and y: "y = (queued s ns, two p c A_idle (abs_producer (lf_heap s) pp) (abs_consumer cc))"
    using rel unfolding spsc_related_def by blast
  have "holds_queue s (queued s ns)" using ok unfolding holds_queue_def queued_def spsc_ok_def by blast
  then show ?thesis using z x run unfolding y by blast
qed

text \<open>The schedule that two dequeuing threads fail on.\<close>

definition passing :: "nat \<Rightarrow> nat \<Rightarrow> nat \<Rightarrow> nat \<Rightarrow> 'a \<Rightarrow> 'a lf_act list" where
  "passing p c n a v = Enqueue_by p v # Turn_of p n False # turns 8 p a @ [Return_of p, TryDequeue_by c] @
     turns 10 c a @ [Return_of c]"

theorem spsc_refines_fifo_witness:
  "\<exists>s pcs q ps. holds_queue s q \<and>
     fifo_run {0} {1} ([], \<lambda>_. A_idle) [Call_enqueue 0 (7 :: nat), Ret_enqueue 0, Call_dequeue 1, Ret_dequeue 1 (Some 7)] (q, ps) \<and>
     lf_run {0} {1} (new_lf_queue 0 0, \<lambda>_. Idle) [Call_enqueue 0 7, Ret_enqueue 0, Call_dequeue 1, Ret_dequeue 1 (Some 7)] (Some (s, pcs))"
proof -
  let ?tr = "[Call_enqueue 0 (7 :: nat), Ret_enqueue 0, Call_dequeue 1, Ret_dequeue 1 (Some 7)]"
  have "\<exists>z. play {0} {1} (passing 0 1 1 2 (7 :: nat)) (new_lf_queue 0 0, \<lambda>_. Idle) [] = Some (?tr, z)"
    by (simp add: passing_def turns_def new_lf_queue_def numeral_eq_Suc)
  then obtain z where r: "lf_run {0} {1} (new_lf_queue 0 0, \<lambda>_. Idle) ?tr z" using play_run by blast
  obtain s pcs q ps where "z = Some (s, pcs)" "holds_queue s q" "fifo_run {0} {1} ([], \<lambda>_. A_idle) ?tr (q, ps)"
    using spsc_refines_fifo [OF r] by auto
  with r show ?thesis by (intro exI conjI) simp_all
qed

lemma enqueuing_turns:
  assumes "call_run {p} {c} p x k f y" and "spsc_reached p c x" and "p \<noteq> c"
  shows "enq_left (snd y p) = 0 \<or> k + enq_left (snd y p) \<le> 9 + 5 * f"
  using assms(1)
proof induction
  case no_turn
  then show ?case using enq_left_bound [of "snd x p"] by simp
next
  case (own_turn k f s pcs b fails pc' s')
  obtain pp cc ns where pcs: "pcs = two p c Idle pp cc" and ok: "spsc_ok s pp cc ns"
    using call_run_reached [OF own_turn.hyps(1) assms(2,3)] unfolding spsc_reached_def spsc_related_def by auto
  show ?case
  proof (cases "enqueuing pp")
    case True
    then have "enqueue_turn b fails pp s = Some (pc', s')" "enq_left pp \<noteq> 0"
      using own_turn.hyps(3) pcs ok by (auto simp: spsc_ok_def elim!: enqueuing.elims)
    then show ?thesis using enq_own_turn [OF ok _ True] own_turn.IH pcs by fastforce
  next
    case False
    then have "pp = Idle \<or> pp = Enq_done" using spsc_places(2) [OF ok] by blast
    then show ?thesis using own_turn.hyps(3) pcs by auto
  qed
qed simp

lemma dequeuing_turns:
  assumes "call_run {p} {c} c x k f y" and "spsc_reached p c x" and "p \<noteq> c"
  shows "deq_left (fst y) (snd y c) = 0 \<or> k + deq_left (fst y) (snd y c) \<le> 18 + 7 * f"
  using assms(1)
proof induction
  case no_turn
  then show ?case using deq_left_bound [of "fst x" "snd x c"] by simp
next
  case (own_turn k f s pcs b fails pc' s')
  obtain pp cc ns where pcs: "pcs = two p c Idle pp cc" and ok: "spsc_ok s pp cc ns"
    using call_run_reached [OF own_turn.hyps(1) assms(2,3)] unfolding spsc_reached_def spsc_related_def by auto
  have t: "dequeue_turn fails cc s = Some (pc', s')"
    using own_turn.hyps(3) pcs assms(3) spsc_places(1) [OF ok] by simp
  show ?case
  proof (cases "deq_left s cc = 0")
    case True
    have "consumer_knows cc s ns" using ok by (simp add: spsc_ok_def)
    then have "cc = Idle \<or> (\<exists>r. cc = Deq_done r)" using True by (cases cc) auto
    then show ?thesis using t pcs assms(3) by auto
  next
    case False
    then show ?thesis using deq_own_turn [OF ok t False] own_turn.IH pcs assms(3) by fastforce
  qed
next
  case (other_turn k f y es z)
  then show ?case
    using consumer_not_further [OF other_turn.hyps(2) call_run_reached [OF other_turn.hyps(1) assms(2,3)] assms(3)]
    by fastforce
qed

text \<open>
  C32: used by one enqueuing and one dequeuing thread no call can be held up by the other
  thread. In every stretch of a run the enqueuing thread has left the loop of \<open>Enqueue\<close> after
  \<open>9 + 5 f\<close> turns of its own, and the dequeuing thread the loop of \<open>TryDequeue\<close> after
  \<open>18 + 7 f\<close>, where \<open>f\<close> is the number of its weak exchanges that failed without a reason in the
  stretch: 9 and 18 turns when none does, and what the other thread does counts for nothing.
\<close>

theorem spsc_wait_free:
  assumes "lf_run {p} {c} (new_lf_queue d a, \<lambda>_. Idle) tr (Some x)" and "p \<noteq> c"
    and "call_run {p} {c} i x k f (s, pcs)"
  shows "(i = p \<and> 9 + 5 * f \<le> k \<longrightarrow> pcs p = Idle \<or> pcs p = Enq_done) \<and>
      (i = c \<and> 18 + 7 * f \<le> k \<longrightarrow> pcs c = Idle \<or> (\<exists>r. pcs c = Deq_done r))"
proof -
  have x: "spsc_reached p c x" using spsc_run [OF assms(1,2)] unfolding spsc_reached_def by auto
  obtain pp cc ns where pcs: "pcs = two p c Idle pp cc" and ok: "spsc_ok s pp cc ns"
    using call_run_reached [OF assms(3) x assms(2)] unfolding spsc_reached_def spsc_related_def by auto
  have kn: "producer_knows pp s ns" "consumer_knows cc s ns" using ok by (auto simp: spsc_ok_def)
  have "pp = Idle \<or> pp = Enq_done" if "enq_left pp = 0" using that kn(1) by (cases pp) auto
  moreover have "cc = Idle \<or> (\<exists>r. cc = Deq_done r)" if "deq_left s cc = 0" using that kn(2) by (cases cc) auto
  moreover have "enq_left pp = 0 \<or> k + enq_left pp \<le> 9 + 5 * f" if "i = p"
    using enqueuing_turns [of p c x k f "(s, pcs)"] assms(2,3) x that pcs by simp
  moreover have "deq_left s cc = 0 \<or> k + deq_left s cc \<le> 18 + 7 * f" if "i = c"
    using dequeuing_turns [of p c x k f "(s, pcs)"] assms(2,3) x that pcs by simp
  ultimately show ?thesis using pcs assms(2) by auto
qed

text \<open>A call of \<open>Enqueue\<close> whose first exchange fails: it is through after 14 turns.\<close>

definition late_enqueue :: "nat lf_act list" where
  "late_enqueue = Turn_of 0 1 False # turns 4 0 2 @ Turn_of 0 2 True # turns 8 0 2"

lemma play_turns:
  "play P C bs x tr0 = Some (tr, Some z) \<Longrightarrow> call_run P C i x0 k f x \<Longrightarrow>
     list_all (\<lambda>b. case b of Turn_of j a fails \<Rightarrow> j = i | _ \<Rightarrow> False) bs \<Longrightarrow>
     call_run P C i x0 (k + length bs) (f + length (filter (\<lambda>b. case b of Turn_of i a fails \<Rightarrow> fails | _ \<Rightarrow> False) bs)) z"
proof (induction bs arbitrary: x tr0 k f)
  case (Cons b bs)
  obtain a fails where b: "b = Turn_of i a fails" using Cons.prems(3) by (cases b) auto
  obtain s pcs where x: "x = (s, pcs)" by (cases x)
  obtain pc' s' where t: "lf_heap s a = None" "lf_turn a fails (pcs i) s = Some (pc', s')"
    and p: "play P C bs (s', pcs(i := pc')) tr0 = Some (tr, Some z)"
    using Cons.prems(1) unfolding b x by (auto split: option.splits if_splits)
  have "call_run P C i x0 (Suc k) (f + of_bool fails) (s', pcs(i := pc'))"
    using call_run.own_turn Cons.prems(2) t unfolding x by blast
  from Cons.IH [OF p this] Cons.prems(3) show ?case unfolding b by (cases fails) simp_all
qed simp

theorem spsc_wait_free_witness:
  "\<exists>s pcs. call_run {0} {1} 0 (new_lf_queue 0 0, (\<lambda>_. Idle)(0 := Enq_new (7 :: nat))) 14 1 (s, pcs) \<and>
     pcs 0 = Enq_done"
proof -
  let ?x = "(new_lf_queue 0 0, (\<lambda>_. Idle)(0 := Enq_new (7 :: nat)))"
  have r: "lf_run {0} {1} (new_lf_queue 0 0, \<lambda>_. Idle) [Call_enqueue 0 7] (Some ?x)"
    by (rule play_run [of _ _ "[Enqueue_by 0 7]"]) simp
  have "\<exists>tr z. play {0} {1} late_enqueue ?x [] = Some (tr, Some z) \<and> snd z 0 \<noteq> Idle"
    by (simp add: late_enqueue_def turns_def new_lf_queue_def numeral_eq_Suc)
  then obtain tr s pcs where p: "play {0} {1} late_enqueue ?x [] = Some (tr, Some (s, pcs))" "pcs 0 \<noteq> Idle" by auto
  have own: "list_all (\<lambda>b. case b of Turn_of j a fails \<Rightarrow> j = 0 | _ \<Rightarrow> False) late_enqueue"
    and n: "length late_enqueue = 14" "length (filter (\<lambda>b. case b of Turn_of i a fails \<Rightarrow> fails | _ \<Rightarrow> False) late_enqueue) = 1"
    by code_simp+
  have run: "call_run {0} {1} 0 ?x 14 1 (s, pcs)"
    using play_turns [OF p(1) call_run.no_turn own] unfolding n by simp
  have "pcs 0 = Idle \<or> pcs 0 = Enq_done" using spsc_wait_free [OF r _ run] by simp
  with run p(2) show ?thesis by blast
qed

text \<open>
  C36: with two dequeuing threads the queue is not safe: one that has read
  \<open>head_ptr_\<close> and is held up reads the \<open>next\<close> of a node the other has dequeued and
  deleted. The receive queue is emptied by \<open>ProcMsgRecvWorkThreadCount\<close> threads, five
  where the configuration says nothing.
\<close>

theorem two_dequeuers_use_freed_node:
  assumes "p \<in> P" and "c1 \<in> C" and "c2 \<in> C" and "distinct [p, c1, c2]"
  shows "\<exists>tr. lf_run P C (new_lf_queue d a, \<lambda>_. Idle) tr None"
proof -
  have "\<exists>tr. play P C
    ([Enqueue_by p d, Turn_of p (Suc a) False] @ turns 8 p (a + 2) @ [TryDequeue_by c2] @ turns 1 c2 (a + 2) @
     [TryDequeue_by c1] @ turns 9 c1 (a + 2) @ turns 3 c2 (a + 2))
    (new_lf_queue d a, \<lambda>_. Idle) [] = Some (tr, None)"
    using assms by (simp add: turns_def new_lf_queue_def numeral_eq_Suc)
  then show ?thesis using play_run by blast
qed

theorem two_dequeuers_use_freed_node_witness:
  "\<exists>tr. lf_run {0} {1, 2} (new_lf_queue (0 :: nat) 0, \<lambda>_. Idle) tr None"
  by (rule two_dequeuers_use_freed_node [of 0 _ 1 _ 2]) auto

text \<open>
  With two enqueuing threads it is not safe either: the one that has linked its node
  stores \<open>tail_ptr_\<close> without looking, after the other has moved on and the node has been
  dequeued and deleted; the next \<open>Enqueue\<close> reads the deleted node. The send queue is filled
  by all threads of the pool.
\<close>

theorem two_enqueuers_use_freed_node:
  assumes "p1 \<in> P" and "p2 \<in> P" and "c \<in> C" and "distinct [p1, p2, c]"
  shows "\<exists>tr. lf_run P C (new_lf_queue d a, \<lambda>_. Idle) tr None"
proof -
  let ?f = "a + 3"
  have "\<exists>tr. play P C
    ([Enqueue_by p1 d, Turn_of p1 (a + 1) False] @ turns 6 p1 ?f @
     [Enqueue_by p2 d, Turn_of p2 (a + 2) False] @ turns 6 p2 ?f @ turns 8 p2 ?f @ [Return_of p2] @
     [TryDequeue_by c] @ turns 10 c ?f @ [Return_of c] @
     [TryDequeue_by c] @ turns 10 c ?f @ [Return_of c] @
     turns 1 p1 ?f @ [Enqueue_by p2 d, Turn_of p2 ?f False] @ turns 3 p2 (a + 4))
    (new_lf_queue d a, \<lambda>_. Idle) [] = Some (tr, None)"
    using assms by (simp add: turns_def new_lf_queue_def numeral_eq_Suc)
  then show ?thesis using play_run by blast
qed

theorem two_enqueuers_use_freed_node_witness:
  "\<exists>tr. lf_run {0, 1} {2} (new_lf_queue (0 :: nat) 0, \<lambda>_. Idle) tr None"
  by (rule two_enqueuers_use_freed_node [of 0 _ 1 2]) auto

end
