(* ===== verification/ThreadPool.thy ===== *)
theory ThreadPool
  imports Prelude Systems "HOL-Library.Multiset"
begin

text \<open>
  The pool of \<open>src/threadPool/my_threadpool.cpp\<close> over time: \<open>Create\<close>, the threads, the
  messages the event loop hands over and \<open>StopAll\<close>, as the interleaving of the steps of
  the worker's main thread and of the pool's threads. A step is one access to what the
  threads share; the predicate \<open>Create\<close> waits for, which reads the flags of all threads,
  is taken as one. The receive queue is the list that \<open>LockFreeQueue\<close> shows it to be for one
  thread on each side. What a thread does with a message is in \<open>Logic\<close>; here it is
  noted in \<open>tp_handled\<close>, beside the messages received and taken so far (\<open>tp_received\<close>,
  \<open>tp_taken\<close>), which the code does not keep. The call that handles it may also not return in
  a turn, or never. Starting a thread may throw.
\<close>

section \<open>The pool\<close>

text \<open>The places of \<open>ThreadFunc\<close>; \<open>Node\<close> is the message in hand.\<close>

datatype 'm thread_pc =
    At_loop
  | At_flag
  | At_notify
  | At_second_check
  | At_dequeue
  | At_uncount 'm
  | At_busy 'm
  | At_work 'm
  | At_free
  | Thread_ended

record 'm pool_thread =
  th_ifrunning :: bool
  th_pc :: "'m thread_pc"

text \<open>The places of the worker's main thread, which calls \<open>Create\<close>, then
  \<open>inMsgRecvQueueAndSignal\<close> from the event loop, then \<open>StopAll\<close>.\<close>

datatype main_pc =
    Creating
  | At_predicate
  | Going_to_wait
  | Waiting
  | Create_failed
  | Event_loop
  | At_count
  | At_Call
  | At_notify_all
  | Joining nat
  | Stopped

record 'm thread_pool =
  tp_iThreadNum :: int
  tp_iRunningThreadNum :: int
  tp_iLastEmgTime :: int
  tp_shutdown :: bool
  tp_threadVector :: "'m pool_thread list"
  tp_MsgRecvQueue :: "'m list"
  tp_iRecvMsgQueueCount :: int
  tp_main :: main_pc
  tp_received :: "'m list"
  tp_taken :: "'m list"
  tp_handled :: "'m list"

definition new_thread_pool :: "int \<Rightarrow> 'm thread_pool" where
  "new_thread_pool n = \<lparr>tp_iThreadNum = n, tp_iRunningThreadNum = 0, tp_iLastEmgTime = 0, tp_shutdown = False,
     tp_threadVector = [], tp_MsgRecvQueue = [], tp_iRecvMsgQueueCount = 0, tp_main = Creating,
     tp_received = [], tp_taken = [], tp_handled = []\<rparr>"

definition new_thread :: "'m pool_thread" where
  "new_thread = \<lparr>th_ifrunning = False, th_pc = At_loop\<rparr>"

definition Create_turn :: "bool \<Rightarrow> 'm thread_pool \<Rightarrow> 'm thread_pool" where
  "Create_turn thread_ok s =
     (case tp_main s of
        Creating \<Rightarrow>
          if int (length (tp_threadVector s)) < tp_iThreadNum s
          then (if thread_ok then s\<lparr>tp_threadVector := tp_threadVector s @ [new_thread]\<rparr>
                else s\<lparr>tp_main := Create_failed\<rparr>)
          else s\<lparr>tp_main := At_predicate\<rparr>
      | At_predicate \<Rightarrow>
          s\<lparr>tp_main := (if list_all th_ifrunning (tp_threadVector s) then Event_loop else Going_to_wait)\<rparr>
      | Going_to_wait \<Rightarrow> s\<lparr>tp_main := Waiting\<rparr>
      | _ \<Rightarrow> s)"

definition set_thread :: "nat \<Rightarrow> 'm pool_thread \<Rightarrow> 'm thread_pool \<Rightarrow> 'm thread_pool" where
  "set_thread i t s = s\<lparr>tp_threadVector := (tp_threadVector s)[i := t]\<rparr>"

definition notify_init :: "'m thread_pool \<Rightarrow> 'm thread_pool" where
  "notify_init s = (if tp_main s = Waiting then s\<lparr>tp_main := At_predicate\<rparr> else s)"

text \<open>
  In \<open>threadRecvProcFunc\<close> a thread stays as long as it takes; \<open>returns\<close> says whether the
  call returns in this step, which it may never do.
\<close>

definition ThreadFunc_step :: "bool \<Rightarrow> nat \<Rightarrow> 'm thread_pool \<Rightarrow> 'm thread_pool" where
  "ThreadFunc_step returns i s =
     (let t = tp_threadVector s ! i;
          goto = (\<lambda>pc. set_thread i (t\<lparr>th_pc := pc\<rparr>))
      in case th_pc t of
        At_loop \<Rightarrow> goto (if tp_shutdown s then Thread_ended else At_flag) s
      | At_flag \<Rightarrow>
          if \<not> th_ifrunning t then set_thread i \<lparr>th_ifrunning = True, th_pc = At_notify\<rparr> s
          else goto At_second_check s
      | At_notify \<Rightarrow> goto At_second_check (notify_init s)
      | At_second_check \<Rightarrow> goto (if tp_shutdown s then Thread_ended else At_dequeue) s
      | At_dequeue \<Rightarrow>
          (case tp_MsgRecvQueue s of
             [] \<Rightarrow> goto At_loop s
           | m # ms \<Rightarrow> goto (At_uncount m) (s\<lparr>tp_MsgRecvQueue := ms, tp_taken := tp_taken s @ [m]\<rparr>))
      | At_uncount m \<Rightarrow> goto (At_busy m) (s\<lparr>tp_iRecvMsgQueueCount := tp_iRecvMsgQueueCount s - 1\<rparr>)
      | At_busy m \<Rightarrow> goto (At_work m) (s\<lparr>tp_iRunningThreadNum := tp_iRunningThreadNum s + 1\<rparr>)
      | At_work m \<Rightarrow> if returns then goto At_free (s\<lparr>tp_handled := tp_handled s @ [m]\<rparr>) else s
      | At_free \<Rightarrow> goto At_loop (s\<lparr>tp_iRunningThreadNum := tp_iRunningThreadNum s - 1\<rparr>)
      | Thread_ended \<Rightarrow> s)"

definition receive :: "'m \<Rightarrow> 'm thread_pool \<Rightarrow> 'm thread_pool" where
  "receive m s = s\<lparr>tp_MsgRecvQueue := tp_MsgRecvQueue s @ [m], tp_received := tp_received s @ [m],
     tp_main := At_count\<rparr>"

definition count_received :: "'m thread_pool \<Rightarrow> 'm thread_pool" where
  "count_received s = s\<lparr>tp_iRecvMsgQueueCount := tp_iRecvMsgQueueCount s + 1, tp_main := At_Call\<rparr>"

definition Call :: "int \<Rightarrow> 'm thread_pool \<Rightarrow> 'm thread_pool" where
  "Call now s =
     (let s' = s\<lparr>tp_main := Event_loop\<rparr>
      in if tp_iThreadNum s = tp_iRunningThreadNum s \<and> 10 < now - tp_iLastEmgTime s
         then s'\<lparr>tp_iLastEmgTime := now\<rparr> else s')"

definition StopAll_turn :: "'m thread_pool \<Rightarrow> 'm thread_pool" where
  "StopAll_turn s =
     (case tp_main s of
        Event_loop \<Rightarrow>
          (if tp_shutdown s then s\<lparr>tp_main := Stopped\<rparr> else s\<lparr>tp_shutdown := True, tp_main := At_notify_all\<rparr>)
      | At_notify_all \<Rightarrow> s\<lparr>tp_main := Joining 0\<rparr>
      | Joining i \<Rightarrow>
          if i < length (tp_threadVector s)
          then (if th_pc (tp_threadVector s ! i) = Thread_ended then s\<lparr>tp_main := Joining (Suc i)\<rparr> else s)
          else s\<lparr>tp_threadVector := [], tp_main := Stopped\<rparr>
      | _ \<Rightarrow> s)"

inductive pool_step :: "bool \<Rightarrow> 'm thread_pool \<Rightarrow> 'm thread_pool \<Rightarrow> bool" for spurious where
  create: "pool_step spurious s (Create_turn ok s)"
| wakeup: "spurious \<Longrightarrow> tp_main s = Waiting \<Longrightarrow> pool_step spurious s (s\<lparr>tp_main := At_predicate\<rparr>)"
| thread: "i < length (tp_threadVector s) \<Longrightarrow> pool_step spurious s (ThreadFunc_step returns i s)"
| receive: "tp_main s = Event_loop \<Longrightarrow> pool_step spurious s (receive m s)"
| counted: "tp_main s = At_count \<Longrightarrow> pool_step spurious s (count_received s)"
| called: "tp_main s = At_Call \<Longrightarrow> pool_step spurious s (Call now s)"
| stop: "tp_main s \<in> {Event_loop, At_notify_all} \<union> range Joining \<Longrightarrow> pool_step spurious s (StopAll_turn s)"

abbreviation pool_run :: "bool \<Rightarrow> 'm thread_pool \<Rightarrow> 'm thread_pool \<Rightarrow> bool" where
  "pool_run spurious \<equiv> (pool_step spurious)\<^sup>*\<^sup>*"

lemmas pool_more = run_more [where r = "pool_step spurious" for spurious]

section \<open>Counters and messages\<close>

lemma sum_list_upd:
  fixes f :: "'t \<Rightarrow> 'c :: comm_monoid_add"
  shows "i < length ts \<Longrightarrow> sum_list (map f (ts[i := t])) + f (ts ! i) = sum_list (map f ts) + f t"
proof (induction ts arbitrary: i)
  case (Cons x ts)
  show ?case
  proof (cases i)
    case (Suc j)
    then have "sum_list (map f (ts[j := t])) + f (ts ! j) = sum_list (map f ts) + f t"
      using Cons by simp
    then show ?thesis using Suc by (simp add: add.assoc)
  qed (simp add: ac_simps)
qed simp

fun in_hand :: "'m pool_thread \<Rightarrow> 'm multiset" where
  "in_hand t = (case th_pc t of At_uncount m \<Rightarrow> {#m#} | At_busy m \<Rightarrow> {#m#} | At_work m \<Rightarrow> {#m#} | _ \<Rightarrow> {#})"

fun uncounted :: "'m pool_thread \<Rightarrow> int" where
  "uncounted t = (case th_pc t of At_uncount m \<Rightarrow> 1 | _ \<Rightarrow> 0)"

fun occupied :: "'m pool_thread \<Rightarrow> int" where
  "occupied t = (case th_pc t of At_work m \<Rightarrow> 1 | At_free \<Rightarrow> 1 | _ \<Rightarrow> 0)"

declare in_hand.simps [simp del] uncounted.simps [simp del] occupied.simps [simp del]

lemmas at_place = in_hand.simps uncounted.simps occupied.simps

definition books_ok :: "'m thread_pool \<Rightarrow> bool" where
  "books_ok s \<longleftrightarrow>
     tp_received s = tp_taken s @ tp_MsgRecvQueue s \<and>
     mset (tp_taken s) = mset (tp_handled s) + sum_list (map in_hand (tp_threadVector s)) \<and>
     tp_iRecvMsgQueueCount s = int (length (tp_MsgRecvQueue s)) + sum_list (map uncounted (tp_threadVector s)) -
       (if tp_main s = At_count then 1 else 0) \<and>
     tp_iRunningThreadNum s = sum_list (map occupied (tp_threadVector s))"

fun before_stop :: "main_pc \<Rightarrow> bool" where
  "before_stop (Joining i) = False"
| "before_stop At_notify_all = False"
| "before_stop Stopped = False"
| "before_stop m = True"

fun all_made :: "main_pc \<Rightarrow> bool" where
  "all_made Creating = False"
| "all_made Create_failed = False"
| "all_made Stopped = False"
| "all_made m = True"

fun serving :: "main_pc \<Rightarrow> bool" where
  "serving Event_loop = True"
| "serving At_count = True"
| "serving At_Call = True"
| "serving m = False"

fun joined :: "main_pc \<Rightarrow> nat" where
  "joined (Joining i) = i"
| "joined m = 0"

definition life_ok :: "int \<Rightarrow> 'm thread_pool \<Rightarrow> bool" where
  "life_ok n s \<longleftrightarrow>
     tp_iThreadNum s = n \<and> (before_stop (tp_main s) \<longrightarrow> \<not> tp_shutdown s) \<and>
     (all_made (tp_main s) \<longrightarrow> int (length (tp_threadVector s)) = max 0 n) \<and>
     int (length (tp_threadVector s)) \<le> max 0 n \<and>
     (serving (tp_main s) \<longrightarrow> list_all th_ifrunning (tp_threadVector s)) \<and>
     joined (tp_main s) \<le> length (tp_threadVector s) \<and>
     (\<forall>j < joined (tp_main s). th_pc (tp_threadVector s ! j) = Thread_ended) \<and>
     (tp_main s = Stopped \<longrightarrow> tp_threadVector s = [])"

lemma books_new: "books_ok (new_thread_pool n)" and life_new: "life_ok n (new_thread_pool n)"
  by (simp_all add: books_ok_def life_ok_def new_thread_pool_def)

lemma Create_ok:
  "books_ok s \<Longrightarrow> books_ok (Create_turn ok s)"
  "life_ok n s \<Longrightarrow> life_ok n (Create_turn ok s)"
  unfolding books_ok_def life_ok_def Create_turn_def
  by (cases "tp_main s"; simp add: new_thread_def at_place) (cases "tp_main s"; auto)

lemma main_ok:
  "books_ok s \<Longrightarrow> tp_main s = Event_loop \<Longrightarrow> books_ok (receive m s)"
  "books_ok s \<Longrightarrow> tp_main s = At_count \<Longrightarrow> books_ok (count_received s)"
  "books_ok s \<Longrightarrow> tp_main s = At_Call \<Longrightarrow> books_ok (Call now s)"
  "life_ok n s \<Longrightarrow> tp_main s = Event_loop \<Longrightarrow> life_ok n (receive m s)"
  "life_ok n s \<Longrightarrow> tp_main s = At_count \<Longrightarrow> life_ok n (count_received s)"
  "life_ok n s \<Longrightarrow> tp_main s = At_Call \<Longrightarrow> life_ok n (Call now s)"
  by (auto simp: books_ok_def life_ok_def receive_def count_received_def Call_def Let_def)

lemma sum_ended:
  assumes "\<forall>j < length ts. th_pc (ts ! j) = Thread_ended"
  shows "sum_list (map in_hand ts) = {#}" and "sum_list (map uncounted ts) = 0" and "sum_list (map occupied ts) = 0"
  using assms by (induction ts) (auto simp: at_place nth_Cons' All_less_Suc2)

lemma StopAll_ok:
  assumes "books_ok s" and "life_ok n s"
  shows "books_ok (StopAll_turn s)" and "life_ok n (StopAll_turn s)"
proof -
  have ended: "\<forall>j < length (tp_threadVector s). th_pc (tp_threadVector s ! j) = Thread_ended"
    if "tp_main s = Joining i" "\<not> i < length (tp_threadVector s)" for i
    using assms(2) that by (auto simp: life_ok_def)
  show "books_ok (StopAll_turn s)"
    using assms(1) sum_ended [OF ended] by (cases "tp_main s") (auto simp: books_ok_def StopAll_turn_def)
  show "life_ok n (StopAll_turn s)"
    using assms(2) by (cases "tp_main s") (auto simp: life_ok_def StopAll_turn_def less_Suc_eq)
qed

lemma set_thread_sums:
  assumes "i < length ts"
  shows "sum_list (map in_hand (ts[i := t])) + in_hand (ts ! i) = sum_list (map in_hand ts) + in_hand t"
    and "sum_list (map uncounted (ts[i := t])) = sum_list (map uncounted ts) + uncounted t - uncounted (ts ! i)"
    and "sum_list (map occupied (ts[i := t])) = sum_list (map occupied ts) + occupied t - occupied (ts ! i)"
  using sum_list_upd [OF assms, of in_hand t] sum_list_upd [OF assms, of uncounted t]
    sum_list_upd [OF assms, of occupied t] by auto

lemma notify_same [simp]:
  "tp_threadVector (notify_init s) = tp_threadVector s"
  "tp_shutdown (notify_init s) = tp_shutdown s"
  "tp_iThreadNum (notify_init s) = tp_iThreadNum s"
  "tp_main (notify_init s) = (if tp_main s = Waiting then At_predicate else tp_main s)"
  by (auto simp: notify_init_def)

lemma ThreadFunc_books:
  assumes "books_ok s" and i: "i < length (tp_threadVector s)"
  shows "books_ok (ThreadFunc_step r i s)"
proof -
  have "books_ok (notify_init s)" using assms(1) by (auto simp: books_ok_def notify_init_def)
  moreover have "sum_list (map in_hand ((tp_threadVector s)[i := t])) = sum_list (map in_hand (tp_threadVector s))"
    if "in_hand t = in_hand (tp_threadVector s ! i)" for t
    using set_thread_sums(1) [OF i, of t] that by simp
  ultimately show ?thesis using assms set_thread_sums [OF i]
    by (cases "th_pc (tp_threadVector s ! i)")
      (auto simp: books_ok_def ThreadFunc_step_def set_thread_def Let_def at_place split: list.splits)
qed

lemma ThreadFunc_effect:
  assumes "i < length (tp_threadVector s)"
  shows "\<exists>t. tp_threadVector (ThreadFunc_step r i s) = (tp_threadVector s)[i := t] \<and>
      (th_ifrunning (tp_threadVector s ! i) \<longrightarrow> th_ifrunning t) \<and>
      (th_pc (tp_threadVector s ! i) = Thread_ended \<longrightarrow> th_pc t = Thread_ended) \<and>
      tp_shutdown (ThreadFunc_step r i s) = tp_shutdown s \<and> tp_iThreadNum (ThreadFunc_step r i s) = tp_iThreadNum s \<and>
      (tp_main (ThreadFunc_step r i s) = tp_main s \<or>
       tp_main s = Waiting \<and> tp_main (ThreadFunc_step r i s) = At_predicate)"
  using assms
  by (cases "th_pc (tp_threadVector s ! i)")
    (auto simp: ThreadFunc_step_def set_thread_def Let_def split: list.splits intro: exI [of _ "tp_threadVector s ! i"])

lemma ThreadFunc_life:
  assumes "life_ok n s" and i: "i < length (tp_threadVector s)"
  shows "life_ok n (ThreadFunc_step r i s)"
proof -
  obtain t where t: "tp_threadVector (ThreadFunc_step r i s) = (tp_threadVector s)[i := t]"
    and run: "th_ifrunning (tp_threadVector s ! i) \<Longrightarrow> th_ifrunning t"
    and ended: "th_pc (tp_threadVector s ! i) = Thread_ended \<Longrightarrow> th_pc t = Thread_ended"
    and eq: "tp_shutdown (ThreadFunc_step r i s) = tp_shutdown s" "tp_iThreadNum (ThreadFunc_step r i s) = tp_iThreadNum s"
    and main: "tp_main (ThreadFunc_step r i s) = tp_main s \<or>
       tp_main s = Waiting \<and> tp_main (ThreadFunc_step r i s) = At_predicate"
    using ThreadFunc_effect [OF i] by blast
  have a: "list_all th_ifrunning (tp_threadVector s) \<Longrightarrow> list_all th_ifrunning ((tp_threadVector s)[i := t])"
    using run i by (auto simp: list_all_length nth_list_update)
  have "\<forall>j < k. th_pc (tp_threadVector s ! j) = Thread_ended \<Longrightarrow>
      \<forall>j < k. th_pc ((tp_threadVector s)[i := t] ! j) = Thread_ended" for k
    using ended i by (auto simp: nth_list_update)
  then show ?thesis using main assms(1) a unfolding life_ok_def t eq by (elim disjE conjE) simp_all
qed

lemma pool_step_ok: "pool_step sp s s' \<Longrightarrow> books_ok s \<and> life_ok n s \<Longrightarrow> books_ok s' \<and> life_ok n s'"
proof (induction rule: pool_step.induct)
  case (wakeup s)
  then show ?case by (auto simp: books_ok_def life_ok_def)
qed (auto intro: Create_ok main_ok StopAll_ok ThreadFunc_books ThreadFunc_life)

interpretation books: invariant_system "pool_step sp" "\<lambda>s. books_ok s \<and> life_ok n s" for sp n
  by unfold_locales (rule pool_step_ok)

lemma pool_run_ok: "pool_run sp (new_thread_pool n) s \<Longrightarrow> books_ok s \<and> life_ok n s"
  using books.always books_new life_new by blast

section \<open>Runs\<close>

text \<open>
  C18: the receive queue loses nothing and hands out in order: what the threads have taken
  so far and what still waits are, in this order, exactly the messages received; each
  message taken was handled once or is in the hands of one thread; and the two counters
  are right up to the steps in between: the running threads are those that work, and the
  count of the queue is off by the threads that have not yet counted down and by the one
  message not yet counted.
\<close>

theorem pool_books:
  assumes "pool_run spurious (new_thread_pool n) s"
  shows "tp_received s = tp_taken s @ tp_MsgRecvQueue s \<and>
    mset (tp_taken s) = mset (tp_handled s) + sum_list (map in_hand (tp_threadVector s)) \<and>
    tp_iRecvMsgQueueCount s = int (length (tp_MsgRecvQueue s)) + sum_list (map uncounted (tp_threadVector s)) -
      (if tp_main s = At_count then 1 else 0) \<and>
    tp_iRunningThreadNum s = sum_list (map occupied (tp_threadVector s))"
  using pool_run_ok [OF assms] unfolding books_ok_def by blast

datatype 'm pool_act = Create_by bool | Thread_by nat | Receive_by 'm | Count_by | Call_by int | Stop_by

fun act_by :: "'m pool_act \<Rightarrow> 'm thread_pool \<Rightarrow> 'm thread_pool option" where
  "act_by (Create_by ok) s = Some (Create_turn ok s)"
| "act_by (Thread_by i) s = (if i < length (tp_threadVector s) then Some (ThreadFunc_step True i s) else None)"
| "act_by (Receive_by m) s = (if tp_main s = Event_loop then Some (receive m s) else None)"
| "act_by Count_by s = (if tp_main s = At_count then Some (count_received s) else None)"
| "act_by (Call_by now) s = (if tp_main s = At_Call then Some (Call now s) else None)"
| "act_by Stop_by s =
     (if tp_main s = Event_loop \<or> tp_main s = At_notify_all \<or> (\<exists>i. tp_main s = Joining i)
      then Some (StopAll_turn s) else None)"

lemma act_by_step: "act_by b s = Some s' \<Longrightarrow> pool_step sp s s'"
  by (cases b) (auto intro: pool_step.intros split: if_splits)

fun pool_acts :: "'m pool_act list \<Rightarrow> 'm thread_pool \<Rightarrow> 'm thread_pool option" where
  "pool_acts [] s = Some s"
| "pool_acts (b # bs) s = Option.bind (act_by b s) (pool_acts bs)"

lemma pool_acts_run: "pool_acts bs s = Some s' \<Longrightarrow> pool_run sp s0 s \<Longrightarrow> pool_run sp s0 s'"
proof (induction bs arbitrary: s)
  case (Cons b bs)
  then obtain s1 where "act_by b s = Some s1" "pool_acts bs s1 = Some s'" by (auto simp: bind_eq_Some_conv)
  with Cons show ?case using pool_more [OF Cons.prems(2) act_by_step] by blast
qed simp

text \<open>Two threads, of which the second handles the one message.\<close>

definition demo_acts :: "nat pool_act list" where
  "demo_acts = [Create_by True, Create_by True, Create_by True] @ replicate 3 (Thread_by 0) @ replicate 3 (Thread_by 1) @
     [Create_by True, Receive_by 7, Count_by, Call_by 0] @ replicate 5 (Thread_by 1)"

theorem pool_books_witness:
  "\<exists>s. pool_acts demo_acts (new_thread_pool 2) = Some s \<and> tp_taken s = [7] \<and> tp_handled s = [7] \<and>
     mset (tp_taken s) = mset (tp_handled s) + sum_list (map in_hand (tp_threadVector s))"
proof -
  have "\<exists>s. pool_acts demo_acts (new_thread_pool 2) = Some s \<and> tp_taken s = [7] \<and> tp_handled s = [7]"
    by (simp add: demo_acts_def new_thread_pool_def new_thread_def Create_turn_def ThreadFunc_step_def Let_def
      set_thread_def notify_init_def receive_def count_received_def Call_def numeral_eq_Suc)
  then obtain s where s: "pool_acts demo_acts (new_thread_pool 2) = Some s" "tp_taken s = [7]" "tp_handled s = [7]"
    by blast
  with pool_books [OF pool_acts_run [OF s(1) run_start]] show ?thesis by blast
qed

text \<open>
  C30: \<open>Create\<close> returns true only when all the threads asked for are there and each has
  reported, and \<open>StopAll\<close> returns only when no thread runs any more.
\<close>

theorem create_and_stop:
  assumes "pool_run spurious (new_thread_pool n) s"
  shows "(tp_main s \<in> {Event_loop, At_count, At_Call} \<longrightarrow>
      int (length (tp_threadVector s)) = max 0 n \<and> list_all th_ifrunning (tp_threadVector s)) \<and>
    (tp_main s = Stopped \<longrightarrow> tp_threadVector s = [] \<and> tp_iRunningThreadNum s = 0)"
  using pool_run_ok [OF assms] unfolding life_ok_def books_ok_def by auto

theorem create_and_stop_witness:
  "\<exists>s. pool_acts demo_acts (new_thread_pool 2) = Some s \<and> int (length (tp_threadVector s)) = 2"
proof -
  have "\<exists>s. pool_acts demo_acts (new_thread_pool 2) = Some s \<and> tp_main s = Event_loop"
    by (simp add: demo_acts_def new_thread_pool_def new_thread_def Create_turn_def ThreadFunc_step_def Let_def
      set_thread_def notify_init_def receive_def count_received_def Call_def numeral_eq_Suc)
  then obtain s where s: "pool_acts demo_acts (new_thread_pool 2) = Some s" "tp_main s = Event_loop" by blast
  with create_and_stop [OF pool_acts_run [OF s(1) run_start]] show ?thesis by auto
qed

definition reported :: "'m pool_thread" where
  "reported = \<lparr>th_ifrunning = True, th_pc = At_second_check\<rparr>"

definition some_reported :: "nat \<Rightarrow> nat \<Rightarrow> main_pc \<Rightarrow> 'm thread_pool" where
  "some_reported k n m = (new_thread_pool (int n))
     \<lparr>tp_threadVector := replicate k reported @ replicate (n - k) new_thread, tp_main := m\<rparr>"

lemma report_one:
  assumes "k < n"
  shows "ThreadFunc_step True k (ThreadFunc_step True k (ThreadFunc_step True k (some_reported k n Going_to_wait))) =
    some_reported (Suc k) n Going_to_wait"
proof -
  obtain d where n: "n = Suc (k + d)" using assms less_iff_Suc_add by auto
  show ?thesis unfolding n
    by (simp add: some_reported_def ThreadFunc_step_def Let_def set_thread_def new_thread_def reported_def
      nth_append list_update_append notify_init_def new_thread_pool_def replicate_app_Cons_same Suc_diff_le)
qed

lemma report_all: "k \<le> n \<Longrightarrow> pool_run False s0 (some_reported 0 n Going_to_wait) \<Longrightarrow>
    pool_run False s0 (some_reported k n Going_to_wait)"
proof (induction k)
  case (Suc k)
  let ?s = "some_reported k n Going_to_wait"
  have "k < length (tp_threadVector ?s)" using Suc.prems(1) by (simp add: some_reported_def)
  moreover have "length (tp_threadVector (ThreadFunc_step True i s)) = length (tp_threadVector s)"
    if "i < length (tp_threadVector s)" for i and s :: "'a thread_pool"
    using ThreadFunc_effect [OF that, of True] by auto
  ultimately have "pool_run False s0 (ThreadFunc_step True k (ThreadFunc_step True k (ThreadFunc_step True k ?s)))"
    using Suc by (auto intro!: pool_more [OF _ pool_step.thread])
  then show ?case using Suc.prems(1) by (simp add: report_one)
qed simp

lemma make_all: "k \<le> n \<Longrightarrow> pool_run False (new_thread_pool (int n))
    ((new_thread_pool (int n) :: 'm thread_pool)\<lparr>tp_threadVector := replicate k new_thread\<rparr>)"
proof (induction k)
  case 0
  then show ?case using run_start [of "pool_step False" "new_thread_pool (int n) :: 'm thread_pool"] by (simp add: new_thread_pool_def)
next
  case (Suc k)
  let ?s = "(new_thread_pool (int n) :: 'm thread_pool)\<lparr>tp_threadVector := replicate k new_thread\<rparr>"
  have "pool_run False (new_thread_pool (int n)) (Create_turn True ?s)"
    by (rule pool_more [OF _ pool_step.create]) (use Suc in simp)
  also have "Create_turn True ?s = (new_thread_pool (int n))\<lparr>tp_threadVector := replicate (Suc k) new_thread\<rparr>"
    using Suc.prems by (simp add: Create_turn_def new_thread_pool_def replicate_append_same)
  finally show ?case .
qed

definition asleep :: "'m thread_pool \<Rightarrow> bool" where
  "asleep s \<longleftrightarrow> tp_main s = Waiting \<and> (\<forall>t \<in> set (tp_threadVector s). th_ifrunning t \<and> th_pc t \<noteq> At_notify)"

lemma waiting_step:
  assumes "pool_step False s s'" and "asleep s"
  shows "asleep s'"
proof -
  have w: "tp_main s = Waiting" and ts: "\<forall>t \<in> set (tp_threadVector s). th_ifrunning t \<and> th_pc t \<noteq> At_notify"
    using assms(2) by (simp_all add: asleep_def)
  from assms(1) show ?thesis
  proof cases
    case (thread i)
    then have t: "th_ifrunning (tp_threadVector s ! i)" "th_pc (tp_threadVector s ! i) \<noteq> At_notify" using ts by auto
    then show ?thesis using thread w ts
      by (cases "th_pc (tp_threadVector s ! i)")
        (auto simp: asleep_def ThreadFunc_step_def Let_def set_thread_def dest!: set_update_subset_insert [THEN subsetD]
          split: list.splits)
  qed (use w ts in \<open>auto simp: asleep_def Create_turn_def\<close>)
qed

interpretation sleeping: invariant_system "pool_step False" asleep
  by unfold_locales (rule waiting_step)

text \<open>
  C39: \<open>Create\<close> can hang although every thread is running: a thread sets \<open>ifrunning\<close> and
  notifies without holding \<open>m_mutex\<close>, so the last notification can come after the
  predicate was found false and before the wait has begun. For every positive number of
  threads there is such a run, and unless the condition variable wakes up for no reason,
  nothing that can happen after it makes \<open>Create\<close> return.
\<close>

theorem create_can_hang:
  assumes "0 < n"
  shows "\<exists>s :: 'm thread_pool. pool_run False (new_thread_pool (int n)) s \<and> length (tp_threadVector s) = n \<and>
    list_all th_ifrunning (tp_threadVector s) \<and>
    (\<forall>s'. pool_run False s s' \<longrightarrow> tp_main s' = Waiting)"
proof -
  let ?s0 = "new_thread_pool (int n) :: 'm thread_pool"
  let ?s1 = "?s0\<lparr>tp_threadVector := replicate n new_thread\<rparr>"
  have "pool_run False ?s0 (Create_turn True (Create_turn True ?s1))"
    using make_all [of n n] by (auto intro!: pool_more [OF _ pool_step.create])
  also have "Create_turn True (Create_turn True ?s1) = some_reported 0 n Going_to_wait"
    using assms by (auto simp: Create_turn_def new_thread_pool_def some_reported_def new_thread_def list_all_length)
  finally have "pool_run False ?s0 (some_reported n n Going_to_wait)" using report_all [of n n] by simp
  then have run: "pool_run False ?s0 (Create_turn True (some_reported n n Going_to_wait))"
    by (rule pool_more) (rule pool_step.create)
  let ?s = "Create_turn True (some_reported n n Going_to_wait) :: 'm thread_pool"
  have s: "tp_main ?s = Waiting" "tp_threadVector ?s = replicate n reported"
    by (simp_all add: Create_turn_def some_reported_def)
  then have "asleep ?s" by (auto simp: asleep_def reported_def)
  then have "\<forall>s'. pool_run False ?s s' \<longrightarrow> tp_main s' = Waiting" using sleeping.always unfolding asleep_def by blast
  with run s show ?thesis by (intro exI [of _ ?s]) (auto simp: list_all_length reported_def)
qed

theorem create_can_hang_witness:
  "\<exists>s :: nat thread_pool. pool_run False (new_thread_pool 5) s \<and> length (tp_threadVector s) = 5 \<and>
     (\<forall>s'. pool_run False s s' \<longrightarrow> tp_main s' = Waiting)"
  using create_can_hang [of 5] by auto

text \<open>How many turns a thread still takes once the pool is to stop.\<close>

fun turns_to_end :: "'m thread_pc \<Rightarrow> nat" where
  "turns_to_end At_loop = 1"
| "turns_to_end At_second_check = 1"
| "turns_to_end At_notify = 2"
| "turns_to_end At_flag = 3"
| "turns_to_end At_free = 2"
| "turns_to_end (At_work m) = 3"
| "turns_to_end (At_busy m) = 4"
| "turns_to_end (At_uncount m) = 5"
| "turns_to_end At_dequeue = 6"
| "turns_to_end Thread_ended = 0"

text \<open>
  A run of the pool in which thread \<open>i\<close> takes \<open>k\<close> turns that are not spent inside a call of
  \<open>threadRecvProcFunc\<close> that does not return; everything else may happen in between.
\<close>

inductive thread_run :: "bool \<Rightarrow> nat \<Rightarrow> nat \<Rightarrow> 'm thread_pool \<Rightarrow> 'm thread_pool \<Rightarrow> bool" for spurious i where
  no_turns: "thread_run spurious i 0 s s"
| own_turn: "thread_run spurious i k s s1 \<Longrightarrow> i < length (tp_threadVector s1) \<Longrightarrow>
    thread_run spurious i (Suc k) s (ThreadFunc_step True i s1)"
| other_step: "thread_run spurious i k s s1 \<Longrightarrow> pool_step spurious s1 s2 \<Longrightarrow> thread_run spurious i k s s2"

definition left_of :: "nat \<Rightarrow> 'm thread_pool \<Rightarrow> nat" where
  "left_of i s = (if i < length (tp_threadVector s) then turns_to_end (th_pc (tp_threadVector s ! i)) else 0)"

lemma left_of_bound: "left_of i s \<le> 6"
  unfolding left_of_def by (cases "th_pc (tp_threadVector s ! i)") auto

lemma own_nearer:
  assumes "tp_shutdown s" and "i < length (tp_threadVector s)" and "th_pc (tp_threadVector s ! i) \<noteq> Thread_ended"
  shows "left_of i (ThreadFunc_step True i s) < left_of i s"
  using assms by (cases "th_pc (tp_threadVector s ! i)")
    (auto simp: left_of_def ThreadFunc_step_def Let_def set_thread_def split: list.splits)

lemma thread_not_further:
  assumes "tp_shutdown s" and "j < length (tp_threadVector s)"
  shows "left_of i (ThreadFunc_step r j s) \<le> left_of i s"
  using assms by (cases "th_pc (tp_threadVector s ! j)"; cases "i = j")
    (auto simp: left_of_def ThreadFunc_step_def Let_def set_thread_def split: list.splits)

lemma pool_not_further:
  assumes "pool_step sp s s'" and "life_ok n s" and "tp_shutdown s"
  shows "left_of i s' \<le> left_of i s \<and> tp_shutdown s'"
proof -
  have m: "\<not> before_stop (tp_main s)" using assms(2,3) by (auto simp: life_ok_def)
  from assms(1) show ?thesis
  proof cases
    case (create ok)
    then show ?thesis using m assms(3) by (cases "tp_main s") (auto simp: Create_turn_def)
  next
    case (thread j r)
    then show ?thesis using thread_not_further [OF assms(3), of j i r] ThreadFunc_effect [of j s r] assms(3) by auto
  next
    case stop
    then show ?thesis using assms(3) by (cases "tp_main s") (auto simp: StopAll_turn_def left_of_def)
  qed (use m in auto)
qed

lemma thread_run_pool: "thread_run sp i k s s' \<Longrightarrow> pool_run sp s s'"
  by (induction rule: thread_run.induct) (auto intro: run_start pool_more pool_step.thread)

lemma thread_run_left:
  assumes "thread_run sp i k s s'" and "life_ok n s \<and> books_ok s" and "tp_shutdown s"
  shows "tp_shutdown s' \<and> (left_of i s' = 0 \<or> left_of i s' + k \<le> 6)"
  using assms
proof (induction rule: thread_run.induct)
  case (no_turns s)
  then show ?case using left_of_bound [of i s] by simp
next
  case (own_turn k s s1)
  then have sh: "tp_shutdown s1" and l: "left_of i s1 = 0 \<or> left_of i s1 + k \<le> 6" by simp_all
  have "tp_shutdown (ThreadFunc_step True i s1)" using ThreadFunc_effect [OF own_turn.hyps(2), of True] sh by auto
  moreover have "left_of i (ThreadFunc_step True i s1) = 0 \<or> left_of i (ThreadFunc_step True i s1) + Suc k \<le> 6"
  proof (cases "th_pc (tp_threadVector s1 ! i) = Thread_ended")
    case True
    then have "left_of i s1 = 0" by (simp add: left_of_def)
    then show ?thesis using thread_not_further [OF sh own_turn.hyps(2), of i True] by simp
  next
    case False
    then show ?thesis using own_nearer [OF sh own_turn.hyps(2)] l by auto
  qed
  ultimately show ?case by simp
next
  case (other_step k s s1 s2)
  have "life_ok n s1" using books.always [OF thread_run_pool [OF other_step.hyps(1)]] other_step.prems(1) by blast
  with pool_not_further [OF other_step.hyps(2) this, of i] other_step show ?case by auto
qed

text \<open>
  C31: Once \<open>StopAll\<close> has raised \<open>m_shutdown\<close> it stays up, and in every run of the pool a
  thread has ended, or was joined and removed, after six turns of its own that are not spent inside a
  call of \<open>threadRecvProcFunc\<close> that does not return: with at most the message in hand handled, and
  whatever the other threads do. A thread whose call never returns, as on a line that is not complete,
  never ends, however many turns it takes.
\<close>

theorem threads_end:
  assumes "pool_run spurious (new_thread_pool n) s" and "tp_shutdown s" and "thread_run spurious i k s s'"
  shows "tp_shutdown s' \<and>
    (6 \<le> k \<and> i < length (tp_threadVector s') \<longrightarrow> th_pc (tp_threadVector s' ! i) = Thread_ended) \<and>
    (i < length (tp_threadVector s) \<and> th_pc (tp_threadVector s ! i) = At_work m \<longrightarrow>
      th_pc (tp_threadVector ((ThreadFunc_step False i ^^ j) s) ! i) = At_work m)"
proof -
  have "life_ok n s \<and> books_ok s" using pool_run_ok [OF assms(1)] by blast
  note l = thread_run_left [OF assms(3) this assms(2)]
  have z: "turns_to_end pc = 0 \<Longrightarrow> pc = Thread_ended" for pc :: "'a thread_pc" by (cases pc) simp_all
  have "th_pc (tp_threadVector s' ! i) = Thread_ended" if "6 \<le> k" "i < length (tp_threadVector s')"
    using l that by (intro z) (auto simp: left_of_def)
  moreover have "(ThreadFunc_step False i ^^ j) s = s" if "th_pc (tp_threadVector s ! i) = At_work m"
  proof -
    have "ThreadFunc_step False i s = s" using that by (simp add: ThreadFunc_step_def Let_def)
    then show ?thesis by (induction j) simp_all
  qed
  ultimately show ?thesis using l by auto
qed

text \<open>One thread that has reported, a pool that is being stopped, and the turns of the thread.\<close>

definition stop_acts :: "nat pool_act list" where
  "stop_acts = [Create_by True, Create_by True] @ replicate 3 (Thread_by 0) @ [Create_by True, Stop_by]"

theorem threads_end_witness:
  "\<exists>s. pool_acts stop_acts (new_thread_pool 1) = Some s \<and> tp_shutdown s \<and>
     th_pc (tp_threadVector ((ThreadFunc_step True 0 ^^ 6) s) ! 0) = Thread_ended"
proof -
  have "\<exists>s. pool_acts stop_acts (new_thread_pool 1) = Some s \<and> tp_shutdown s \<and> length (tp_threadVector s) = 1"
    by (simp add: stop_acts_def new_thread_pool_def new_thread_def Create_turn_def ThreadFunc_step_def Let_def
      set_thread_def notify_init_def StopAll_turn_def numeral_eq_Suc)
  then obtain s where s: "pool_acts stop_acts (new_thread_pool 1) = Some s" "tp_shutdown s" "length (tp_threadVector s) = 1" by blast
  have run: "thread_run False 0 k s ((ThreadFunc_step True 0 ^^ k) s) \<and> length (tp_threadVector ((ThreadFunc_step True 0 ^^ k) s)) = 1" for k
  proof (induction k)
    case 0
    then show ?case using s(3) by (simp add: thread_run.no_turns)
  next
    case (Suc k)
    let ?s = "(ThreadFunc_step True 0 ^^ k) s"
    have "0 < length (tp_threadVector ?s)" using Suc by simp
    from ThreadFunc_effect [OF this, of True] thread_run.own_turn [OF conjunct1 [OF Suc] this] Suc show ?case by auto
  qed
  have "th_pc (tp_threadVector ((ThreadFunc_step True 0 ^^ 6) s) ! 0) = Thread_ended"
    using threads_end [OF pool_acts_run [OF s(1) run_start] s(2) conjunct1 [OF run [of 6]]] run [of 6] by simp
  with s show ?thesis by blast
qed

text \<open>
  A thread without work does not sleep: nobody ever waits on \<open>m_cv\<close>. With an empty
  queue four turns bring a thread that has reported back to the place and the whole pool
  back to the state it was in, so it runs in circles at full speed, and the notification
  in \<open>Call\<close> has nobody to wake.
\<close>

theorem idle_thread_spins:
  assumes "i < length (tp_threadVector s)" and "tp_threadVector s ! i = \<lparr>th_ifrunning = True, th_pc = At_loop\<rparr>"
    and "tp_MsgRecvQueue s = []" and "\<not> tp_shutdown s"
  shows "(ThreadFunc_step True i ^^ 4) s = s"
  using assms list_update_id [of "tp_threadVector s" i]
  by (simp add: numeral_eq_Suc ThreadFunc_step_def Let_def set_thread_def)

theorem idle_thread_spins_witness:
  "(ThreadFunc_step True 0 ^^ 4) ((new_thread_pool 1 :: nat thread_pool)
     \<lparr>tp_threadVector := [\<lparr>th_ifrunning = True, th_pc = At_loop\<rparr>]\<rparr>) =
   (new_thread_pool 1)\<lparr>tp_threadVector := [\<lparr>th_ifrunning = True, th_pc = At_loop\<rparr>]\<rparr>"
  by (rule idle_thread_spins) (simp_all add: new_thread_pool_def)

end
