(* ===== verification/Process.thy ===== *)
theory Process
  imports Conf
begin

text \<open>
  The master and its workers: the signals of \<open>src/server/my_signal.cpp\<close> and the processes of
  \<open>src/server/my_process_cycle.cpp\<close>. A process is a \<open>server\<close> state, the static fields of the
  class that a \<open>fork\<close> copies, and the children it has (\<open>kids\<close>). What the kernel decides is an
  argument: the result of each \<open>fork\<close>, whether \<open>sigaction\<close> succeeds, the signals that come and
  the children that end while the master is suspended, and the calls of a worker's start that
  can fail. \<open>waitpid(-1, ..., WNOHANG)\<close> hands out the ended children in their order. The table
  of workers is a field of a static object, so its places are 0 before they are written. A
  child goes on in the code that forked it after its life as a worker, as in the code. Log
  lines are left out but for those of \<open>ngx_process_get_status\<close>.
\<close>

section \<open>Signals\<close>

datatype signal = SIGHUP | SIGINT | SIGTERM | SIGCHLD | SIGQUIT | SIGIO | SIGSYS

datatype disposition = Default_action | Ignored | Handler

text \<open>The table \<open>signals\<close>, up to its terminator: a null handler stands for \<open>SIG_IGN\<close>.\<close>

definition signals :: "(signal \<times> string \<times> bool) list" where
  "signals = [(SIGHUP, ''SIGHUP'', True), (SIGINT, ''SIGINT'', True), (SIGTERM, ''SIGTERM'', True),
     (SIGCHLD, ''SIGCHLD'', True), (SIGQUIT, ''SIGQUIT'', True), (SIGIO, ''SIGIO'', True), (SIGSYS, ''SIGSYS'', False)]"

fun init_signals_loop ::
  "(signal \<Rightarrow> bool) \<Rightarrow> (signal \<times> string \<times> bool) list \<Rightarrow> (signal \<Rightarrow> disposition) \<Rightarrow> int \<times> (signal \<Rightarrow> disposition)" where
  "init_signals_loop sigaction_ok [] d = (0, d)"
| "init_signals_loop sigaction_ok ((g, name, handler) # sigs) d =
     (if sigaction_ok g
      then init_signals_loop sigaction_ok sigs (d(g := (if handler then Handler else Ignored)))
      else (-1, d))"

definition ngx_init_signals :: "(signal \<Rightarrow> bool) \<Rightarrow> (signal \<Rightarrow> disposition) \<Rightarrow> int \<times> (signal \<Rightarrow> disposition)" where
  "ngx_init_signals sigaction_ok d = init_signals_loop sigaction_ok signals d"

section \<open>Children\<close>

datatype exit_status = Exited nat | Signaled nat

fun WIFSIGNALED :: "exit_status \<Rightarrow> bool" where
  "WIFSIGNALED (Exited c) = False"
| "WIFSIGNALED (Signaled g) = True"

fun WEXITSTATUS :: "exit_status \<Rightarrow> nat" where
  "WEXITSTATUS (Exited c) = c mod 256"
| "WEXITSTATUS (Signaled g) = 0"

fun WTERMSIG :: "exit_status \<Rightarrow> nat" where
  "WTERMSIG (Exited c) = 0"
| "WTERMSIG (Signaled g) = g"

text \<open>The children of a process: those that run and those that ended and were not waited for.\<close>

record kids =
  kd_running :: "int list"
  kd_ended :: "(int \<times> exit_status) list"

definition no_kids :: kids where
  "no_kids = \<lparr>kd_running = [], kd_ended = []\<rparr>"

datatype wait_outcome = Waited int exit_status | Nobody_ended | No_child

definition waitpid :: "kids \<Rightarrow> wait_outcome \<times> kids" where
  "waitpid k =
     (case kd_ended k of
        (p, st) # es \<Rightarrow> (Waited p st, k\<lparr>kd_ended := es\<rparr>)
      | [] \<Rightarrow> (if kd_running k = [] then No_child else Nobody_ended, k))"

text \<open>What \<open>ngx_process_get_status\<close> writes to the log.\<close>

datatype status_line = Wait_failed_line | Killed_line int nat | Exited_line int nat

function get_status_loop :: "bool \<Rightarrow> kids \<Rightarrow> status_line list \<times> kids" where
  "get_status_loop one k =
     (case waitpid k of
        (Nobody_ended, k') \<Rightarrow> ([], k')
      | (No_child, k') \<Rightarrow> (if one then [] else [Wait_failed_line], k')
      | (Waited p st, k') \<Rightarrow>
          (let (ls, k2) = get_status_loop True k'
           in ((if WTERMSIG st \<noteq> 0 then Killed_line p (WTERMSIG st) else Exited_line p (WEXITSTATUS st)) # ls, k2)))"
  by pat_completeness auto
termination
  by (relation "measure (\<lambda>(one, k). length (kd_ended k))")
    (auto simp: waitpid_def split: list.splits if_splits)

definition ngx_process_get_status :: "kids \<Rightarrow> status_line list \<times> kids" where
  "ngx_process_get_status k = get_status_loop False k"

section \<open>The state of a process of the server\<close>

datatype role = NGX_PROCESS_MASTER | NGX_PROCESS_WORKER

record server =
  sv_pid :: int
  sv_parent :: int
  sv_process :: role
  sv_stopEvent :: bool
  sv_reap :: bool
  sv_processes :: "int list"
  sv_last_process :: nat

definition NGX_MAX_PROCESSES :: nat where "NGX_MAX_PROCESSES = 1024"

definition new_server :: "int \<Rightarrow> int \<Rightarrow> server" where
  "new_server pid ppid = \<lparr>sv_pid = pid, sv_parent = ppid, sv_process = NGX_PROCESS_MASTER, sv_stopEvent = False,
     sv_reap = False, sv_processes = replicate NGX_MAX_PROCESSES 0, sv_last_process = 0\<rparr>"

definition ngx_signal_handler :: "signal \<Rightarrow> server \<times> kids \<Rightarrow> server \<times> kids" where
  "ngx_signal_handler g = (\<lambda>(s, k).
     (let s' =
        (case sv_process s of
           NGX_PROCESS_MASTER \<Rightarrow>
             (case g of
                SIGTERM \<Rightarrow> s\<lparr>sv_stopEvent := True\<rparr>
              | SIGQUIT \<Rightarrow> s\<lparr>sv_stopEvent := True\<rparr>
              | SIGCHLD \<Rightarrow> s\<lparr>sv_reap := True\<rparr>
              | _ \<Rightarrow> s)
         | NGX_PROCESS_WORKER \<Rightarrow>
             (if g = SIGTERM \<or> g = SIGQUIT then s\<lparr>sv_stopEvent := True\<rparr> else s))
      in (s', if g = SIGCHLD then snd (ngx_process_get_status k) else k)))"

section \<open>Workers\<close>

text \<open>What a worker meets when it starts: the results of the calls that can fail.\<close>

record worker_env =
  we_signals_ok :: bool
  we_Initialize_ok :: bool
  we_pool_ok :: bool
  we_subproc_ok :: bool

datatype worker_end = Worker_exit int | Worker_returns server

definition ngx_worker_process_init :: "worker_env \<Rightarrow> server \<Rightarrow> worker_end" where
  "ngx_worker_process_init e s =
     (if \<not> we_pool_ok e then Worker_exit (-2)
      else if \<not> we_subproc_ok e then Worker_exit (-2)
      else Worker_returns s)"

text \<open>The event loop ends when a signal has set \<open>g_stopEvent\<close>.\<close>

definition ngx_worker_process_cycle :: "worker_env \<Rightarrow> server \<Rightarrow> worker_end" where
  "ngx_worker_process_cycle e s =
     (if \<not> we_signals_ok e \<or> \<not> we_Initialize_ok e then Worker_exit (-1)
      else (case ngx_worker_process_init e (s\<lparr>sv_process := NGX_PROCESS_WORKER\<rparr>) of
              Worker_exit c \<Rightarrow> Worker_exit c
            | Worker_returns s' \<Rightarrow> Worker_returns (s'\<lparr>sv_stopEvent := True\<rparr>)))"

datatype fork_result = Fork_failed | Fork_parent int | Fork_child int

text \<open>
  In the parent and in the child \<open>ngx_spawn_process\<close> returns, in the child after the whole
  life of the worker; a store behind the array is undefined.
\<close>

datatype 'a flow = Goes_on 'a | Exit int | Out_of_bounds

definition store_process :: "nat \<Rightarrow> int \<Rightarrow> server \<Rightarrow> server flow" where
  "store_process i p s =
     (if i < length (sv_processes s) then Goes_on (s\<lparr>sv_processes := (sv_processes s)[i := p]\<rparr>) else Out_of_bounds)"

definition ngx_spawn_process :: "worker_env \<Rightarrow> nat \<Rightarrow> fork_result \<Rightarrow> server \<Rightarrow> (int \<times> server) flow" where
  "ngx_spawn_process e inum f s =
     (case f of
        Fork_failed \<Rightarrow> Goes_on (-1, s)
      | Fork_child p \<Rightarrow>
          (case ngx_worker_process_cycle e (s\<lparr>sv_parent := sv_pid s, sv_pid := p\<rparr>) of
             Worker_exit c \<Rightarrow> Exit c
           | Worker_returns s' \<Rightarrow> Goes_on (0, s'))
      | Fork_parent p \<Rightarrow>
          (case store_process inum p s of
             Goes_on s' \<Rightarrow> Goes_on (p, s'\<lparr>sv_last_process := sv_last_process s' + 1\<rparr>)
           | Exit c \<Rightarrow> Exit c
           | Out_of_bounds \<Rightarrow> Out_of_bounds))"

fun start_loop :: "worker_env \<Rightarrow> nat \<Rightarrow> fork_result list \<Rightarrow> server \<Rightarrow> server flow" where
  "start_loop e i [] s = Goes_on s"
| "start_loop e i (f # fs) s =
     (if sv_process s = NGX_PROCESS_MASTER
      then (case ngx_spawn_process e i f s of
              Goes_on (r, s') \<Rightarrow> start_loop e (Suc i) fs s'
            | Exit c \<Rightarrow> Exit c
            | Out_of_bounds \<Rightarrow> Out_of_bounds)
      else Goes_on s)"

text \<open>One result of \<open>fork\<close> for each of the \<open>processnums\<close> workers.\<close>

definition ngx_start_worker_processes :: "worker_env \<Rightarrow> fork_result list \<Rightarrow> server \<Rightarrow> server flow" where
  "ngx_start_worker_processes e fs s = start_loop e 0 fs s"

text \<open>The processes \<open>kill\<close> is called for; 0 is the caller's whole process group.\<close>

definition ngx_signal_worker_processes :: "server \<Rightarrow> int list flow" where
  "ngx_signal_worker_processes s =
     (if sv_last_process s \<le> length (sv_processes s)
      then Goes_on (filter (\<lambda>p. p \<noteq> -1) (take (sv_last_process s) (sv_processes s)))
      else Out_of_bounds)"

text \<open>The place of a worker, or \<open>ngx_last_process\<close>.\<close>

definition process_index :: "int \<Rightarrow> server \<Rightarrow> nat flow" where
  "process_index p s =
     (let i = length (takeWhile (\<lambda>q. q \<noteq> p) (take (sv_last_process s) (sv_processes s)))
      in if i = length (sv_processes s) \<and> i < sv_last_process s then Out_of_bounds else Goes_on i)"

definition crashed :: "exit_status \<Rightarrow> bool" where
  "crashed st \<longleftrightarrow> WIFSIGNALED st \<or> WEXITSTATUS st \<noteq> 0"

text \<open>
  The child's end and what it does with the worker's place. In the parent the new worker is
  one more child; a new worker has no children. \<open>fork\<close> is given by the process that it is to
  replace.
\<close>

definition reap_one ::
  "worker_env \<Rightarrow> (int \<Rightarrow> fork_result) \<Rightarrow> int \<Rightarrow> exit_status \<Rightarrow> server \<times> kids \<Rightarrow> (server \<times> kids) flow" where
  "reap_one e fk p st = (\<lambda>(s, k).
     (case process_index p s of
        Goes_on i \<Rightarrow>
          if crashed st
          then (case ngx_spawn_process e i (fk p) s of
                  Goes_on (r, s') \<Rightarrow>
                    (case store_process i r s' of
                       Goes_on s2 \<Rightarrow>
                         Goes_on (s2, (case fk p of
                            Fork_parent q \<Rightarrow> k\<lparr>kd_running := q # kd_running k\<rparr>
                          | Fork_child c \<Rightarrow> no_kids
                          | Fork_failed \<Rightarrow> k))
                     | Exit c \<Rightarrow> Exit c
                     | Out_of_bounds \<Rightarrow> Out_of_bounds)
                | Exit c \<Rightarrow> Exit c
                | Out_of_bounds \<Rightarrow> Out_of_bounds)
          else (case store_process i (-1) s of
                  Goes_on s2 \<Rightarrow> Goes_on (s2, k)
                | Exit c \<Rightarrow> Exit c
                | Out_of_bounds \<Rightarrow> Out_of_bounds)
      | Exit c \<Rightarrow> Exit c
      | Out_of_bounds \<Rightarrow> Out_of_bounds))"

lemma reap_one_ended: "reap_one e fk p st (s, k) = Goes_on (s', k') \<Longrightarrow> length (kd_ended k') \<le> length (kd_ended k)"
  by (auto simp: reap_one_def no_kids_def split: flow.splits if_splits prod.splits fork_result.splits)

function reap_loop :: "worker_env \<Rightarrow> (int \<Rightarrow> fork_result) \<Rightarrow> server \<times> kids \<Rightarrow> (server \<times> kids) flow" where
  "reap_loop e fk (s, k) =
     (case waitpid k of
        (Waited p st, k') \<Rightarrow>
          (case reap_one e fk p st (s, k') of
             Goes_on x \<Rightarrow> reap_loop e fk x
           | Exit c \<Rightarrow> Exit c
           | Out_of_bounds \<Rightarrow> Out_of_bounds)
      | (_, k') \<Rightarrow> Goes_on (s, k'))"
  by pat_completeness auto
termination
  by (relation "measure (\<lambda>(e, fk, s, k). length (kd_ended k))")
    (auto simp: waitpid_def less_Suc_eq_le split: list.splits if_splits dest!: reap_one_ended)

declare reap_loop.simps [simp del] get_status_loop.simps [simp del]

definition ngx_reap_worker_processes :: "worker_env \<Rightarrow> (int \<Rightarrow> fork_result) \<Rightarrow> server \<times> kids \<Rightarrow> (server \<times> kids) flow" where
  "ngx_reap_worker_processes e fk x = reap_loop e fk x"

section \<open>The master's loop\<close>

datatype master_end = Suspends "server \<times> kids" | Leaves "int list" "server \<times> kids"

text \<open>
  One round of the loop: the signals that come while it is suspended, the children that
  end after their handlers have run, and what the loop does then.
\<close>

definition master_turn ::
  "worker_env \<Rightarrow> (int \<Rightarrow> fork_result) \<Rightarrow> signal list \<Rightarrow> (int \<times> exit_status) list \<Rightarrow> server \<times> kids \<Rightarrow> master_end flow" where
  "master_turn e fk gs late x =
     (let (s, k) = fold ngx_signal_handler gs x;
          k1 = k\<lparr>kd_running := filter (\<lambda>p. p \<notin> fst ` set late) (kd_running k), kd_ended := kd_ended k @ late\<rparr>
      in case (if sv_reap s
               then (case ngx_reap_worker_processes e fk (s, k1) of
                       Goes_on (s', k') \<Rightarrow> Goes_on (s'\<lparr>sv_reap := False\<rparr>, k')
                     | Exit c \<Rightarrow> Exit c
                     | Out_of_bounds \<Rightarrow> Out_of_bounds)
               else Goes_on (s, k1)) of
           Goes_on (s2, k2) \<Rightarrow>
             if sv_stopEvent s2
             then (case ngx_signal_worker_processes s2 of
                     Goes_on kills \<Rightarrow>
                       (case ngx_reap_worker_processes e fk (s2, k2) of
                          Goes_on y \<Rightarrow> Goes_on (Leaves kills y)
                        | Exit c \<Rightarrow> Exit c
                        | Out_of_bounds \<Rightarrow> Out_of_bounds)
                   | Exit c \<Rightarrow> Exit c
                   | Out_of_bounds \<Rightarrow> Out_of_bounds)
             else Goes_on (Suspends (s2, k2))
         | Exit c \<Rightarrow> Exit c
         | Out_of_bounds \<Rightarrow> Out_of_bounds)"

fun master_loop ::
  "worker_env \<Rightarrow> (int \<Rightarrow> fork_result) \<Rightarrow> (signal list \<times> (int \<times> exit_status) list) list \<Rightarrow> server \<times> kids \<Rightarrow> master_end flow" where
  "master_loop e fk [] x = Goes_on (Suspends x)"
| "master_loop e fk ((gs, late) # ws) x =
     (case master_turn e fk gs late x of
        Goes_on (Suspends y) \<Rightarrow> master_loop e fk ws y
      | r \<Rightarrow> r)"

text \<open>
  \<open>ngx_master_process_cycle\<close> with the value it returns; the children are those that the
  start has made.
\<close>

definition started_pids :: "fork_result list \<Rightarrow> int list" where
  "started_pids fs = List.map_filter (\<lambda>f. case f of Fork_parent p \<Rightarrow> Some p | _ \<Rightarrow> None) fs"

datatype cycle_end = Returns int server | Suspended "server \<times> kids"

definition ngx_master_process_cycle ::
  "bool \<Rightarrow> conf_item list \<Rightarrow> worker_env \<Rightarrow> (nat \<Rightarrow> fork_result) \<Rightarrow> (int \<Rightarrow> fork_result) \<Rightarrow>
     (signal list \<times> (int \<times> exit_status) list) list \<Rightarrow> server \<Rightarrow> cycle_end flow" where
  "ngx_master_process_cycle signals_ok conf e forks fk ws s =
     (if \<not> signals_ok then Goes_on (Returns 1 s)
      else let fs = map forks [0 ..< nat (GetIntDefault ''WorkerProcesses'' 1 conf)]
      in (case ngx_start_worker_processes e fs s of
              Goes_on s1 \<Rightarrow>
                if sv_process s1 = NGX_PROCESS_MASTER
                then (case master_loop e fk ws (s1, no_kids\<lparr>kd_running := started_pids fs\<rparr>) of
                        Goes_on (Leaves kills (s2, k2)) \<Rightarrow> Goes_on (Returns 0 s2)
                      | Goes_on (Suspends y) \<Rightarrow> Goes_on (Suspended y)
                      | Exit c \<Rightarrow> Exit c
                      | Out_of_bounds \<Rightarrow> Out_of_bounds)
                else Goes_on (Returns 0 s1)
            | Exit c \<Rightarrow> Exit c
            | Out_of_bounds \<Rightarrow> Out_of_bounds))"

section \<open>Properties\<close>

definition demo_env :: worker_env where
  "demo_env = \<lparr>we_signals_ok = True, we_Initialize_ok = True, we_pool_ok = True, we_subproc_ok = True\<rparr>"

lemma get_status_reaps: "snd (get_status_loop one k) = k\<lparr>kd_ended := []\<rparr>"
proof (induction one k rule: get_status_loop.induct)
  case (1 one k)
  show ?case
  proof (cases "kd_ended k")
    case Nil
    then show ?thesis by (subst get_status_loop.simps) (simp add: waitpid_def)
  next
    case (Cons e es)
    obtain p st where e: "e = (p, st)" by (cases e)
    have "snd (get_status_loop True (k\<lparr>kd_ended := es\<rparr>)) = k\<lparr>kd_ended := []\<rparr>"
      using "1.IH" [of "Waited p st" "k\<lparr>kd_ended := es\<rparr>" p st] Cons e by (simp add: waitpid_def)
    then show ?thesis using Cons e by (subst get_status_loop.simps) (simp add: waitpid_def case_prod_unfold Let_def)
  qed
qed

lemma get_status_lines: "length (fst (get_status_loop True k)) = length (kd_ended k)"
proof (induction True k rule: get_status_loop.induct)
  case (1 k)
  show ?case
  proof (cases "kd_ended k")
    case Nil
    then show ?thesis by (subst get_status_loop.simps) (simp add: waitpid_def)
  next
    case (Cons e es)
    obtain p st where e: "e = (p, st)" by (cases e)
    have "length (fst (get_status_loop True (k\<lparr>kd_ended := es\<rparr>))) = length es"
      using "1.hyps" [of "Waited p st" "k\<lparr>kd_ended := es\<rparr>" p st] Cons e by (simp add: waitpid_def)
    then show ?thesis using Cons e by (subst get_status_loop.simps) (simp add: waitpid_def case_prod_unfold Let_def)
  qed
qed

lemma handler_simps [simp]:
  "sv_processes (fst (ngx_signal_handler g (s, k))) = sv_processes s"
  "sv_last_process (fst (ngx_signal_handler g (s, k))) = sv_last_process s"
  "sv_process (fst (ngx_signal_handler g (s, k))) = sv_process s"
  "sv_stopEvent (fst (ngx_signal_handler g (s, k))) = (sv_stopEvent s \<or> g = SIGTERM \<or> g = SIGQUIT)"
  "snd (ngx_signal_handler g (s, k)) = (if g = SIGCHLD then k\<lparr>kd_ended := []\<rparr> else k)"
  by (auto simp: ngx_signal_handler_def ngx_process_get_status_def get_status_reaps Let_def
    split: role.splits signal.splits)

text \<open>
  Which signals end the server. After \<open>ngx_init_signals\<close> every signal of the table but
  \<open>SIGSYS\<close> is caught, and in the master as in a worker only \<open>SIGTERM\<close> and \<open>SIGQUIT\<close> set
  \<open>g_stopEvent\<close>; \<open>SIGINT\<close>, \<open>SIGHUP\<close> and \<open>SIGIO\<close> change nothing, so that neither an interrupt
  from the terminal nor its hang-up ends the server.
\<close>

theorem stop_signals:
  "snd (ngx_init_signals (\<lambda>_. True) d) g = (if g = SIGSYS then Ignored else Handler) \<and>
   sv_stopEvent (fst (ngx_signal_handler g (s, k))) = (sv_stopEvent s \<or> g = SIGTERM \<or> g = SIGQUIT) \<and>
   ngx_signal_handler SIGINT (s, k) = (s, k) \<and> ngx_signal_handler SIGHUP (s, k) = (s, k) \<and>
   ngx_signal_handler SIGIO (s, k) = (s, k)"
  by (cases g; cases "sv_process s") (simp_all add: ngx_init_signals_def signals_def ngx_signal_handler_def)

lemma handlers_fold:
  "\<forall>g \<in> set gs. g \<noteq> SIGTERM \<and> g \<noteq> SIGQUIT \<Longrightarrow>
     fold ngx_signal_handler gs (s, k) =
       (s\<lparr>sv_reap := (sv_reap s \<or> sv_process s = NGX_PROCESS_MASTER \<and> SIGCHLD \<in> set gs)\<rparr>,
        if SIGCHLD \<in> set gs then k\<lparr>kd_ended := []\<rparr> else k)"
proof (induction gs arbitrary: s k)
  case (Cons g gs)
  have "ngx_signal_handler g (s, k) =
      (s\<lparr>sv_reap := (sv_reap s \<or> sv_process s = NGX_PROCESS_MASTER \<and> g = SIGCHLD)\<rparr>,
       if g = SIGCHLD then k\<lparr>kd_ended := []\<rparr> else k)"
    using Cons.prems
    by (cases g; cases "sv_process s")
      (simp_all add: ngx_signal_handler_def ngx_process_get_status_def get_status_reaps)
  then show ?case using Cons by (cases "sv_reap s"; cases "sv_process s"; cases "g = SIGCHLD") auto
qed simp

lemma reap_nothing: "kd_ended k = [] \<Longrightarrow> reap_loop e fk (s, k) = Goes_on (s, k)"
  by (subst reap_loop.simps) (simp add: waitpid_def)

text \<open>
  C37: a worker that crashes is not started again. The handler of \<open>SIGCHLD\<close> waits for every
  child that has ended, so that when the loop that should replace them runs, none is left to
  wait for: whatever ended before the handler, with whatever status, the table keeps the dead
  processes and no process is forked.
\<close>

theorem crashed_worker_not_restarted:
  assumes "sv_process s = NGX_PROCESS_MASTER" and "\<not> sv_stopEvent s"
    and "SIGCHLD \<in> set gs" and "\<forall>g \<in> set gs. g \<noteq> SIGTERM \<and> g \<noteq> SIGQUIT"
  shows "master_turn e fk gs [] (s, k) = Goes_on (Suspends (s\<lparr>sv_reap := False\<rparr>, k\<lparr>kd_ended := []\<rparr>))"
  using assms
  by (simp add: master_turn_def handlers_fold ngx_reap_worker_processes_def reap_nothing)

theorem crashed_worker_not_restarted_witness:
  "master_turn demo_env (\<lambda>_. Fork_parent 9) [SIGCHLD] []
     ((new_server 5 1)\<lparr>sv_processes := [7, 0], sv_last_process := 1\<rparr>,
      \<lparr>kd_running = [], kd_ended = [(7, Signaled 11)]\<rparr>) =
   Goes_on (Suspends ((new_server 5 1)\<lparr>sv_processes := [7, 0], sv_last_process := 1\<rparr>, no_kids))"
  using crashed_worker_not_restarted [of "(new_server 5 1)\<lparr>sv_processes := [7, 0], sv_last_process := 1\<rparr>" "[SIGCHLD]"]
  by (simp add: new_server_def no_kids_def)

text \<open>The table as the start leaves it: the workers in front, zeros behind.\<close>

definition table :: "int list \<Rightarrow> server \<Rightarrow> bool" where
  "table ps s \<longleftrightarrow> sv_processes s = ps @ replicate (NGX_MAX_PROCESSES - length ps) 0 \<and>
     sv_last_process s = length ps \<and> length ps \<le> NGX_MAX_PROCESSES"

lemma store_table:
  "table ps s \<Longrightarrow> length ps < NGX_MAX_PROCESSES \<Longrightarrow>
     \<exists>s'. store_process (length ps) p s = Goes_on s' \<and> table (ps @ [p]) (s'\<lparr>sv_last_process := Suc (length ps)\<rparr>) \<and>
       sv_process s' = sv_process s \<and> sv_last_process s' = length ps"
  unfolding table_def store_process_def
  by (auto simp: list_update_append simp flip: replicate_Suc intro!: exI)
    (metis Suc_diff_Suc list_update_code(2) replicate_Suc)

lemma start_parents:
  "table ps s \<Longrightarrow> sv_process s = NGX_PROCESS_MASTER \<Longrightarrow> length ps + length qs \<le> NGX_MAX_PROCESSES \<Longrightarrow>
     \<exists>s'. start_loop e (length ps) (map Fork_parent qs) s = Goes_on s' \<and> table (ps @ qs) s' \<and>
       sv_process s' = NGX_PROCESS_MASTER"
proof (induction qs arbitrary: ps s)
  case (Cons q qs)
  obtain s1 where s1: "store_process (length ps) q s = Goes_on s1"
      "table (ps @ [q]) (s1\<lparr>sv_last_process := Suc (length ps)\<rparr>)"
      "sv_process s1 = NGX_PROCESS_MASTER" "sv_last_process s1 = length ps"
    using store_table [OF Cons.prems(1), of q] Cons.prems(2,3) by auto
  show ?case
    using Cons.IH [OF s1(2)] s1 Cons.prems(2,3) by (auto simp: ngx_spawn_process_def)
qed auto

lemma table_new: "table [] (new_server pid ppid)"
  by (simp add: table_def new_server_def)

lemma table_kills: "table ps s \<Longrightarrow> ngx_signal_worker_processes s = Goes_on (filter (\<lambda>p. p \<noteq> -1) ps)"
  by (auto simp: table_def ngx_signal_worker_processes_def)

lemma start_after_failure:
  "sv_processes s = 0 # ps @ replicate (NGX_MAX_PROCESSES - Suc (length ps)) 0 \<Longrightarrow>
   sv_last_process s = length ps \<Longrightarrow> sv_process s = NGX_PROCESS_MASTER \<Longrightarrow>
   length ps + length qs < NGX_MAX_PROCESSES \<Longrightarrow>
     \<exists>s'. start_loop e (Suc (length ps)) (map Fork_parent qs) s = Goes_on s' \<and>
       sv_processes s' = 0 # (ps @ qs) @ replicate (NGX_MAX_PROCESSES - Suc (length (ps @ qs))) 0 \<and>
       sv_last_process s' = length (ps @ qs)"
proof (induction qs arbitrary: ps s)
  case (Cons q qs)
  let ?s = "s\<lparr>sv_processes := (sv_processes s)[Suc (length ps) := q], sv_last_process := Suc (length ps)\<rparr>"
  have n: "NGX_MAX_PROCESSES - Suc (length ps) = Suc (NGX_MAX_PROCESSES - Suc (length (ps @ [q])))"
    using Cons.prems(4) by simp
  have "sv_processes ?s = 0 # (ps @ [q]) @ replicate (NGX_MAX_PROCESSES - Suc (length (ps @ [q]))) 0"
    unfolding Cons.prems(1) n by (simp add: list_update_append)
  from Cons.IH [OF this] Cons.prems show ?case
    by (auto simp: ngx_spawn_process_def store_process_def)
qed auto

text \<open>
  Where every \<open>fork\<close> succeeds, the start leaves a table that holds the workers, and a
  signal to the workers reaches exactly them, in their order.
\<close>

theorem workers_started:
  assumes "length ps \<le> NGX_MAX_PROCESSES" and "-1 \<notin> set ps"
  shows "\<exists>s. ngx_start_worker_processes e (map Fork_parent ps) (new_server pid ppid) = Goes_on s \<and>
      sv_process s = NGX_PROCESS_MASTER \<and> ngx_signal_worker_processes s = Goes_on ps"
proof -
  obtain s where s: "start_loop e 0 (map Fork_parent ps) (new_server pid ppid) = Goes_on s" "table ps s"
      "sv_process s = NGX_PROCESS_MASTER"
    using start_parents [OF table_new [of pid ppid], of ps e] assms(1) by (auto simp: new_server_def)
  have "filter (\<lambda>p. p \<noteq> -1) ps = ps" using assms(2) by (auto simp: filter_id_conv)
  with s table_kills [OF s(2)] show ?thesis by (auto simp: ngx_start_worker_processes_def)
qed

theorem workers_started_witness:
  "\<exists>s. ngx_start_worker_processes demo_env [Fork_parent 11, Fork_parent 12] (new_server 10 1) = Goes_on s \<and>
     ngx_signal_worker_processes s = Goes_on [11, 12]"
  using workers_started [of "[11, 12]" demo_env 10 1] by (auto simp: NGX_MAX_PROCESSES_def)

text \<open>
  When the first \<open>fork\<close> fails, the places in the table and the count no longer agree: a
  signal to the workers then goes to process 0, which is the whole process group of the
  server, and not to the last worker.
\<close>

theorem failed_fork_misdirects_signals:
  assumes "ps \<noteq> []" and "length ps < NGX_MAX_PROCESSES" and "-1 \<notin> set ps"
  shows "\<exists>s. ngx_start_worker_processes e (Fork_failed # map Fork_parent ps) (new_server pid ppid) = Goes_on s \<and>
      ngx_signal_worker_processes s = Goes_on (0 # butlast ps)"
proof -
  let ?s = "new_server pid ppid"
  have "replicate NGX_MAX_PROCESSES (0 :: int) = 0 # replicate (NGX_MAX_PROCESSES - Suc 0) 0"
    by (simp add: NGX_MAX_PROCESSES_def flip: replicate_Suc)
  then have "sv_processes ?s = 0 # [] @ replicate (NGX_MAX_PROCESSES - Suc (length [])) 0"
    by (simp add: new_server_def)
  from start_after_failure [OF this, of ps e] assms(2) obtain s where
    s: "start_loop e (Suc 0) (map Fork_parent ps) ?s = Goes_on s"
      "sv_processes s = 0 # ps @ replicate (NGX_MAX_PROCESSES - Suc (length ps)) 0" "sv_last_process s = length ps"
    by (auto simp: new_server_def)
  have "take (length ps) ((0 # ps) @ zs) = 0 # butlast ps" for zs
  proof -
    have "take (length ps) ((0 # ps) @ zs) = take (length ps) (0 # ps)" by (simp only: take_append) simp
    also have "\<dots> = 0 # butlast ps" using assms(1) by (cases ps) (auto simp: butlast_conv_take)
    finally show ?thesis .
  qed
  then have "take (sv_last_process s) (sv_processes s) = 0 # butlast ps" using s(2,3) by simp
  moreover have "filter (\<lambda>p. p \<noteq> -1) (butlast ps) = butlast ps"
    using assms(3) by (auto simp: filter_id_conv dest: in_set_butlastD)
  ultimately have "ngx_signal_worker_processes s = Goes_on (0 # butlast ps)"
    using s(2,3) assms(2) by (simp add: ngx_signal_worker_processes_def)
  moreover have "ngx_start_worker_processes e (Fork_failed # map Fork_parent ps) ?s = Goes_on s"
    using s(1) by (simp add: ngx_start_worker_processes_def ngx_spawn_process_def new_server_def)
  ultimately show ?thesis by blast
qed

theorem failed_fork_misdirects_signals_witness:
  "\<exists>s. ngx_start_worker_processes demo_env [Fork_failed, Fork_parent 11, Fork_parent 12] (new_server 10 1) = Goes_on s \<and>
     ngx_signal_worker_processes s = Goes_on [0, 11]"
  using failed_fork_misdirects_signals [of "[11, 12]" demo_env 10 1] by (simp add: NGX_MAX_PROCESSES_def)

lemma handler_child:
  "sv_process s = NGX_PROCESS_MASTER \<Longrightarrow>
     ngx_signal_handler SIGCHLD (s, k) = (s\<lparr>sv_reap := True\<rparr>, k\<lparr>kd_ended := []\<rparr>)"
  by (simp add: ngx_signal_handler_def ngx_process_get_status_def get_status_reaps)

lemma index_of:
  assumes "table ps s" and "distinct ps" and "i < length ps"
  shows "process_index (ps ! i) s = Goes_on i"
proof -
  have "length (takeWhile (\<lambda>q. q \<noteq> ps ! i) ps) = i"
    using assms(2,3) by (induction ps arbitrary: i) (auto simp: nth_Cons split: nat.splits)
  then show ?thesis using assms by (auto simp: process_index_def table_def)
qed

lemma store_at:
  assumes "table ps s" and "i < length ps"
  shows "store_process i p s = Goes_on (s\<lparr>sv_processes := ps[i := p] @ replicate (NGX_MAX_PROCESSES - length ps) 0\<rparr>)"
  using assms by (auto simp: store_process_def table_def list_update_append)

text \<open>
  A worker that crashes between the handler and the loop is replaced, at its place, but
  it is counted as one more: the count runs ahead of the workers, and from then on a signal
  to the workers goes to process 0 as well, the server's whole group, the master included.
\<close>

theorem restart_runs_ahead:
  assumes "table ps s" and "distinct ps" and "i < length ps" and "length ps < NGX_MAX_PROCESSES"
    and "sv_process s = NGX_PROCESS_MASTER" and "\<not> sv_stopEvent s"
    and "crashed st" and "fk (ps ! i) = Fork_parent q"
  shows "\<exists>s' k'. master_turn e fk [SIGCHLD] [(ps ! i, st)] (s, k) = Goes_on (Suspends (s', k')) \<and>
    sv_processes s' ! i = q \<and> sv_last_process s' = Suc (length ps) \<and> kd_ended k' = [] \<and>
    ngx_signal_worker_processes s' = Goes_on (filter (\<lambda>p. p \<noteq> -1) (ps[i := q]) @ [0])"
proof -
  let ?s = "s\<lparr>sv_reap := True\<rparr>" and ?z = "replicate (NGX_MAX_PROCESSES - length ps) (0 :: int)"
  let ?s1 = "?s\<lparr>sv_processes := ps[i := q] @ ?z, sv_last_process := Suc (length ps)\<rparr>"
  have t: "table ps ?s" using assms(1) by (simp add: table_def)
  have z: "?z = 0 # replicate (NGX_MAX_PROCESSES - Suc (length ps)) 0"
    using assms(4) by (metis Suc_diff_Suc replicate_Suc)
  have "ngx_spawn_process e i (Fork_parent q) ?s = Goes_on (q, ?s1)"
    using store_at [OF t assms(3)] assms(1) by (simp add: ngx_spawn_process_def table_def)
  moreover have "store_process i q ?s1 = Goes_on ?s1"
    using assms(3) by (auto simp: store_process_def list_update_append)
  ultimately have "reap_one e fk (ps ! i) st (?s, k0) = Goes_on (?s1, k0\<lparr>kd_running := q # kd_running k0\<rparr>)" for k0
    using index_of [OF t assms(2,3)] assms(7,8) by (simp add: reap_one_def)
  then have "reap_loop e fk (?s, k1\<lparr>kd_ended := [(ps ! i, st)]\<rparr>) =
      Goes_on (?s1, k1\<lparr>kd_ended := [], kd_running := q # kd_running k1\<rparr>)" for k1
    by (subst reap_loop.simps) (simp add: waitpid_def reap_nothing)
  moreover have "ngx_signal_worker_processes (?s1\<lparr>sv_reap := False\<rparr>) = Goes_on (filter (\<lambda>p. p \<noteq> -1) (ps[i := q]) @ [0])"
    using assms(3,4) z by (simp add: ngx_signal_worker_processes_def)
  ultimately show ?thesis
    using assms(3,5,6)
    by (simp add: master_turn_def handler_child ngx_reap_worker_processes_def nth_append)
qed

text \<open>
  A worker that was started in place of another one ends in the master's loop: once it is
  told to stop, it does what a master does and sends \<open>SIGTERM\<close> to every worker of the table it
  was forked with, and, its own place in it being 0, to the whole group.
\<close>

theorem respawned_worker_signals_group:
  assumes "table ps s" and "distinct ps" and "i < length ps"
    and "sv_process s = NGX_PROCESS_MASTER" and "\<not> sv_stopEvent s"
    and "crashed st" and "fk (ps ! i) = Fork_child c"
    and "we_signals_ok e" and "we_Initialize_ok e" and "we_pool_ok e" and "we_subproc_ok e"
  shows "\<exists>s' k'. master_turn e fk [SIGCHLD] [(ps ! i, st)] (s, k) =
      Goes_on (Leaves (filter (\<lambda>p. p \<noteq> -1) (ps[i := 0])) (s', k')) \<and>
    sv_process s' = NGX_PROCESS_WORKER \<and> sv_pid s' = c"
proof -
  let ?s = "s\<lparr>sv_reap := True\<rparr>" and ?z = "replicate (NGX_MAX_PROCESSES - length ps) (0 :: int)"
  let ?w = "?s\<lparr>sv_parent := sv_pid s, sv_pid := c, sv_process := NGX_PROCESS_WORKER, sv_stopEvent := True\<rparr>"
  let ?s1 = "?w\<lparr>sv_processes := ps[i := 0] @ ?z\<rparr>"
  have t: "table ps ?s" "table ps ?w" using assms(1) by (simp_all add: table_def)
  have "ngx_spawn_process e i (Fork_child c) ?s = Goes_on (0, ?w)"
    using assms(8-11) by (simp add: ngx_spawn_process_def ngx_worker_process_cycle_def ngx_worker_process_init_def)
  then have "reap_one e fk (ps ! i) st (?s, k0) = Goes_on (?s1, no_kids)" for k0
    using index_of [OF t(1) assms(2,3)] store_at [OF t(2) assms(3)] assms(6,7) by (simp add: reap_one_def)
  then have "reap_loop e fk (?s, k1\<lparr>kd_ended := [(ps ! i, st)]\<rparr>) = Goes_on (?s1, no_kids)" for k1
    by (subst reap_loop.simps) (simp add: waitpid_def reap_nothing no_kids_def)
  moreover have "ngx_signal_worker_processes (?s1\<lparr>sv_reap := False\<rparr>) = Goes_on (filter (\<lambda>p. p \<noteq> -1) (ps[i := 0]))"
    using assms(1,3) by (simp add: ngx_signal_worker_processes_def table_def)
  ultimately show ?thesis
    using assms(4,5)
    by (simp add: master_turn_def handler_child ngx_reap_worker_processes_def reap_nothing no_kids_def)
qed

definition demo_master :: server where
  "demo_master = (new_server 10 1)\<lparr>sv_processes := [11, 12] @ replicate 1022 0, sv_last_process := 2\<rparr>"

lemma demo_table: "table [11, 12] demo_master"
  by (simp add: table_def demo_master_def NGX_MAX_PROCESSES_def)

theorem restart_runs_ahead_witness:
  "\<exists>s' k'. master_turn demo_env (\<lambda>_. Fork_parent 13) [SIGCHLD] [(12, Signaled 11)] (demo_master, no_kids) =
      Goes_on (Suspends (s', k')) \<and> ngx_signal_worker_processes s' = Goes_on [11, 13, 0]"
  using restart_runs_ahead [OF demo_table, of 1 "Signaled 11" "\<lambda>_. Fork_parent 13" 13 demo_env no_kids]
  by (auto simp: NGX_MAX_PROCESSES_def demo_master_def new_server_def crashed_def)

theorem respawned_worker_signals_group_witness:
  "\<exists>s' k'. master_turn demo_env (\<lambda>_. Fork_child 13) [SIGCHLD] [(12, Signaled 11)] (demo_master, no_kids) =
      Goes_on (Leaves [11, 0] (s', k'))"
  using respawned_worker_signals_group [OF demo_table, of 1 "Signaled 11" "\<lambda>_. Fork_child 13" 13 demo_env no_kids]
  by (auto simp: demo_master_def new_server_def crashed_def demo_env_def)

end
