(* ===== verification/Startup.thy ===== *)
theory Startup
  imports Process
begin

text \<open>
  The start of the program: \<open>run\<close> (\<open>src/server/my_start.cpp\<close>), the daemon
  (\<open>src/server/my_daemon.cpp\<close>) and the title of the process (\<open>src/server/my_setproctitle.cpp\<close>).
  The memory with the arguments and the environment is a map from addresses to bytes; \<open>argv\<close>
  and \<open>environ\<close> are lists of addresses and the block that \<open>new\<close> gives is an argument. A
  string that has no end makes the model undefined (\<open>None\<close>, \<open>Out_of_bounds\<close>). Descriptors are
  a map to what is open under them. The title memory that \<open>run\<close> returns is the one of the
  process that set the master's title; a worker sets its own in its copy. Log lines and
  \<open>umask\<close> are left out.
\<close>

section \<open>The daemon\<close>

datatype open_file = Dev_null | Other_file nat

text \<open>The results of the system calls of \<open>ngx_daemon\<close>; \<open>open\<close> gives a descriptor or fails.\<close>

record daemon_env =
  de_fork :: fork_result
  de_setsid_ok :: bool
  de_open :: "nat option"
  de_dup_in_ok :: bool
  de_dup_out_ok :: bool
  de_close_ok :: bool

definition ngx_daemon :: "daemon_env \<Rightarrow> server \<times> (nat \<rightharpoonup> open_file) \<Rightarrow> int \<times> server \<times> (nat \<rightharpoonup> open_file)" where
  "ngx_daemon d = (\<lambda>(s, f).
     (case de_fork d of
        Fork_failed \<Rightarrow> (-1, s, f)
      | Fork_parent p \<Rightarrow> (1, s, f)
      | Fork_child c \<Rightarrow>
          (let s' = s\<lparr>sv_parent := sv_pid s, sv_pid := c\<rparr>
           in if \<not> de_setsid_ok d then (-1, s', f)
              else (case de_open d of
                      None \<Rightarrow> (-1, s', f)
                    | Some fd \<Rightarrow>
                        let f1 = f(fd \<mapsto> Dev_null)
                        in if \<not> de_dup_in_ok d then (-1, s', f1)
                           else let f2 = f1(0 := f1 fd)
                           in if \<not> de_dup_out_ok d then (-1, s', f2)
                           else let f3 = f2(1 := f2 fd)
                           in if 2 < fd
                              then (if \<not> de_close_ok d then (-1, s', f3) else (0, s', f3(fd := None)))
                              else (0, s', f3)))))"

section \<open>Memory and strings\<close>

abbreviation NUL :: char where "NUL \<equiv> CHR 0x00"

definition store_bytes :: "nat \<Rightarrow> string \<Rightarrow> (nat \<Rightarrow> char) \<Rightarrow> nat \<Rightarrow> char" where
  "store_bytes p bs m = (\<lambda>a. if p \<le> a \<and> a < p + length bs then bs ! (a - p) else m a)"

text \<open>The string that begins at an address.\<close>

partial_function (option) cstring :: "(nat \<Rightarrow> char) \<Rightarrow> nat \<Rightarrow> string option" where
  "cstring m p = 
     (if m p = NUL then Some []
      else Option.bind (cstring m (Suc p)) (\<lambda>s. Some (m p # s)))"

record title_state =
  tt_mem :: "nat \<Rightarrow> char"
  tt_argv :: "nat option list"
  tt_environ :: "nat list"
  tt_argvneedmem :: nat
  tt_envneedmem :: nat
  tt_envmem :: "nat option"

text \<open>The lengths that \<open>run\<close> adds up.\<close>

definition measure_args :: "string list \<Rightarrow> nat" where
  "measure_args ss = sum_list (map (\<lambda>s. length s + 1) ss)"

fun copy_env :: "nat \<Rightarrow> nat list \<Rightarrow> (nat \<Rightarrow> char) \<Rightarrow> (nat list \<times> (nat \<Rightarrow> char)) option" where
  "copy_env ptmp [] m = Some ([], m)"
| "copy_env ptmp (p # ps) m =
     (case cstring m p of
        None \<Rightarrow> None
      | Some s \<Rightarrow>
          (case copy_env (ptmp + length s + 1) ps (store_bytes ptmp (s @ [NUL]) m) of
             None \<Rightarrow> None
           | Some (qs, m') \<Rightarrow> Some (ptmp # qs, m')))"

definition ngx_init_setproctitle :: "nat \<Rightarrow> title_state \<Rightarrow> title_state option" where
  "ngx_init_setproctitle new_block t =
     (case copy_env new_block (tt_environ t)
             (store_bytes new_block (replicate (tt_envneedmem t) NUL) (tt_mem t)) of
        None \<Rightarrow> None
      | Some (qs, m) \<Rightarrow> Some (t\<lparr>tt_mem := m, tt_environ := qs, tt_envmem := Some new_block\<rparr>))"

definition ngx_setproctitle :: "string \<Rightarrow> title_state \<Rightarrow> title_state option" where
  "ngx_setproctitle title t =
     (let esy = tt_argvneedmem t + tt_envneedmem t
      in if esy \<le> length title then Some t
         else (case tt_argv t ! 0 of
                 None \<Rightarrow> None
               | Some p \<Rightarrow>
                   Some (t\<lparr>tt_argv := (tt_argv t)[1 := None],
                     tt_mem := store_bytes (p + length title) (replicate (esy - length title) NUL)
                       (store_bytes p (title @ [NUL]) (tt_mem t))\<rparr>)))"

definition freeresource :: "title_state \<Rightarrow> title_state" where
  "freeresource t = t\<lparr>tt_envmem := None\<rparr>"

text \<open>The title the master builds in a buffer of 1000 bytes, when it takes the trouble.\<close>

definition master_title :: "string list \<Rightarrow> string option" where
  "master_title args =
     (if length ''master process'' + 1 + measure_args args < 1000
      then Some (''master process'' @ '' '' @ concat args) else None)"

text \<open>What the master does for its own title.\<close>

definition set_master_title :: "string list \<Rightarrow> title_state \<Rightarrow> title_state option" where
  "set_master_title args t =
     (case master_title args of None \<Rightarrow> Some t | Some title \<Rightarrow> ngx_setproctitle title t)"

section \<open>Running the server\<close>

record run_env =
  re_pid :: int
  re_ppid :: int
  re_args :: "string list"
  re_envs :: "string list"
  re_block :: nat
  re_exe :: "string option"
  re_files :: "string \<rightharpoonup> string"
  re_daemon :: daemon_env
  re_signals_ok :: bool
  re_worker :: worker_env
  re_forks :: "nat \<Rightarrow> fork_result"
  re_fk :: "int \<Rightarrow> fork_result"
  re_rounds :: "(signal list \<times> (int \<times> exit_status) list) list"

datatype run_end = Run_returns int title_state | Runs_on title_state

definition run_cycle :: "run_env \<Rightarrow> conf_item list \<Rightarrow> title_state \<Rightarrow> server \<Rightarrow> run_end flow" where
  "run_cycle e conf t s =
     (case (if re_signals_ok e then set_master_title (re_args e) t else Some t) of
        None \<Rightarrow> Out_of_bounds
      | Some t' \<Rightarrow>
          (case ngx_master_process_cycle (re_signals_ok e) conf (re_worker e) (re_forks e) (re_fk e) (re_rounds e) s of
             Goes_on (Returns c s') \<Rightarrow> Goes_on (Run_returns 0 (freeresource t'))
           | Goes_on (Suspended y) \<Rightarrow> Goes_on (Runs_on t')
           | Exit c \<Rightarrow> Exit c
           | Out_of_bounds \<Rightarrow> Out_of_bounds))"

definition run :: "run_env \<Rightarrow> title_state \<times> (nat \<rightharpoonup> open_file) \<Rightarrow> run_end flow" where
  "run e = (\<lambda>(t, f).
     (let s = new_server (re_pid e) (re_ppid e);
          t0 = t\<lparr>tt_argvneedmem := measure_args (re_args e), tt_envneedmem := measure_args (re_envs e)\<rparr>;
          (loaded, conf) = LoadConf (re_exe e) (re_files e) ''nginx.conf'' []
      in if \<not> loaded then Goes_on (Run_returns 2 (freeresource t0))
         else (case ngx_init_setproctitle (re_block e) t0 of
                 None \<Rightarrow> Out_of_bounds
               | Some t1 \<Rightarrow>
                   if GetIntDefault ''Daemon'' 0 conf = 1
                   then (case ngx_daemon (re_daemon e) (s, f) of
                           (r, s', f') \<Rightarrow>
                             if r = -1 then Goes_on (Run_returns 1 (freeresource t1))
                             else if r = 1 then Goes_on (Run_returns 0 (freeresource t1))
                             else run_cycle e conf t1 s')
                   else run_cycle e conf t1 s)))"

section \<open>Properties\<close>

text \<open>
  A process that becomes a daemon leaves its terminal's input and output for
  \<open>/dev/null\<close>, keeps its error output, has no other descriptor more than before, and knows
  the process it came from as its parent.
\<close>

theorem daemon_descriptors:
  assumes "de_fork d = Fork_child c" and "de_setsid_ok d" and "de_open d = Some fd" and "f fd = None"
    and "{0, 1, 2} \<subseteq> dom f" and "de_dup_in_ok d" and "de_dup_out_ok d" and "de_close_ok d"
  shows "ngx_daemon d (s, f) =
    (0, s\<lparr>sv_parent := sv_pid s, sv_pid := c\<rparr>, f(0 \<mapsto> Dev_null, 1 \<mapsto> Dev_null))"
proof -
  have "f 0 \<noteq> None" "f 1 \<noteq> None" "f 2 \<noteq> None" using assms(5) by blast+
  with assms(4) have fd: "fd \<noteq> 0" "fd \<noteq> 1" "fd \<noteq> 2" by metis+
  then have "(f(fd \<mapsto> Dev_null, 0 \<mapsto> Dev_null, 1 \<mapsto> Dev_null))(fd := None) = f(0 \<mapsto> Dev_null, 1 \<mapsto> Dev_null)"
    using assms(4) by (intro ext) simp
  moreover have "2 < fd" using fd by simp
  ultimately show ?thesis using assms(1-3,6-8) fd by (simp add: ngx_daemon_def)
qed

theorem daemon_descriptors_witness:
  "ngx_daemon \<lparr>de_fork = Fork_child 8, de_setsid_ok = True, de_open = Some 3, de_dup_in_ok = True,
      de_dup_out_ok = True, de_close_ok = True\<rparr>
     (new_server 7 1, [0 \<mapsto> Other_file 0, 1 \<mapsto> Other_file 0, 2 \<mapsto> Other_file 0]) =
   (0, new_server 8 7, [0 \<mapsto> Dev_null, 1 \<mapsto> Dev_null, 2 \<mapsto> Other_file 0])"
  using daemon_descriptors [of "\<lparr>de_fork = Fork_child 8, de_setsid_ok = True, de_open = Some 3, de_dup_in_ok = True,
      de_dup_out_ok = True, de_close_ok = True\<rparr>" 8 3 "[0 \<mapsto> Other_file 0, 1 \<mapsto> Other_file 0, 2 \<mapsto> Other_file 0]"
      "new_server 7 1"]
  by (simp add: new_server_def fun_eq_iff)

lemma length_concat_measure: "length (concat ss) + length ss = measure_args ss"
  by (induction ss) (auto simp: measure_args_def)

lemma store_same: "a < p \<or> p + length bs \<le> a \<Longrightarrow> store_bytes p bs m a = m a"
  by (auto simp: store_bytes_def)

lemma store_at_byte: "i < length bs \<Longrightarrow> store_bytes p bs m (p + i) = bs ! i"
  by (simp add: store_bytes_def)

text \<open>A string in memory.\<close>

definition holds_string :: "(nat \<Rightarrow> char) \<Rightarrow> nat \<Rightarrow> string \<Rightarrow> bool" where
  "holds_string m p s \<longleftrightarrow> NUL \<notin> set s \<and> (\<forall>i < length s. m (p + i) = s ! i) \<and> m (p + length s) = NUL"

lemma cstring_held: "holds_string m p s \<Longrightarrow> cstring m p = Some s"
proof (induction s arbitrary: p)
  case Nil
  then show ?case by (subst cstring.simps) (simp add: holds_string_def)
next
  case (Cons c s)
  have "holds_string m (Suc p) s" and c: "m p = c" "c \<noteq> NUL"
    using Cons.prems by (auto simp: holds_string_def All_less_Suc2)
  then show ?case using Cons.IH by (subst cstring.simps) auto
qed

lemma held_cong:
  "holds_string m p s \<Longrightarrow> (\<And>i. i \<le> length s \<Longrightarrow> m' (p + i) = m (p + i)) \<Longrightarrow> holds_string m' p s"
  by (auto simp: holds_string_def)

lemma held_stored: "NUL \<notin> set s \<Longrightarrow> holds_string (store_bytes p (s @ [NUL]) m) p s"
  by (auto simp: holds_string_def store_bytes_def nth_append)

text \<open>The strings of a list, one behind the other from an address on.\<close>

fun laid_out :: "(nat \<Rightarrow> char) \<Rightarrow> nat \<Rightarrow> nat list \<Rightarrow> string list \<Rightarrow> bool" where
  "laid_out m p [] [] = True"
| "laid_out m p (q # qs) (s # ss) = (q = p \<and> holds_string m p s \<and> laid_out m (p + length s + 1) qs ss)"
| "laid_out m p _ _ = False"

lemma laid_out_cong:
  "laid_out m p qs ss \<Longrightarrow> (\<And>a. p \<le> a \<Longrightarrow> a < p + measure_args ss \<Longrightarrow> m' a = m a) \<Longrightarrow> laid_out m' p qs ss"
proof (induction m p qs ss rule: laid_out.induct)
  case (2 m p q qs s ss)
  have e: "m' a = m a" if "p \<le> a" "a < p + length s + 1 + measure_args ss" for a
    using "2.prems"(2) [of a] that by (simp add: measure_args_def)
  have "holds_string m p s" "laid_out m (p + length s + 1) qs ss" using "2.prems"(1) by simp_all
  moreover from this(1) have "holds_string m' p s" by (rule held_cong) (rule e, simp_all)
  moreover from calculation(2) have "laid_out m' (p + length s + 1) qs ss"
    by (rule "2.IH") (rule e, simp_all)
  ultimately show ?case using "2.prems"(1) by simp
qed auto

lemma laid_out_strings: "laid_out m p qs ss \<Longrightarrow> map (cstring m) qs = map Some ss"
  by (induction m p qs ss rule: laid_out.induct) (auto dest: cstring_held)

lemma copy_env_moves:
  "laid_out m p qs ss \<Longrightarrow> p + measure_args ss \<le> e \<or> e + measure_args ss \<le> p \<Longrightarrow>
     \<exists>qs' m'. copy_env e qs m = Some (qs', m') \<and> laid_out m' e qs' ss \<and>
       (\<forall>a. a < e \<or> e + measure_args ss \<le> a \<longrightarrow> m' a = m a)"
proof (induction ss arbitrary: m p qs e)
  case Nil
  then show ?case by (cases qs) auto
next
  case (Cons s ss)
  obtain q qs2 where qs: "qs = q # qs2" and q: "q = p" "holds_string m p s" "laid_out m (p + length s + 1) qs2 ss"
    using Cons.prems(1) by (cases qs) auto
  let ?m = "store_bytes e (s @ [NUL]) m" and ?e = "e + length s + 1"
  have n: "measure_args (s # ss) = length s + 1 + measure_args ss" by (simp add: measure_args_def)
  have "laid_out ?m (p + length s + 1) qs2 ss"
    using q(3) by (rule laid_out_cong) (use Cons.prems(2) n in \<open>auto simp: store_bytes_def\<close>)
  from Cons.IH [OF this, of ?e] Cons.prems(2) n obtain qs' m' where
    r: "copy_env ?e qs2 ?m = Some (qs', m')" "laid_out m' ?e qs' ss"
      "\<forall>a. a < ?e \<or> ?e + measure_args ss \<le> a \<longrightarrow> m' a = ?m a" by auto
  have "holds_string m' e s"
  proof (rule held_cong [of ?m])
    show "holds_string ?m e s" using q(2) by (intro held_stored) (simp add: holds_string_def)
  qed (use r(3) in auto)
  moreover have "\<forall>a. a < e \<or> e + measure_args (s # ss) \<le> a \<longrightarrow> m' a = m a"
    using r(3) n by (auto simp: store_bytes_def)
  ultimately show ?case using r q qs cstring_held [OF q(2)] by auto
qed

lemma laid_out_append:
  "length qs1 = length ss1 \<Longrightarrow> laid_out m p (qs1 @ qs2) (ss1 @ ss2) \<longleftrightarrow>
     laid_out m p qs1 ss1 \<and> laid_out m (p + measure_args ss1) qs2 ss2"
proof (induction qs1 ss1 arbitrary: p rule: list_induct2)
  case (Cons q qs s ss)
  then show ?case by (simp add: measure_args_def add.assoc)
qed (simp add: measure_args_def)

lemma measure_append [simp]: "measure_args (ss1 @ ss2) = measure_args ss1 + measure_args ss2"
  by (simp add: measure_args_def)

text \<open>
  C21: changing the title of a process does not lose its environment. The strings of the
  arguments and of the environment lie one behind the other; \<open>ngx_init_setproctitle\<close> moves
  the environment to a block of its own, and a title that is shorter than both together is
  then written over the old place: the first argument reads as the title, every variable
  of the environment reads as before, and no other memory has changed.
\<close>

theorem title_keeps_environment:
  assumes "laid_out (tt_mem t) p (qa @ qe) (args @ envs)" and "length qa = length args" and "args \<noteq> []"
    and "tt_argv t = map Some qa @ [None]" and "tt_environ t = qe"
    and "tt_argvneedmem t = measure_args args" and "tt_envneedmem t = measure_args envs"
    and "p + measure_args (args @ envs) \<le> block \<or> block + measure_args envs \<le> p"
    and "NUL \<notin> set title" and "length title < measure_args (args @ envs)"
  shows "\<exists>t1 t2. ngx_init_setproctitle block t = Some t1 \<and> ngx_setproctitle title t1 = Some t2 \<and>
    cstring (tt_mem t2) p = Some title \<and> map (cstring (tt_mem t2)) (tt_environ t2) = map Some envs \<and>
    (\<forall>a. \<not> (p \<le> a \<and> a < p + measure_args (args @ envs)) \<and> \<not> (block \<le> a \<and> a < block + measure_args envs) \<longrightarrow>
       tt_mem t2 a = tt_mem t a)"
proof -
  let ?m = "tt_mem t" and ?n = "measure_args envs" and ?esy = "measure_args (args @ envs)"
  let ?zeroed = "store_bytes block (replicate ?n NUL) ?m"
  have l: "laid_out ?m p qa args" "laid_out ?m (p + measure_args args) qe envs"
    using assms(1) unfolding laid_out_append [OF assms(2)] by simp_all
  have "laid_out ?zeroed (p + measure_args args) qe envs"
    using l(2) by (rule laid_out_cong) (use assms(8) in \<open>auto simp: store_bytes_def\<close>)
  moreover have "p + measure_args args + ?n \<le> block \<or> block + ?n \<le> p + measure_args args"
    using assms(8) by auto
  ultimately obtain qs' m1 where
    m1: "copy_env block qe ?zeroed = Some (qs', m1)" "laid_out m1 block qs' envs"
      "\<forall>a. a < block \<or> block + ?n \<le> a \<longrightarrow> m1 a = ?zeroed a" using copy_env_moves by blast
  let ?t1 = "t\<lparr>tt_mem := m1, tt_environ := qs', tt_envmem := Some block\<rparr>"
  have t1: "ngx_init_setproctitle block t = Some ?t1"
    using m1(1) assms(5,7) by (simp add: ngx_init_setproctitle_def)
  have q: "tt_argv t ! 0 = Some p"
    using l(1) assms(2,3,4) by (cases qa; cases args) auto
  let ?titled = "store_bytes (p + length title) (replicate (?esy - length title) NUL)
      (store_bytes p (title @ [NUL]) m1)"
  have t2: "ngx_setproctitle title ?t1 = Some (?t1\<lparr>tt_argv := (tt_argv t)[1 := None], tt_mem := ?titled\<rparr>)"
    using assms(6,7,10) q by (simp add: ngx_setproctitle_def)
  have out: "?titled a = m1 a" if "\<not> (p \<le> a \<and> a < p + ?esy)" for a
    using that assms(10) by (auto simp: store_bytes_def)
  have "holds_string ?titled p title"
    using assms(9,10) by (auto simp: holds_string_def store_bytes_def nth_append)
  then have "cstring ?titled p = Some title" by (rule cstring_held)
  moreover have "laid_out ?titled block qs' envs"
    using m1(2) by (rule laid_out_cong) (rule out, use assms(8) in auto)
  moreover have "?titled a = ?m a" if "\<not> (p \<le> a \<and> a < p + ?esy)" "\<not> (block \<le> a \<and> a < block + ?n)" for a
    using out [OF that(1)] m1(3) that(2) by (auto simp: store_bytes_def)
  ultimately show ?thesis using t1 t2 laid_out_strings [of ?titled block qs' envs] by auto
qed

theorem title_keeps_environment_witness:
  "\<exists>t1 t2. ngx_init_setproctitle 100 \<lparr>tt_mem = store_bytes 10 (''x'' @ [NUL] @ ''A=1'' @ [NUL]) (\<lambda>_. NUL),
       tt_argv = [Some 10, None], tt_environ = [12], tt_argvneedmem = 2, tt_envneedmem = 4, tt_envmem = None\<rparr> = Some t1 \<and>
     ngx_setproctitle ''work'' t1 = Some t2 \<and> cstring (tt_mem t2) 10 = Some ''work'' \<and>
     map (cstring (tt_mem t2)) (tt_environ t2) = [Some ''A=1'']"
proof -
  let ?t = "\<lparr>tt_mem = store_bytes 10 (''x'' @ [NUL] @ ''A=1'' @ [NUL]) (\<lambda>_. NUL),
       tt_argv = [Some 10, None], tt_environ = [12], tt_argvneedmem = 2, tt_envneedmem = 4, tt_envmem = None\<rparr>"
  have "laid_out (tt_mem ?t) 10 ([10] @ [12]) ([''x''] @ [''A=1''])"
    by (simp add: holds_string_def store_bytes_def All_less_Suc2 nth_Cons')
  from title_keeps_environment [OF this, of 100 "''work''"] show ?thesis
    by (auto simp: measure_args_def)
qed

text \<open>
  The title the master builds fits in its buffer of 1000 bytes with its end, whatever the
  arguments are.
\<close>

theorem master_title_fits:
  assumes "master_title args = Some title"
  shows "length title + 1 \<le> 1000"
  using assms length_concat_measure [of args] by (auto simp: master_title_def split: if_splits)

theorem master_title_fits_witness: "length (''master process'' @ '' '' @ ''./nginx'') + 1 \<le> 1000"
  by (rule master_title_fits [of "[''./nginx'']"]) (simp add: master_title_def measure_args_def)

end
