(* ===== verification/DbPool.thy ===== *)
theory DbPool
  imports Prelude Systems "HOL-Library.Monad_Syntax"
begin

text \<open>
  The pool of data base connections: \<open>src/dbconnpool/connectionPool.cpp\<close> and the wrapper
  \<open>mysqlconn.cpp\<close>. The client library of the data base, the JSON parser and the file system
  are arguments: whether a connect succeeds (\<open>real_connect\<close>), the result of a query, what the
  parsed file holds. A connection is an address into a heap, so that a deleted one and a shared
  one can be told. The producer, the recycler and the borrowers run interleaved; each of their
  steps is what they do under the mutex from one wait to the next, and a wait may end at any
  time, as a condition variable allows. Times are nanoseconds of the steady clock. Log lines
  and pauses are left out.
\<close>

section \<open>A connection\<close>

record result_set =
  qs_fields :: "string list"
  qs_rows :: "string option list list"

datatype row_ptr = Unset | Null_row | Row "string option list"

record mysql_conn =
  mc_result :: "result_set option"
  mc_row :: row_ptr
  mc_aliveTime :: int

definition new_conn :: mysql_conn where
  "new_conn = \<lparr>mc_result = None, mc_row = Unset, mc_aliveTime = 0\<rparr>"

type_synonym real_connect = "string \<Rightarrow> string \<Rightarrow> string \<Rightarrow> string \<Rightarrow> nat \<Rightarrow> bool"

definition connect :: "real_connect \<Rightarrow> string \<Rightarrow> string \<Rightarrow> string \<Rightarrow> string \<Rightarrow> nat \<Rightarrow> bool" where
  "connect rc ip user pwd dbname port = rc (c_str ip) (c_str user) (c_str pwd) (c_str dbname) port"

definition default_port :: nat where "default_port = 3306"

definition update_ok :: "int \<Rightarrow> bool" where
  "update_ok r = (r = 0)"

datatype query_result = Query_failed | No_result | Has_result "string list" "string option list list"

definition row_object :: "string list \<Rightarrow> string option list \<Rightarrow> (string, string) amap" where
  "row_object fs row =
     fold (\<lambda>(f, v). amap_put (c_str f) (case v of None \<Rightarrow> ''NULL'' | Some s \<Rightarrow> c_str s)) (zip fs row) []"

definition freeResult :: "mysql_conn \<Rightarrow> mysql_conn" where
  "freeResult c = c\<lparr>mc_result := None\<rparr>"

definition query :: "query_result \<Rightarrow> mysql_conn \<Rightarrow> (string, string) amap list \<times> mysql_conn" where
  "query q c =
     (let c0 = freeResult c
      in case q of
           Query_failed \<Rightarrow> ([], c0)
         | No_result \<Rightarrow> ([], c0)
         | Has_result fs rows \<Rightarrow>
             (map (row_object fs) rows, c0\<lparr>mc_result := Some \<lparr>qs_fields = fs, qs_rows = []\<rparr>\<rparr>))"

definition next_row :: "mysql_conn \<Rightarrow> (bool \<times> mysql_conn) option" where
  "next_row c =
     (case mc_result c of
        None \<Rightarrow> None
      | Some rs \<Rightarrow>
          Some (case qs_rows rs of
                  [] \<Rightarrow> (False, c\<lparr>mc_row := Null_row\<rparr>)
                | r # rows \<Rightarrow> (True, c\<lparr>mc_row := Row r, mc_result := Some (rs\<lparr>qs_rows := rows\<rparr>)\<rparr>)))"

definition get_column :: "int \<Rightarrow> mysql_conn \<Rightarrow> string option" where
  "get_column index c =
     (case mc_result c of
        None \<Rightarrow> None
      | Some rs \<Rightarrow>
          (case mc_row c of
             Unset \<Rightarrow> None
           | Null_row \<Rightarrow> Some ''NULL''
           | Row r \<Rightarrow>
               if index < int (length (qs_fields rs))
               then (if index < 0 then None else map_option c_str (r ! nat index))
               else Some ''NULL''))"

text \<open>The calls of a transaction return the code of the client library as a truth value.\<close>

definition transact :: "int \<Rightarrow> bool" where
  "transact r = (r \<noteq> 0)"

definition submmit :: "int \<Rightarrow> bool" where
  "submmit r = (r \<noteq> 0)"

definition rollback :: "int \<Rightarrow> bool" where
  "rollback r = (r \<noteq> 0)"

definition refreshAliveTime :: "int \<Rightarrow> mysql_conn \<Rightarrow> mysql_conn" where
  "refreshAliveTime now c = c\<lparr>mc_aliveTime := now\<rparr>"

definition getAliveTime :: "int \<Rightarrow> mysql_conn \<Rightarrow> int" where
  "getAliveTime now c = (now - mc_aliveTime c) div 1000000"

section \<open>The pool\<close>

record db_pool =
  dp_ip :: string
  dp_user :: string
  dp_pwd :: string
  dp_dbname :: string
  dp_port :: int
  dp_maxSize :: int
  dp_minSize :: int
  dp_maxIdleTime :: int
  dp_timeout :: int
  dp_connQueue :: "nat list"
  dp_heap :: "nat \<rightharpoonup> mysql_conn"
  dp_next :: nat

text \<open>An \<open>int\<close> that is compared with a \<open>size_t\<close>.\<close>

definition to_size :: "int \<Rightarrow> nat" where
  "to_size i = nat (i mod 2 ^ 64)"

definition addConnection :: "real_connect \<Rightarrow> int \<Rightarrow> db_pool \<Rightarrow> db_pool" where
  "addConnection rc now p =
     (if connect rc (dp_ip p) (dp_user p) (dp_pwd p) (dp_dbname p) default_port
      then p\<lparr>dp_heap := (dp_heap p)(dp_next p \<mapsto> refreshAliveTime now new_conn),
             dp_connQueue := dp_connQueue p @ [dp_next p], dp_next := dp_next p + 1\<rparr>
      else p)"

function resycle :: "int \<Rightarrow> db_pool \<Rightarrow> db_pool" where
  "resycle now p =
     (case dp_connQueue p of
        [] \<Rightarrow> p
      | a # q \<Rightarrow>
          if to_size (dp_maxSize p) < length (a # q)
          then (if dp_maxIdleTime p < getAliveTime now (the (dp_heap p a))
                then resycle now (p\<lparr>dp_connQueue := q, dp_heap := (dp_heap p)(a := None)\<rparr>)
                else p)
          else p)"
  by pat_completeness auto
termination by (relation "measure (\<lambda>(now, p). length (dp_connQueue p))") auto

declare resycle.simps [simp del]

section \<open>The configuration\<close>

text \<open>
  A value of the parsed file; \<open>J_number\<close> is any value that \<open>get<int>\<close> converts, with the
  integer it converts to.
\<close>

datatype json_value = J_string string | J_number int | J_other

record json_env =
  je_exe :: "string option"
  je_exists :: "string \<Rightarrow> bool"
  je_is_directory :: "string \<Rightarrow> bool"
  je_current_path :: string
  je_open :: "string \<rightharpoonup> string"
  je_parse :: "string \<Rightarrow> (string \<rightharpoonup> json_value) option"

datatype config_end = Parse_false | Parse_throws | Parse_true db_pool

definition parent_path :: "string \<Rightarrow> string" where
  "parent_path s =
     (case rfind_char (CHR ''/'') s of
        None \<Rightarrow> []
      | Some i \<Rightarrow> if i = 0 then ''/'' else take i s)"

definition path_append :: "string \<Rightarrow> string \<Rightarrow> string" where
  "path_append p q = (if p = [] \<or> last p = CHR ''/'' then p @ q else p @ ''/'' @ q)"

definition at_string :: "(string \<rightharpoonup> json_value) \<Rightarrow> string \<Rightarrow> string option" where
  "at_string j k = (case j k of Some (J_string s) \<Rightarrow> Some s | _ \<Rightarrow> None)"

definition at_int :: "(string \<rightharpoonup> json_value) \<Rightarrow> string \<Rightarrow> int option" where
  "at_int j k = (case j k of Some (J_number i) \<Rightarrow> Some (to_int32 i) | _ \<Rightarrow> None)"

definition read_settings :: "(string \<rightharpoonup> json_value) \<Rightarrow> db_pool \<Rightarrow> db_pool option" where
  "read_settings j p =
     do {
       ip \<leftarrow> at_string j ''ip'';
       port \<leftarrow> at_int j ''port'';
       user \<leftarrow> at_string j ''username'';
       pwd \<leftarrow> at_string j ''password'';
       dbname \<leftarrow> at_string j ''dbname'';
       maxSize \<leftarrow> at_int j ''maxSize'';
       minSize \<leftarrow> at_int j ''minSize'';
       maxIdleTime \<leftarrow> at_int j ''maxIdleTime'';
       timeout \<leftarrow> at_int j ''timeout'';
       Some (p\<lparr>dp_ip := ip, dp_port := port, dp_user := user, dp_pwd := pwd, dp_dbname := dbname,
          dp_maxSize := maxSize, dp_minSize := minSize, dp_maxIdleTime := maxIdleTime, dp_timeout := timeout\<rparr>)
     }"

definition parseJsonFile :: "json_env \<Rightarrow> db_pool \<Rightarrow> config_end" where
  "parseJsonFile e p =
     (case je_exe e of
        None \<Rightarrow> Parse_false
      | Some exe \<Rightarrow>
          (let config = path_append (parent_path (parent_path exe)) ''config'';
               json_file = path_append config ''mysql.json''
           in if \<not> je_exists e json_file then Parse_false
              else
                (let json_file' =
                   (if \<not> je_exists e config \<or> \<not> je_is_directory e config
                    then path_append (je_current_path e) ''mysql.json'' else json_file)
                 in case je_open e json_file' of
                      None \<Rightarrow> Parse_false
                    | Some text \<Rightarrow>
                        (case Option.bind (je_parse e text) (\<lambda>j. read_settings j p) of
                           None \<Rightarrow> Parse_throws
                         | Some p' \<Rightarrow> Parse_true p'))))"

fun add_connections :: "real_connect \<Rightarrow> (nat \<Rightarrow> int) \<Rightarrow> nat \<Rightarrow> db_pool \<Rightarrow> db_pool" where
  "add_connections rc clk 0 p = p"
| "add_connections rc clk (Suc n) p = addConnection rc (clk n) (add_connections rc clk n p)"

text \<open>The constructor of the pool; a failed configuration ends the process.\<close>

definition empty_pool :: db_pool where
  "empty_pool = \<lparr>dp_ip = [], dp_user = [], dp_pwd = [], dp_dbname = [], dp_port = 0, dp_maxSize = 0, dp_minSize = 0,
     dp_maxIdleTime = 0, dp_timeout = 0, dp_connQueue = [], dp_heap = Map.empty, dp_next = 0\<rparr>"

datatype pool_start = Exit_failure | Start_throws | Started db_pool

definition new_pool :: "json_env \<Rightarrow> real_connect \<Rightarrow> (nat \<Rightarrow> int) \<Rightarrow> pool_start" where
  "new_pool e rc clk =
     (case parseJsonFile e empty_pool of
        Parse_false \<Rightarrow> Exit_failure
      | Parse_throws \<Rightarrow> Start_throws
      | Parse_true p \<Rightarrow> Started (add_connections rc clk (nat (dp_minSize p)) p))"

section \<open>The threads\<close>

datatype producer = P_ready | P_waiting

datatype borrower = B_idle | B_ready | B_waiting | B_has nat

record db_sys =
  ds_pool :: db_pool
  ds_producer :: producer
  ds_borrowers :: "nat \<Rightarrow> borrower"

definition new_db_sys :: "db_pool \<Rightarrow> db_sys" where
  "new_db_sys p = \<lparr>ds_pool = p, ds_producer = P_ready, ds_borrowers = \<lambda>_. B_idle\<rparr>"

text \<open>\<open>notify_all\<close> on the borrowers and on the producer.\<close>

definition wake_borrowers :: "db_sys \<Rightarrow> db_sys" where
  "wake_borrowers s =
     s\<lparr>ds_borrowers := \<lambda>b. if ds_borrowers s b = B_waiting then B_ready else ds_borrowers s b\<rparr>"

definition wake_producer :: "db_sys \<Rightarrow> db_sys" where
  "wake_producer s = s\<lparr>ds_producer := P_ready\<rparr>"

definition produce_turn :: "real_connect \<Rightarrow> int \<Rightarrow> db_sys \<Rightarrow> db_sys" where
  "produce_turn rc now s =
     (if to_size (dp_minSize (ds_pool s)) \<le> length (dp_connQueue (ds_pool s))
      then s\<lparr>ds_producer := P_waiting\<rparr>
      else wake_borrowers (s\<lparr>ds_pool := addConnection rc now (ds_pool s)\<rparr>))"

definition set_borrower :: "nat \<Rightarrow> borrower \<Rightarrow> db_sys \<Rightarrow> db_sys" where
  "set_borrower b st s = s\<lparr>ds_borrowers := (ds_borrowers s)(b := st)\<rparr>"

definition getConnection_turn :: "nat \<Rightarrow> db_sys \<Rightarrow> db_sys" where
  "getConnection_turn b s =
     (case dp_connQueue (ds_pool s) of
        [] \<Rightarrow> set_borrower b B_waiting s
      | a # q \<Rightarrow> wake_producer (set_borrower b (B_has a) (s\<lparr>ds_pool := (ds_pool s)\<lparr>dp_connQueue := q\<rparr>\<rparr>)))"

text \<open>The deleter of the shared pointer.\<close>

definition give_back :: "int \<Rightarrow> nat \<Rightarrow> nat \<Rightarrow> db_sys \<Rightarrow> db_sys" where
  "give_back now b a s =
     set_borrower b B_idle
       (s\<lparr>ds_pool := (ds_pool s)\<lparr>dp_heap := (dp_heap (ds_pool s))(a := map_option (refreshAliveTime now) (dp_heap (ds_pool s) a)),
            dp_connQueue := dp_connQueue (ds_pool s) @ [a]\<rparr>\<rparr>)"

definition use_conn :: "nat \<Rightarrow> query_result \<Rightarrow> db_sys \<Rightarrow> db_sys" where
  "use_conn a q s =
     s\<lparr>ds_pool := (ds_pool s)\<lparr>dp_heap := (dp_heap (ds_pool s))(a := map_option (\<lambda>c. snd (query q c)) (dp_heap (ds_pool s) a))\<rparr>\<rparr>"

inductive db_step :: "real_connect \<Rightarrow> db_sys \<Rightarrow> db_sys \<Rightarrow> bool" for rc where
  produce: "ds_producer s = P_ready \<Longrightarrow> db_step rc s (produce_turn rc now s)"
| producer_wakes: "ds_producer s = P_waiting \<Longrightarrow> db_step rc s (wake_producer s)"
| recycle: "db_step rc s (s\<lparr>ds_pool := resycle now (ds_pool s)\<rparr>)"
| ask: "ds_borrowers s b = B_idle \<Longrightarrow> db_step rc s (set_borrower b B_ready s)"
| take: "ds_borrowers s b = B_ready \<Longrightarrow> db_step rc s (getConnection_turn b s)"
| wait_over: "ds_borrowers s b = B_waiting \<Longrightarrow> db_step rc s (set_borrower b B_ready s)"
| use: "ds_borrowers s b = B_has a \<Longrightarrow> db_step rc s (use_conn a q s)"
| give: "ds_borrowers s b = B_has a \<Longrightarrow> db_step rc s (give_back now b a s)"

abbreviation db_run :: "real_connect \<Rightarrow> db_sys \<Rightarrow> db_sys \<Rightarrow> bool" where
  "db_run rc \<equiv> (db_step rc)\<^sup>*\<^sup>*"

inductive_cases db_stepE: "db_step rc s s'"

section \<open>Facts\<close>

definition db_ok :: "db_sys \<Rightarrow> bool" where
  "db_ok s \<longleftrightarrow>
     distinct (dp_connQueue (ds_pool s)) \<and> set (dp_connQueue (ds_pool s)) \<subseteq> dom (dp_heap (ds_pool s)) \<and>
     (\<forall>b a. ds_borrowers s b = B_has a \<longrightarrow> a \<in> dom (dp_heap (ds_pool s)) \<and> a \<notin> set (dp_connQueue (ds_pool s))) \<and>
     (\<forall>b c a. ds_borrowers s b = B_has a \<and> ds_borrowers s c = B_has a \<longrightarrow> b = c) \<and>
     (\<forall>a \<in> dom (dp_heap (ds_pool s)). a < dp_next (ds_pool s))"

lemma waked_has [simp]: "ds_borrowers (wake_borrowers s) b = B_has a \<longleftrightarrow> ds_borrowers s b = B_has a"
  by (simp add: wake_borrowers_def)

lemma waked_pool [simp]:
  "ds_pool (wake_borrowers s) = ds_pool s" "ds_pool (wake_producer s) = ds_pool s"
  "ds_borrowers (wake_producer s) = ds_borrowers s" "ds_producer (wake_producer s) = P_ready"
  "ds_producer (wake_borrowers s) = ds_producer s"
  by (simp_all add: wake_borrowers_def wake_producer_def)

lemma set_borrower_simps [simp]:
  "ds_pool (set_borrower b st s) = ds_pool s" "ds_producer (set_borrower b st s) = ds_producer s"
  "ds_borrowers (set_borrower b st s) = (ds_borrowers s)(b := st)"
  by (simp_all add: set_borrower_def)

text \<open>What recycling does: the oldest that have idled too long, and only down to the maximum.\<close>

definition idle_long :: "int \<Rightarrow> db_pool \<Rightarrow> nat \<Rightarrow> bool" where
  "idle_long now p a \<longleftrightarrow> dp_maxIdleTime p < getAliveTime now (the (dp_heap p a))"

lemma resycle_stops:
  "\<not> (to_size (dp_maxSize p) < length (dp_connQueue p) \<and> idle_long now p (hd (dp_connQueue p))) \<Longrightarrow> resycle now p = p"
  by (subst resycle.simps) (auto simp: idle_long_def split: list.splits)

lemma resycle_step:
  "dp_connQueue p = a # q \<Longrightarrow> to_size (dp_maxSize p) < length (a # q) \<Longrightarrow> idle_long now p a \<Longrightarrow>
     resycle now p = resycle now (p\<lparr>dp_connQueue := q, dp_heap := (dp_heap p)(a := None)\<rparr>)"
  by (subst resycle.simps) (simp add: idle_long_def)

definition recycled :: "int \<Rightarrow> db_pool \<Rightarrow> nat" where
  "recycled now p = min (length (dp_connQueue p) - to_size (dp_maxSize p)) (length (takeWhile (idle_long now p) (dp_connQueue p)))"

lemma resycle_drops:
  "distinct (dp_connQueue p) \<Longrightarrow>
     resycle now p = p\<lparr>dp_connQueue := drop (recycled now p) (dp_connQueue p),
       dp_heap := dp_heap p |` (- set (take (recycled now p) (dp_connQueue p)))\<rparr>"
proof (induction "dp_connQueue p" arbitrary: p)
  case Nil
  then show ?case by (simp add: resycle_stops recycled_def)
next
  case (Cons a q)
  note q = Cons.hyps(2) [symmetric]
  show ?case
  proof (cases "to_size (dp_maxSize p) < length (dp_connQueue p) \<and> idle_long now p a")
    case True
    let ?p = "p\<lparr>dp_connQueue := q, dp_heap := (dp_heap p)(a := None)\<rparr>"
    have "idle_long now ?p b = idle_long now p b" if "b \<in> set q" for b
      using that Cons.prems q by (auto simp: idle_long_def)
    then have t: "takeWhile (idle_long now ?p) q = takeWhile (idle_long now p) q" by (intro takeWhile_cong) auto
    have r: "recycled now p = Suc (recycled now ?p)"
      using True by (auto simp: recycled_def q t)
    have "resycle now p = resycle now ?p"
      using True q by (intro resycle_step) simp_all
    also have "\<dots> = ?p\<lparr>dp_connQueue := drop (recycled now ?p) q,
        dp_heap := dp_heap ?p |` (- set (take (recycled now ?p) q))\<rparr>"
      using Cons.hyps(1) [of ?p] Cons.prems q by simp
    finally show ?thesis
      by (simp add: r q) (simp add: fun_eq_iff restrict_map_def)
  next
    case False
    then have "recycled now p = 0" by (auto simp: recycled_def q)
    moreover have "resycle now p = p" using False q by (intro resycle_stops) simp
    ultimately show ?thesis by (simp add: restrict_map_def)
  qed
qed

lemma db_ok_produce: "db_ok s \<Longrightarrow> db_ok (produce_turn rc now s)"
  unfolding db_ok_def produce_turn_def addConnection_def
  by (simp add: ball_Un) (fastforce simp: less_Suc_eq)

lemma db_ok_take: "db_ok s \<Longrightarrow> db_ok (getConnection_turn b s)"
  unfolding db_ok_def getConnection_turn_def by (auto split: list.splits if_splits) blast+

lemma db_ok_give: "db_ok s \<Longrightarrow> ds_borrowers s b = B_has a \<Longrightarrow> db_ok (give_back now b a s)"
  unfolding db_ok_def give_back_def by (auto split: if_splits)

lemma db_ok_use: "db_ok s \<Longrightarrow> ds_borrowers s b = B_has a \<Longrightarrow> db_ok (use_conn a q s)"
  unfolding db_ok_def use_conn_def by (auto split: if_splits)

lemma db_ok_resycle: "db_ok s \<Longrightarrow> db_ok (s\<lparr>ds_pool := resycle now (ds_pool s)\<rparr>)"
proof -
  assume ok: "db_ok s"
  let ?p = "ds_pool s" let ?n = "recycled now ?p"
  have d: "distinct (dp_connQueue ?p)" using ok by (simp add: db_ok_def)
  then have "set (take ?n (dp_connQueue ?p)) \<inter> set (drop ?n (dp_connQueue ?p)) = {}"
    by (rule set_take_disj_set_drop_if_distinct) simp
  with ok d show ?thesis
    unfolding db_ok_def resycle_drops [OF d]
    by simp (meson Compl_iff disjoint_iff in_set_dropD in_set_takeD subset_eq IntI)
qed

lemma db_ok_step: "db_step rc s s' \<Longrightarrow> db_ok s \<Longrightarrow> db_ok s'"
proof (induction rule: db_step.induct)
  case (ask s b)
  then show ?case by (auto simp: db_ok_def split: if_splits)
next
  case (wait_over s b)
  then show ?case by (auto simp: db_ok_def split: if_splits)
next
  case (producer_wakes s)
  then show ?case by (simp add: db_ok_def)
qed (simp_all add: db_ok_produce db_ok_take db_ok_give db_ok_use db_ok_resycle)

interpretation db: invariant_system "db_step rc" db_ok for rc
  by unfold_locales (rule db_ok_step)

lemma add_connections_queue:
  "dp_connQueue p = [] \<Longrightarrow> dp_heap p = Map.empty \<Longrightarrow> dp_next p = 0 \<Longrightarrow>
     dp_connQueue (add_connections rc clk n p) = [0 ..< dp_next (add_connections rc clk n p)] \<and>
     dom (dp_heap (add_connections rc clk n p)) = {..< dp_next (add_connections rc clk n p)}"
  by (induction n) (auto simp: addConnection_def)

lemma parsed_empty: "parseJsonFile e empty_pool = Parse_true p \<Longrightarrow>
    dp_connQueue p = [] \<and> dp_heap p = Map.empty \<and> dp_next p = 0"
  by (auto simp: parseJsonFile_def read_settings_def empty_pool_def bind_eq_Some_conv Let_def
      split: option.splits if_splits)

lemma new_pool_ok:
  assumes "new_pool e rc clk = Started p"
  shows "db_ok (new_db_sys p)"
proof -
  obtain p0 where p0: "parseJsonFile e empty_pool = Parse_true p0" "p = add_connections rc clk (nat (dp_minSize p0)) p0"
    using assms by (auto simp: new_pool_def split: config_end.splits)
  with parsed_empty [OF p0(1)] add_connections_queue [of p0 rc clk "nat (dp_minSize p0)"]
  have "dp_connQueue p = [0 ..< dp_next p]" "dom (dp_heap p) = {..< dp_next p}" by auto
  then show ?thesis by (auto simp: db_ok_def new_db_sys_def)
qed

section \<open>Properties\<close>

text \<open>
  C22: connections are not shared: whatever the producer, the recycler and the borrowers do and
  in whatever order, a connection is never with two borrowers, never with a borrower and in the
  queue, and never twice in the queue; and none that is queued or lent has been deleted.
\<close>

theorem db_connections_exclusive:
  assumes "new_pool e rc clk = Started p" and "db_run rc (new_db_sys p) s"
  shows "distinct (dp_connQueue (ds_pool s)) \<and> set (dp_connQueue (ds_pool s)) \<subseteq> dom (dp_heap (ds_pool s)) \<and>
    (\<forall>b c a. ds_borrowers s b = B_has a \<and> ds_borrowers s c = B_has a \<longrightarrow> b = c) \<and>
    (\<forall>b a. ds_borrowers s b = B_has a \<longrightarrow> a \<notin> set (dp_connQueue (ds_pool s)) \<and> a \<in> dom (dp_heap (ds_pool s)))"
  using db.always [OF assms(2) new_pool_ok [OF assms(1)]] unfolding db_ok_def by blast

definition demo_json_env :: json_env where
  "demo_json_env = \<lparr>je_exe = Some ''/srv/build/bin/nginx'',
     je_exists = (\<lambda>f. f = ''/srv/build/config/mysql.json'' \<or> f = ''/srv/build/config''),
     je_is_directory = (\<lambda>f. f = ''/srv/build/config''), je_current_path = ''/'',
     je_open = (\<lambda>f. if f = ''/srv/build/config/mysql.json'' then Some ''{}'' else None),
     je_parse = (\<lambda>_. Some [''ip'' \<mapsto> J_string ''10.0.0.7'', ''port'' \<mapsto> J_number 3307, ''username'' \<mapsto> J_string ''u'',
       ''password'' \<mapsto> J_string ''p'', ''dbname'' \<mapsto> J_string ''d'', ''maxSize'' \<mapsto> J_number 2, ''minSize'' \<mapsto> J_number 1,
       ''maxIdleTime'' \<mapsto> J_number 5, ''timeout'' \<mapsto> J_number 1])\<rparr>"

lemma demo_pool: "\<exists>p. new_pool demo_json_env (\<lambda>_ _ _ _ _. True) (\<lambda>_. 0) = Started p \<and> dp_minSize p = 1 \<and> dp_maxSize p = 2"
proof -
  have "parent_path (parent_path ''/srv/build/bin/nginx'') = ''/srv/build''"
    "path_append ''/srv/build'' ''config'' = ''/srv/build/config''"
    "path_append ''/srv/build/config'' ''mysql.json'' = ''/srv/build/config/mysql.json''"
    by code_simp+
  then show ?thesis
    by (simp add: new_pool_def parseJsonFile_def demo_json_env_def read_settings_def at_string_def at_int_def
        to_int32_def addConnection_def connect_def numeral_eq_Suc)
qed

theorem db_connections_exclusive_witness:
  "\<exists>p. new_pool demo_json_env (\<lambda>_ _ _ _ _. True) (\<lambda>_. 0) = Started p \<and>
     distinct (dp_connQueue (ds_pool (set_borrower 4 B_ready (new_db_sys p))))"
proof -
  obtain p where p: "new_pool demo_json_env (\<lambda>_ _ _ _ _. True) (\<lambda>_. 0) = Started p" using demo_pool by blast
  have "db_run (\<lambda>_ _ _ _ _. True) (new_db_sys p) (set_borrower 4 B_ready (new_db_sys p))"
    by (rule run_more [OF run_start]) (rule db_step.ask, simp add: new_db_sys_def)
  from db_connections_exclusive [OF p this] p show ?thesis by blast
qed

text \<open>One more borrower can always be served, because the producer goes on making connections.\<close>

definition open_handed :: "db_sys \<Rightarrow> bool" where
  "open_handed s \<longleftrightarrow> ds_producer s = P_ready \<and> 0 < to_size (dp_minSize (ds_pool s))"

lemma produce_when_empty:
  assumes "\<forall>a b c d p. rc a b c d p" and "open_handed s"
  shows "\<exists>s'. db_run rc s s' \<and> open_handed s' \<and> dp_connQueue (ds_pool s') \<noteq> [] \<and>
    (\<forall>b a. (ds_borrowers s' b = B_idle) = (ds_borrowers s b = B_idle) \<and>
       (ds_borrowers s' b = B_has a) = (ds_borrowers s b = B_has a)) \<and>
    dp_maxSize (ds_pool s') = dp_maxSize (ds_pool s)"
proof (cases "dp_connQueue (ds_pool s)")
  case Nil
  have "db_run rc s (produce_turn rc 0 s)"
    using assms(2) by (intro run_more [OF run_start] db_step.produce) (simp add: open_handed_def)
  moreover have "produce_turn rc 0 s = wake_borrowers (s\<lparr>ds_pool := addConnection rc 0 (ds_pool s)\<rparr>)"
    using assms(2) Nil by (simp add: produce_turn_def open_handed_def)
  ultimately show ?thesis using assms
    by (intro exI [of _ "produce_turn rc 0 s"])
      (simp add: addConnection_def connect_def open_handed_def, simp add: wake_borrowers_def)
next
  case Cons
  then show ?thesis using assms(2) by (intro exI [of _ s]) auto
qed

lemma serve_one:
  assumes "\<forall>a b c d p. rc a b c d p" and "open_handed s" and "ds_borrowers s b = B_idle"
  shows "\<exists>s' a. db_run rc s s' \<and> open_handed s' \<and> ds_borrowers s' b = B_has a \<and>
    (\<forall>c d. c \<noteq> b \<longrightarrow> (ds_borrowers s' c = B_idle) = (ds_borrowers s c = B_idle) \<and>
       (ds_borrowers s' c = B_has d) = (ds_borrowers s c = B_has d)) \<and>
    dp_maxSize (ds_pool s') = dp_maxSize (ds_pool s)"
proof -
  obtain t where t: "db_run rc s t" "open_handed t" "dp_connQueue (ds_pool t) \<noteq> []"
      "\<forall>b a. (ds_borrowers t b = B_idle) = (ds_borrowers s b = B_idle) \<and>
         (ds_borrowers t b = B_has a) = (ds_borrowers s b = B_has a)"
      "dp_maxSize (ds_pool t) = dp_maxSize (ds_pool s)"
    using produce_when_empty [OF assms(1,2)] by blast
  let ?u = "set_borrower b B_ready t" let ?v = "getConnection_turn b ?u"
  have "ds_borrowers t b = B_idle" using t(4) assms(3) by simp
  then have "db_run rc t ?u" by (intro run_more [OF run_start] db_step.ask)
  then have "db_run rc t ?v" by (rule run_more) (rule db_step.take, simp)
  moreover obtain a q where "dp_connQueue (ds_pool t) = a # q" using t(3) by (cases "dp_connQueue (ds_pool t)") auto
  ultimately show ?thesis
    using t run_trans [OF t(1)] by (intro exI [of _ ?v] exI [of _ a]) (auto simp: getConnection_turn_def open_handed_def)
qed

text \<open>
  The pool has no upper bound: \<open>maxSize\<close> only limits the connections that lie idle in the
  queue. However small it is, where the data base accepts connections and \<open>minSize\<close> is
  positive, any number of borrowers can hold a connection of their own at the same time.
\<close>

theorem db_pool_unbounded:
  assumes "new_pool e rc clk = Started p" and "0 < to_size (dp_minSize p)"
    and "\<forall>a b c d q. rc a b c d q"
  shows "\<exists>s. db_run rc (new_db_sys p) s \<and> (\<forall>b < n. \<exists>a. ds_borrowers s b = B_has a) \<and>
    n \<le> card (dom (dp_heap (ds_pool s))) \<and> dp_maxSize (ds_pool s) = dp_maxSize p"
proof -
  have "\<exists>s. db_run rc (new_db_sys p) s \<and> open_handed s \<and> (\<forall>b < n. \<exists>a. ds_borrowers s b = B_has a) \<and>
      (\<forall>b \<ge> n. ds_borrowers s b = B_idle) \<and> dp_maxSize (ds_pool s) = dp_maxSize p"
  proof (induction n)
    case 0
    show ?case by (rule exI [of _ "new_db_sys p"]) (use assms(2) in \<open>simp add: new_db_sys_def open_handed_def\<close>)
  next
    case (Suc n)
    then obtain s where s: "db_run rc (new_db_sys p) s" "open_handed s" "\<forall>b < n. \<exists>a. ds_borrowers s b = B_has a"
        "\<forall>b \<ge> n. ds_borrowers s b = B_idle" "dp_maxSize (ds_pool s) = dp_maxSize p" by blast
    obtain s' a where s': "db_run rc s s'" "open_handed s'" "ds_borrowers s' n = B_has a"
        "\<forall>c d. c \<noteq> n \<longrightarrow> (ds_borrowers s' c = B_idle) = (ds_borrowers s c = B_idle) \<and>
           (ds_borrowers s' c = B_has d) = (ds_borrowers s c = B_has d)"
        "dp_maxSize (ds_pool s') = dp_maxSize (ds_pool s)"
      using serve_one [OF assms(3) s(2), of n] s(4) by blast
    have "\<forall>b < Suc n. \<exists>a. ds_borrowers s' b = B_has a" using s(3) s'(3,4) by (metis less_Suc_eq)
    moreover have "\<forall>b \<ge> Suc n. ds_borrowers s' b = B_idle" using s(4) s'(4) by (simp add: Suc_le_eq)
    ultimately show ?case using s' s(1,5) run_trans [OF s(1) s'(1)] by (intro exI [of _ s']) simp
  qed
  then obtain s where s: "db_run rc (new_db_sys p) s" "\<forall>b < n. \<exists>a. ds_borrowers s b = B_has a"
      "dp_maxSize (ds_pool s) = dp_maxSize p" by blast
  then obtain f where f: "\<forall>b < n. ds_borrowers s b = B_has (f b)" by metis
  have ok: "db_ok s" using db.always [OF s(1) new_pool_ok [OF assms(1)]] .
  have "inj_on f {..< n}"
  proof (rule inj_onI)
    fix b c assume "b \<in> {..< n}" "c \<in> {..< n}" "f b = f c"
    then have "ds_borrowers s b = B_has (f b)" "ds_borrowers s c = B_has (f b)" using f by auto
    then show "b = c" using ok unfolding db_ok_def by blast
  qed
  moreover have "f ` {..< n} \<subseteq> dom (dp_heap (ds_pool s))" using f ok unfolding db_ok_def by blast
  moreover have "dom (dp_heap (ds_pool s)) \<subseteq> {..< dp_next (ds_pool s)}" using ok unfolding db_ok_def by blast
  then have "finite (dom (dp_heap (ds_pool s)))" by (rule finite_subset) simp
  ultimately have "n \<le> card (dom (dp_heap (ds_pool s)))"
    using card_mono [of "dom (dp_heap (ds_pool s))" "f ` {..< n}"] by (simp add: card_image)
  with s show ?thesis by blast
qed

theorem db_pool_unbounded_witness:
  "\<exists>s :: db_sys. dp_maxSize (ds_pool s) = 2 \<and> 100 \<le> card (dom (dp_heap (ds_pool s)))"
proof -
  obtain p where p: "new_pool demo_json_env (\<lambda>_ _ _ _ _. True) (\<lambda>_. 0) = Started p" "dp_minSize p = 1" "dp_maxSize p = 2"
    using demo_pool by blast
  from db_pool_unbounded [OF p(1), of 100] p show ?thesis by (auto simp: to_size_def)
qed

text \<open>
  The configured port is never used: connections go to port 3306, whatever \<open>mysql.json\<close>
  says.
\<close>

theorem configured_port_unused:
  "addConnection rc now (p\<lparr>dp_port := port\<rparr>) = (addConnection rc now p)\<lparr>dp_port := port\<rparr>"
  by (simp add: addConnection_def)

end
