(* ===== verification/RedisSession.thy ===== *)
theory RedisSession
  imports Session "HOL-Library.Countable"
begin

text \<open>
  Sessions in Redis: \<open>src/session/RedisSessionStorage.cpp\<close> and \<open>redisClient.cpp\<close>. The
  server and its C client are an argument, \<open>redis\<close>: a command gives a reply, or none when the
  connection is broken, and changes the state of the server. The JSON library is an argument
  too (\<open>json_lib\<close>, with the order in which the code's hash map is iterated). A session is a value here,
  because \<open>load\<close> makes a new object each time; \<open>ss_manager\<close> tells whether the object has a
  manager, whose storage is this one. The documented behaviour the properties rely on is
  \<open>json_ok\<close>, \<open>pairs_ok\<close>, \<open>redis_ok\<close> and \<open>set_accepted\<close>; expiry in the server is the time
  after which \<open>redis_ok\<close> no longer speaks.
\<close>

section \<open>The client\<close>

datatype redis_cmd = Setex string int string | Get string | Del string

datatype redis_reply = Reply_status string | Reply_string string | Reply_nil | Reply_integer int | Reply_error string

type_synonym 'r redis = "redis_cmd \<Rightarrow> 'r \<Rightarrow> redis_reply option \<times> 'r"

definition setex :: "'r redis \<Rightarrow> string \<Rightarrow> string \<Rightarrow> int \<Rightarrow> 'r \<Rightarrow> bool \<times> 'r" where
  "setex redis key value ttl r =
     (case redis (Setex (c_str key) ttl (c_str value)) r of
        (None, r') \<Rightarrow> (False, r')
      | (Some reply, r') \<Rightarrow> ((case reply of Reply_status st \<Rightarrow> c_str st = ''OK'' | _ \<Rightarrow> False), r'))"

definition get :: "'r redis \<Rightarrow> string \<Rightarrow> 'r \<Rightarrow> string \<times> 'r" where
  "get redis key r =
     (case redis (Get (c_str key)) r of
        (Some (Reply_string s), r') \<Rightarrow> (c_str s, r')
      | (_, r') \<Rightarrow> ([], r'))"

definition del :: "'r redis \<Rightarrow> string \<Rightarrow> 'r \<Rightarrow> 'r" where
  "del redis key r = snd (redis (Del (c_str key)) r)"

section \<open>The storage\<close>

datatype json = J_str string | J_int int | J_obj "(string \<times> json) list" | J_any nat

record json_lib =
  jl_write :: "json \<Rightarrow> string"
  jl_parse :: "string \<Rightarrow> json option"
  jl_pairs :: "(string \<rightharpoonup> string) \<Rightarrow> (string \<times> string) list"

definition session_key :: "string \<Rightarrow> string" where
  "session_key sid = ''session:'' @ sid"

definition session_doc :: "json_lib \<Rightarrow> session \<Rightarrow> json" where
  "session_doc j s =
     J_obj [(''sessionId'', J_str (c_str (ss_id s))), (''maxAge'', J_int (ss_maxAge s)),
       (''data'', J_obj (map (\<lambda>(k, v). (c_str k, J_str (c_str v))) (jl_pairs j (ss_data s))))]"

definition save_rd :: "json_lib \<Rightarrow> 'r redis \<Rightarrow> session \<Rightarrow> 'r \<Rightarrow> 'r" where
  "save_rd j redis s r =
     snd (setex redis (session_key (ss_id s)) (c_str (jl_write j (session_doc j s))) (ss_maxAge s) r)"

text \<open>\<open>Session::setValue\<close> on a session whose manager, if it has one, keeps this storage.\<close>

definition setValue_rd :: "json_lib \<Rightarrow> 'r redis \<Rightarrow> string \<Rightarrow> string \<Rightarrow> session \<times> 'r \<Rightarrow> session \<times> 'r" where
  "setValue_rd j redis k v = (\<lambda>(s, r).
     (let s' = s\<lparr>ss_data := (ss_data s)(k \<mapsto> v)\<rparr>
      in (s', if ss_manager s' then save_rd j redis s' r else r)))"

fun load_values :: "json_lib \<Rightarrow> 'r redis \<Rightarrow> (string \<times> json) list \<Rightarrow> session \<times> 'r \<Rightarrow> (session \<times> 'r) option" where
  "load_values j redis [] x = Some x"
| "load_values j redis ((k, J_str v) # ms) x =
     load_values j redis ms (setValue_rd j redis (c_str k) (c_str v) x)"
| "load_values j redis ((k, w) # ms) x = None"

definition read_maxAge :: "(string \<times> json) list \<Rightarrow> int" where
  "read_maxAge ms =
     (case map_of ms ''maxAge'' of
        Some (J_int i) \<Rightarrow> if INT_MIN \<le> i \<and> i \<le> INT_MAX then i else 3600
      | _ \<Rightarrow> 3600)"

text \<open>A failed assertion of the JSON library ends the process.\<close>

datatype load_end = Load_null | Loaded session | Load_aborts

definition load_rd ::
  "json_lib \<Rightarrow> 'r redis \<Rightarrow> bool \<Rightarrow> (nat \<Rightarrow> int) \<Rightarrow> string \<Rightarrow> 'r \<Rightarrow> load_end \<times> 'r" where
  "load_rd j redis mgr clk sid r =
     (let (js, r1) = get redis (session_key sid) r
      in if js = [] then (Load_null, r1)
         else (case jl_parse j (c_str js) of
                 Some (J_obj ms) \<Rightarrow>
                   (let s0 = new_session (clk 0) sid mgr (read_maxAge ms)
                    in case map_of ms ''data'' of
                         None \<Rightarrow> (Loaded (refresh (clk 1) s0), r1)
                       | Some (J_obj ds) \<Rightarrow>
                           (case load_values j redis ds (s0, r1) of
                              None \<Rightarrow> (Load_aborts, r1)
                            | Some (s, r2) \<Rightarrow> (Loaded (refresh (clk 1) s), r2))
                       | Some _ \<Rightarrow> (Load_aborts, r1))
               | _ \<Rightarrow> (Load_null, r1)))"

definition remove_rd :: "'r redis \<Rightarrow> string \<Rightarrow> 'r \<Rightarrow> 'r" where
  "remove_rd redis sid r = del redis (session_key sid) r"

section \<open>What the code relies on\<close>

text \<open>
  Of the JSON library: what it writes is a non-empty text without NUL that it reads back. Of
  a map: its pairs. Of the server: a value that was set with a positive time to live, and
  answered with OK, is what the next GET of its key gives, and GET changes nothing.
\<close>

definition json_ok :: "json_lib \<Rightarrow> bool" where
  "json_ok j \<longleftrightarrow> (\<forall>d. jl_parse j (jl_write j d) = Some d \<and> jl_write j d \<noteq> [] \<and> CHR 0x00 \<notin> set (jl_write j d))"

definition pairs_ok :: "json_lib \<Rightarrow> (string \<rightharpoonup> string) \<Rightarrow> bool" where
  "pairs_ok j m \<longleftrightarrow> map_of (jl_pairs j m) = m \<and> distinct (map fst (jl_pairs j m)) \<and>
     (\<forall>(k, v) \<in> set (jl_pairs j m). CHR 0x00 \<notin> set k \<and> CHR 0x00 \<notin> set v)"

definition redis_ok :: "'r redis \<Rightarrow> bool" where
  "redis_ok redis \<longleftrightarrow>
     (\<forall>k ttl v r r'. 0 < ttl \<and> redis (Setex k ttl v) r = (Some (Reply_status ''OK''), r') \<longrightarrow>
        fst (redis (Get k) r') = Some (Reply_string v)) \<and>
     (\<forall>k r. snd (redis (Get k) r) = r)"

section \<open>Facts\<close>

lemma c_str_id: "CHR 0x00 \<notin> set s \<Longrightarrow> c_str s = s"
  by (auto simp: c_str_def takeWhile_eq_all_conv)

lemma load_values_data:
  "\<forall>(k, v) \<in> set kvs. CHR 0x00 \<notin> set k \<and> CHR 0x00 \<notin> set v \<Longrightarrow>
     \<exists>r'. load_values j redis (map (\<lambda>(k, v). (k, J_str v)) kvs) (s, r) = Some (s\<lparr>ss_data := ss_data s ++ map_of (rev kvs)\<rparr>, r')"
proof (induction kvs arbitrary: s r)
  case (Cons kv kvs)
  obtain k v where kv: "kv = (k, v)" by (cases kv)
  have ok: "\<forall>(k, v) \<in> set kvs. CHR 0x00 \<notin> set k \<and> CHR 0x00 \<notin> set v" using Cons.prems by simp
  let ?s = "s\<lparr>ss_data := (ss_data s)(k \<mapsto> v)\<rparr>"
  have "setValue_rd j redis (c_str k) (c_str v) (s, r) =
      (?s, if ss_manager s then save_rd j redis ?s r else r)"
    using Cons.prems kv by (simp add: setValue_rd_def c_str_id Let_def)
  moreover obtain r' where "load_values j redis (map (\<lambda>(k, v). (k, J_str v)) kvs)
      (?s, if ss_manager s then save_rd j redis ?s r else r) = Some (?s\<lparr>ss_data := ss_data ?s ++ map_of (rev kvs)\<rparr>, r')"
    using Cons.IH [OF ok, of ?s "if ss_manager s then save_rd j redis ?s r else r"] by blast
  moreover have "?s\<lparr>ss_data := ss_data ?s ++ map_of (rev kvs)\<rparr> = s\<lparr>ss_data := ss_data s ++ map_of (rev (kv # kvs))\<rparr>"
    by (simp add: kv map_add_upd_left map_add_assoc)
  ultimately show ?case by (simp only: kv list.map prod.case load_values.simps) blast
qed simp

lemma map_of_rev: "distinct (map fst kvs) \<Longrightarrow> map_of (rev kvs) = map_of kvs"
  by (subst map_of_inject_set) (simp_all add: rev_map [symmetric])

lemma session_doc_parsed:
  assumes "json_ok j" and "pairs_ok j (ss_data s)"
  shows "jl_parse j (c_str (jl_write j (session_doc j s))) =
      Some (J_obj [(''sessionId'', J_str (c_str (ss_id s))), (''maxAge'', J_int (ss_maxAge s)),
         (''data'', J_obj (map (\<lambda>(k, v). (k, J_str v)) (jl_pairs j (ss_data s))))])"
    and "c_str (jl_write j (session_doc j s)) = jl_write j (session_doc j s)" and "jl_write j (session_doc j s) \<noteq> []"
proof -
  have "map (\<lambda>(k, v). (c_str k, J_str (c_str v))) (jl_pairs j (ss_data s)) =
      map (\<lambda>(k, v). (k, J_str v)) (jl_pairs j (ss_data s))"
    using assms(2) by (auto simp: pairs_ok_def c_str_id)
  with assms(1) show "jl_parse j (c_str (jl_write j (session_doc j s))) =
      Some (J_obj [(''sessionId'', J_str (c_str (ss_id s))), (''maxAge'', J_int (ss_maxAge s)),
         (''data'', J_obj (map (\<lambda>(k, v). (k, J_str v)) (jl_pairs j (ss_data s))))])"
    by (simp add: json_ok_def c_str_id session_doc_def)
qed (use assms(1) in \<open>simp_all add: json_ok_def c_str_id\<close>)

text \<open>A save that the server answers with OK: what the server then has under the key.\<close>

definition stored :: "json_lib \<Rightarrow> 'r redis \<Rightarrow> session \<Rightarrow> 'r \<Rightarrow> bool" where
  "stored j redis s r \<longleftrightarrow>
     fst (redis (Get (c_str (session_key (ss_id s)))) r) = Some (Reply_string (jl_write j (session_doc j s)))"

definition set_accepted :: "'r redis \<Rightarrow> bool" where
  "set_accepted redis \<longleftrightarrow> (\<forall>k ttl v r. 0 < ttl \<longrightarrow> fst (redis (Setex k ttl v) r) = Some (Reply_status ''OK''))"

lemma save_stores:
  assumes "redis_ok redis" and "set_accepted redis" and "json_ok j" and "0 < ss_maxAge s"
  shows "stored j redis s (save_rd j redis s r)"
proof -
  let ?k = "c_str (session_key (ss_id s))" and ?v = "jl_write j (session_doc j s)"
  have "c_str ?v = ?v" "c_str (c_str ?v) = ?v" using assms(3) by (simp_all add: json_ok_def c_str_id)
  moreover obtain r' where "redis (Setex ?k (ss_maxAge s) ?v) r = (Some (Reply_status ''OK''), r')"
    using assms(2,4) by (metis prod.collapse set_accepted_def)
  ultimately show ?thesis
    using assms(1,4) by (simp add: stored_def save_rd_def setex_def redis_ok_def)
qed

lemma stored_loaded:
  assumes "json_ok j" and "pairs_ok j (ss_data s)" and "stored j redis s r"
    and "0 < ss_maxAge s" and "ss_maxAge s \<le> INT_MAX"
  shows "fst (load_rd j redis mgr clk (ss_id s) r) =
    Loaded \<lparr>ss_id = ss_id s, ss_data = ss_data s, ss_expiry = clk 1 + ss_maxAge s * second,
      ss_maxAge = ss_maxAge s, ss_manager = mgr\<rparr>"
proof -
  let ?s0 = "new_session (clk 0) (ss_id s) mgr (ss_maxAge s)"
  note doc = session_doc_parsed [OF assms(1,2)]
  obtain r1 where "redis (Get (c_str (session_key (ss_id s)))) r = (Some (Reply_string (jl_write j (session_doc j s))), r1)"
    using assms(3) by (metis prod.collapse stored_def)
  then have g: "get redis (session_key (ss_id s)) r = (jl_write j (session_doc j s), r1)"
    using doc(2) by (simp add: get_def)
  have "INT_MIN \<le> ss_maxAge s" using assms(4) by simp
  then have age: "read_maxAge [(''sessionId'', J_str (c_str (ss_id s))), (''maxAge'', J_int (ss_maxAge s)), d] = ss_maxAge s" for d
    using assms(5) by (simp add: read_maxAge_def)
  obtain r2 where "load_values j redis (map (\<lambda>(k, v). (k, J_str v)) (jl_pairs j (ss_data s))) (?s0, r1) =
      Some (?s0\<lparr>ss_data := ss_data ?s0 ++ map_of (rev (jl_pairs j (ss_data s)))\<rparr>, r2)"
    using load_values_data assms(2) unfolding pairs_ok_def by metis
  moreover have "map_of (rev (jl_pairs j (ss_data s))) = ss_data s"
    using assms(2) by (simp add: pairs_ok_def map_of_rev)
  ultimately show ?thesis
    using g doc age by (simp add: load_rd_def Let_def refresh_def new_session_def)
qed

section \<open>Properties\<close>

text \<open>
  C28: a session that was saved in Redis and has not expired there is loaded with the same
  identifier, the same data and the same age, and its time begins anew.
\<close>

theorem redis_session_roundtrip:
  assumes "json_ok j" and "pairs_ok j (ss_data s)" and "redis_ok redis" and "set_accepted redis"
    and "0 < ss_maxAge s" and "ss_maxAge s \<le> INT_MAX"
  shows "fst (load_rd j redis mgr clk (ss_id s) (save_rd j redis s r)) =
    Loaded \<lparr>ss_id = ss_id s, ss_data = ss_data s, ss_expiry = clk 1 + ss_maxAge s * second,
      ss_maxAge = ss_maxAge s, ss_manager = mgr\<rparr>"
  using stored_loaded [OF assms(1,2) save_stores [OF assms(3,4,1,5)] assms(5,6)] .

text \<open>A library and a server to try it on: documents as numbers, the keys as a map.\<close>

instance json :: countable
  by countable_datatype

definition demo_json :: json_lib where
  "demo_json = \<lparr>jl_write = (\<lambda>d. dec (to_nat d)), jl_parse = (\<lambda>s. Some (from_nat (digits_val 0 s))),
     jl_pairs = (\<lambda>m. List.map_filter (\<lambda>k. map_option (Pair k) (m k)) [''user'', ''cart''])\<rparr>"

fun demo_redis :: "(string \<rightharpoonup> string) redis" where
  "demo_redis (Setex k ttl v) r = (Some (Reply_status ''OK''), r(k \<mapsto> v))"
| "demo_redis (Get k) r = (Some (case r k of None \<Rightarrow> Reply_nil | Some v \<Rightarrow> Reply_string v), r)"
| "demo_redis (Del k) r = (Some (Reply_integer 1), r(k := None))"

definition demo_session :: session where
  "demo_session = (new_session 0 ''a1'' True 60)\<lparr>ss_data := [''user'' \<mapsto> ''ann'', ''cart'' \<mapsto> ''7'']\<rparr>"

lemma demo_json_ok: "json_ok demo_json"
proof -
  have "CHR 0x00 \<notin> set (dec n)" for n using dec_digits [of n] by (auto simp: is_digit_def ordc_def)
  then show ?thesis by (simp add: json_ok_def demo_json_def digits_val_dec)
qed

lemma demo_redis_ok: "redis_ok demo_redis" "set_accepted demo_redis"
  by (simp_all add: redis_ok_def set_accepted_def)

lemma demo_pairs: "jl_pairs demo_json (ss_data demo_session) = [(''user'', ''ann''), (''cart'', ''7'')]"
  by (simp add: demo_json_def demo_session_def map_filter_def)

lemma demo_pairs_ok: "pairs_ok demo_json (ss_data demo_session)"
  unfolding pairs_ok_def demo_pairs by (simp add: demo_session_def fun_eq_iff)

theorem redis_session_roundtrip_witness:
  "fst (load_rd demo_json demo_redis False (\<lambda>_. 9) ''a1'' (save_rd demo_json demo_redis demo_session Map.empty)) =
    Loaded \<lparr>ss_id = ''a1'', ss_data = [''user'' \<mapsto> ''ann'', ''cart'' \<mapsto> ''7''], ss_expiry = 9 + 60 * second,
      ss_maxAge = 60, ss_manager = False\<rparr>"
  using redis_session_roundtrip [OF demo_json_ok demo_pairs_ok demo_redis_ok, of False "\<lambda>_. 9" Map.empty]
  by (simp add: demo_session_def new_session_def refresh_def)

text \<open>
  Loading a session that has a manager writes to the server what has been read so far, once
  for every value: after the first \<open>n\<close> values the server has a session under the key that
  holds only these: it is what another process gets at that moment, and all that is left if the
  process ends there.
\<close>

theorem redis_load_overwrites:
  assumes "json_ok j" and "pairs_ok j (map_of (take n kvs))" and "redis_ok redis" and "set_accepted redis"
    and "0 < ss_maxAge s" and "ss_maxAge s \<le> INT_MAX" and "ss_manager s" and "ss_data s = Map.empty" and "0 < n" and "n \<le> length kvs"
    and "distinct (map fst kvs)" and "\<forall>(k, v) \<in> set kvs. CHR 0x00 \<notin> set k \<and> CHR 0x00 \<notin> set v"
  shows "\<exists>r'. load_values j redis (take n (map (\<lambda>(k, v). (k, J_str v)) kvs)) (s, r) =
      Some (s\<lparr>ss_data := map_of (take n kvs)\<rparr>, r') \<and>
    fst (load_rd j redis False clk (ss_id s) r') =
      Loaded \<lparr>ss_id = ss_id s, ss_data = map_of (take n kvs), ss_expiry = clk 1 + ss_maxAge s * second,
        ss_maxAge = ss_maxAge s, ss_manager = False\<rparr>"
proof -
  obtain m where n: "n = Suc m" using assms(9) by (cases n) auto
  obtain k v where kv: "kvs ! m = (k, v)" by (cases "kvs ! m")
  have t: "take n kvs = take m kvs @ [(k, v)]" using assms(10) kv n by (simp add: take_Suc_conv_app_nth)
  have nul: "CHR 0x00 \<notin> set k" "CHR 0x00 \<notin> set v"
    using assms(10,12) kv n nth_mem [of m kvs] by fastforce+
  have "\<forall>(k, v) \<in> set (take m kvs). CHR 0x00 \<notin> set k \<and> CHR 0x00 \<notin> set v"
    using assms(12) by (meson in_set_takeD)
  then obtain r1 where r1: "load_values j redis (map (\<lambda>(k, v). (k, J_str v)) (take m kvs)) (s, r) =
      Some (s\<lparr>ss_data := map_of (rev (take m kvs))\<rparr>, r1)"
    using load_values_data [of "take m kvs" j redis s r] assms(8) by auto
  let ?s = "s\<lparr>ss_data := (map_of (rev (take m kvs)))(k \<mapsto> v)\<rparr>"
  have "distinct (map fst (take n kvs))" using assms(11) by (simp add: take_map [symmetric])
  then have d: "(map_of (rev (take m kvs)))(k \<mapsto> v) = map_of (take n kvs)"
    using map_of_rev [of "take n kvs"] t by simp
  have app: "load_values j redis (ms @ [(k, J_str v)]) x =
      Option.bind (load_values j redis ms x) (\<lambda>y. Some (setValue_rd j redis (c_str k) (c_str v) y))" for ms x
    by (induction j redis ms x rule: load_values.induct) auto
  have "load_values j redis (take n (map (\<lambda>(k, v). (k, J_str v)) kvs)) (s, r) = Some (?s, save_rd j redis ?s r1)"
    using r1 nul assms(7) by (simp add: take_map t app setValue_rd_def c_str_id Let_def)
  moreover have "stored j redis ?s (save_rd j redis ?s r1)"
    using assms(1,3-5) by (intro save_stores) simp_all
  then have "fst (load_rd j redis False clk (ss_id ?s) (save_rd j redis ?s r1)) =
      Loaded \<lparr>ss_id = ss_id ?s, ss_data = ss_data ?s, ss_expiry = clk 1 + ss_maxAge ?s * second,
        ss_maxAge = ss_maxAge ?s, ss_manager = False\<rparr>"
    using assms(1,2,5,6) d by (intro stored_loaded) simp_all
  ultimately show ?thesis unfolding d by (intro exI conjI) simp_all
qed

theorem redis_load_overwrites_witness:
  "\<exists>r'. load_values demo_json demo_redis [(''user'', J_str ''ann'')] (demo_session\<lparr>ss_data := Map.empty\<rparr>, Map.empty) =
      Some (demo_session\<lparr>ss_data := [''user'' \<mapsto> ''ann'']\<rparr>, r') \<and>
    fst (load_rd demo_json demo_redis False (\<lambda>_. 9) ''a1'' r') =
      Loaded \<lparr>ss_id = ''a1'', ss_data = [''user'' \<mapsto> ''ann''], ss_expiry = 9 + 60 * second,
        ss_maxAge = 60, ss_manager = False\<rparr>"
proof -
  have "pairs_ok demo_json (map_of (take 1 [(''user'', ''ann''), (''cart'', ''7'')]))"
    by (simp add: pairs_ok_def demo_json_def map_filter_def)
  from redis_load_overwrites [OF demo_json_ok this demo_redis_ok, of "demo_session\<lparr>ss_data := Map.empty\<rparr>" Map.empty "\<lambda>_. 9"]
  show ?thesis by (simp add: demo_session_def new_session_def refresh_def)
qed

end
