(* ===== verification/Worker.thy ===== *)
theory Worker
  imports SendPath DbPool
begin

text \<open>
  The start of a worker: the listening socket, the threads and the statistics of
  \<open>src/net/my_socket.cpp\<close>, the event loop's turn (\<open>src/server/my_event.cpp\<close>) and
  \<open>worker_start\<close>, which puts the calls of \<open>ngx_worker_process_cycle\<close> and
  \<open>ngx_worker_process_init\<close> together: signals, the logic socket with its pool of data base
  connections, the thread pool, the threads of the socket, epoll with the listening socket. The
  results of system calls are arguments (\<open>listen_env\<close>, \<open>worker_start_env\<close>), and that of the thread pool,
  which ThreadPool models. The log lines of \<open>printTDInfo\<close> are the numbers they show.
\<close>

section \<open>The listening socket\<close>

record ngx_listening =
  ls_port :: int
  ls_fd :: int

text \<open>Results of the system calls; \<open>le_bind_ok\<close> is asked with the port in 16 bits.\<close>

record listen_env =
  le_socket :: "int option"
  le_reuseaddr_ok :: bool
  le_reuseport_ok :: bool
  le_ioctl_ok :: bool
  le_bind_ok :: "u16 \<Rightarrow> bool"
  le_listen_ok :: bool

definition setnonblocking :: "listen_env \<Rightarrow> int \<Rightarrow> bool" where
  "setnonblocking e sockfd = le_ioctl_ok e"

text \<open>
  The result, the list of listening sockets and the descriptors the call leaves open. A
  failure of \<open>SO_REUSEPORT\<close> is only logged.
\<close>

definition ngx_open_listening_sockets ::
  "listen_env \<Rightarrow> conf_item list \<Rightarrow> ngx_listening list \<Rightarrow> ngx_listening option \<times> ngx_listening list \<times> int list" where
  "ngx_open_listening_sockets e conf ls =
     (case le_socket e of
        None \<Rightarrow> (None, ls, [])
      | Some isock \<Rightarrow>
          if \<not> le_reuseaddr_ok e then (None, ls, [isock])
          else if \<not> setnonblocking e isock then (None, ls, [])
          else
            (let iport = GetIntDefault ''ListenPort'' 10000 conf
             in if \<not> le_bind_ok e (word_of_int iport) then (None, ls, [])
                else if \<not> le_listen_ok e then (None, ls, [])
                else (let item = \<lparr>ls_port = iport, ls_fd = isock\<rparr> in (Some item, ls @ [item], [isock]))))"

section \<open>The threads of a worker\<close>

datatype service = Send_thread | Recycle_thread | Timer_thread

definition Initialize_subproc :: "bool \<Rightarrow> conf_item list \<Rightarrow> int \<Rightarrow> bool \<times> service list" where
  "Initialize_subproc sem_ok conf ifkickTimeCount =
     (let tmpSendThread = GetIntDefault ''ProcMsgSendWorkThreadCount'' 5 conf
      in if \<not> sem_ok then (False, [])
         else (True, replicate (nat tmpSendThread) Send_thread @ [Recycle_thread] @
                (if ifkickTimeCount = 1 then [Timer_thread] else [])))"

section \<open>Statistics\<close>

record td_info =
  td_online :: int
  td_worker_connections :: int
  td_free :: nat
  td_all :: nat
  td_recycled :: nat
  td_timers :: nat
  td_received :: int
  td_to_send :: int
  td_discarded :: int
  td_warning :: bool

definition printTDInfo :: "int \<Rightarrow> int \<Rightarrow> int \<times> csock \<Rightarrow> td_info option \<times> int" where
  "printTDInfo currtime recvCount = (\<lambda>(lastprintTime, s).
     (if 10 < currtime - lastprintTime
      then (Some \<lparr>td_online = so_onlineUserCount s, td_worker_connections = so_worker_connections s,
              td_free = length (so_freeConnectionList s), td_all = length (so_connectionList s),
              td_recycled = length (so_recyconnectionList s), td_timers = length (tq_map (so_timer s)),
              td_received = recvCount, td_to_send = so_iSendMsgQueueCount s,
              td_discarded = so_iDiscardSendPkgCount s, td_warning = (100000 < recvCount)\<rparr>, currtime)
      else (None, lastprintTime)))"

text \<open>One turn of the event loop of a worker.\<close>

definition ngx_process_events_and_timers ::
  "int \<Rightarrow> int \<Rightarrow> wait_result \<Rightarrow> int \<times> net \<Rightarrow> handled \<times> td_info option \<times> int" where
  "ngx_process_events_and_timers now recvCount r = (\<lambda>(lastprintTime, w).
     (case ngx_epoll_process_events now 5 r w of
        (_, Handled w') \<Rightarrow>
          (case printTDInfo now recvCount (lastprintTime, nt_sock w') of (info, t) \<Rightarrow> (Handled w', info, t))
      | (_, h) \<Rightarrow> (h, None, lastprintTime)))"

section \<open>A worker from its start to its event loop\<close>

record worker_start_env =
  ws_signals_ok :: bool
  ws_json :: json_env
  ws_connect :: real_connect
  ws_clk :: "nat \<Rightarrow> int"
  ws_pool_ok :: bool
  ws_sem_ok :: bool
  ws_epoll_created :: bool
  ws_epoll_mem :: bool
  ws_listen :: listen_env

datatype worker_start_end = Started_worker csock "service list" db_pool | Worker_exits int | Worker_crashes | Worker_hangs

definition worker_start :: "conf_item list \<Rightarrow> worker_start_env \<Rightarrow> csock \<Rightarrow> worker_start_end" where
  "worker_start conf e s =
     (if \<not> ws_signals_ok e then Worker_exits (-1)
      else
        (case new_pool (ws_json e) (ws_connect e) (ws_clk e) of
           Exit_failure \<Rightarrow> Worker_exits 1
         | Start_throws \<Rightarrow> Worker_crashes
         | Started p \<Rightarrow>
             if \<not> ws_pool_ok e then Worker_exits (-2)
             else
               (let s1 = ReadConf conf s
                in case Initialize_subproc (ws_sem_ok e) conf (so_ifkickTimeCount s1) of
                     (False, _) \<Rightarrow> Worker_exits (-2)
                   | (True, services) \<Rightarrow>
                       (case ngx_epoll_init (ws_epoll_created e)
                               (map_option ls_fd (fst (ngx_open_listening_sockets (ws_listen e) conf [])))
                               (ws_epoll_mem e) s1 of
                          Exit_process \<Rightarrow> Worker_exits 2
                        | Null_listening \<Rightarrow> Worker_crashes
                        | Pool_loop \<Rightarrow> Worker_hangs
                        | Worker_ready s2 \<Rightarrow> Started_worker s2 services p))))"

section \<open>Properties\<close>

text \<open>
  Opening the listening socket either succeeds, with the socket on the configured port as
  the one descriptor that is left open, or fails; a failure leaves no descriptor open, but for
  one of \<open>SO_REUSEADDR\<close>, which forgets the socket.
\<close>

theorem listening_descriptors:
  assumes "ngx_open_listening_sockets e conf ls = (r, ls', fds)"
  shows "(case r of
      Some item \<Rightarrow> ls' = ls @ [item] \<and> fds = [ls_fd item] \<and> le_socket e = Some (ls_fd item) \<and>
        ls_port item = GetIntDefault ''ListenPort'' 10000 conf \<and> le_bind_ok e (word_of_int (ls_port item))
    | None \<Rightarrow> ls' = ls \<and> (fds = [] \<or> \<not> le_reuseaddr_ok e))"
  using assms by (auto simp: ngx_open_listening_sockets_def Let_def split: option.splits if_splits)

definition demo_listen :: listen_env where
  "demo_listen = \<lparr>le_socket = Some 7, le_reuseaddr_ok = True, le_reuseport_ok = True, le_ioctl_ok = True,
     le_bind_ok = (\<lambda>p. p = 8080), le_listen_ok = True\<rparr>"

theorem listening_descriptors_witness:
  "ngx_open_listening_sockets demo_listen [(''ListenPort'', ''8080'')] [] =
     (Some \<lparr>ls_port = 8080, ls_fd = 7\<rparr>, [\<lparr>ls_port = 8080, ls_fd = 7\<rparr>], [7])"
proof -
  have p: "GetIntDefault ''ListenPort'' 10000 [(''ListenPort'', ''8080'')] = 8080" by code_simp
  obtain r ls fds where o: "ngx_open_listening_sockets demo_listen [(''ListenPort'', ''8080'')] [] = (r, ls, fds)"
    by (metis prod_cases3)
  then have "r \<noteq> None"
    by (auto simp: ngx_open_listening_sockets_def demo_listen_def setnonblocking_def p Let_def)
  with listening_descriptors [OF o] o p show ?thesis by (auto simp: demo_listen_def)
qed

lemma initconnection_epoll: "so_epoll (initconnection s) = so_epoll s"
proof -
  have "so_epoll (fold (\<lambda>i. add_connection (int i)) is s) = so_epoll s" for "is"
    by (induction "is" arbitrary: s) (simp_all add: add_connection_def Let_def)
  then show ?thesis by (simp add: initconnection_def Let_def)
qed

lemma ReadConf_facts [simp]:
  "so_worker_connections (ReadConf conf s) = GetIntDefault ''worker_connections'' (so_worker_connections s) conf"
  "so_ifkickTimeCount (ReadConf conf s) = GetIntDefault ''Sock_WaitTimeEnable'' 0 conf"
  "so_onlineUserCount (ReadConf conf s) = so_onlineUserCount s" "so_epoll (ReadConf conf s) = so_epoll s"
  "started (ReadConf conf s) = started s"
  by (simp_all add: ReadConf_def Let_def started_def)

lemma listening_upd_ok:
  "pool_ok s \<Longrightarrow> pool_ok (upd_conn a (\<lambda>c. c\<lparr>cn_listening := l, cn_rhandler := h\<rparr>) s)"
  by (rule upd_conn_ok) simp_all

lemma worker_starts:
  assumes "ws_signals_ok e" and "new_pool (ws_json e) (ws_connect e) (ws_clk e) = Started p" and "ws_pool_ok e" and "ws_sem_ok e"
    and "ws_epoll_created e" and "ws_epoll_mem e"
    and "fst (ngx_open_listening_sockets (ws_listen e) conf []) = Some item" and "ls_fd item \<noteq> -1"
    and "started s" and "0 < GetIntDefault ''worker_connections'' (so_worker_connections s) conf"
  shows "\<exists>s2 a. worker_start conf e s = Started_worker s2
        (replicate (nat (GetIntDefault ''ProcMsgSendWorkThreadCount'' 5 conf)) Send_thread @ [Recycle_thread] @
         (if GetIntDefault ''Sock_WaitTimeEnable'' 0 conf = 1 then [Timer_thread] else [])) p \<and>
      pool_ok s2 \<and> so_epoll s2 = [ls_fd item \<mapsto> (EPOLLIN OR EPOLLRDHUP, a)] \<and> in_use a s2 \<and>
      cn_fd (conn a s2) = ls_fd item \<and> cn_rhandler (conn a s2) = Event_accept \<and>
      so_onlineUserCount s2 = so_onlineUserCount s + 1"
proof -
  let ?s1 = "ReadConf conf s"
  have st: "started ?s1" using assms(9) by simp
  have wc: "0 < so_worker_connections ?s1" using assms(10) by simp
  let ?si = "initconnection ?s1"
  have ok: "pool_ok ?si" using st by (rule initconnection_ok)
  have init: "so_worker_connections ?si = so_worker_connections ?s1" "so_epoll ?si = Map.empty"
    "so_onlineUserCount ?si = so_onlineUserCount s"
    using initconnection_users [of ?s1] initconnection_epoll [of ?s1] st by (simp_all add: started_def)
  then obtain a s' where g: "ngx_get_connection (ls_fd item) ?si = Some (a, s')"
    using get_connection_total [of ?si "ls_fd item"] wc by auto
  have h: "pool_ok s'" "in_use a s'" "cn_fd (conn a s') = ls_fd item" "so_epoll s' = Map.empty"
    using get_connection_ok [OF g ok] init by (simp_all add: handed_out_def)
  have users: "so_onlineUserCount s' = so_onlineUserCount s + 1" using get_connection_counts [OF g] init by simp
  have lt: "a < length (so_connectionList s')" using h(2) by (simp add: in_use_def)
  let ?s3 = "upd_conn a (\<lambda>c. c\<lparr>cn_listening := Some (ls_fd item), cn_rhandler := Event_accept\<rparr>) s'"
  let ?s4 = "?s3\<lparr>so_epoll := [ls_fd item \<mapsto> (EPOLLIN OR EPOLLRDHUP, a)]\<rparr>"
  have c: "conn a ?s4 = (conn a s')\<lparr>cn_listening := Some (ls_fd item), cn_rhandler := Event_accept\<rparr>"
    using lt by (simp add: conn_upd conn_def upd_conn_def)
  have op: "ngx_epoll_oper_event True (ls_fd item) EPOLL_CTL_ADD (EPOLLIN OR EPOLLRDHUP) 0 a ?s3 = (True, ?s4)"
    using h(4) by (simp add: ngx_epoll_oper_event_def epoll_ctl_def)
  have "pool_ok (snd (ngx_epoll_oper_event True (ls_fd item) EPOLL_CTL_ADD (EPOLLIN OR EPOLLRDHUP) 0 a ?s3))"
    using h lt assms(8) by (intro oper_event_ok listening_upd_ok) (simp_all add: conn_upd)
  then have ok4: "pool_ok ?s4" unfolding op by simp
  have "ngx_epoll_init True (Some (ls_fd item)) True ?s1 = Worker_ready ?s4"
    using g op by (simp add: ngx_epoll_init_def Let_def)
  then have "worker_start conf e s = Started_worker ?s4
        (replicate (nat (GetIntDefault ''ProcMsgSendWorkThreadCount'' 5 conf)) Send_thread @ [Recycle_thread] @
         (if GetIntDefault ''Sock_WaitTimeEnable'' 0 conf = 1 then [Timer_thread] else [])) p"
    using assms(1-7) by (simp add: worker_start_def Initialize_subproc_def Let_def)
  moreover have "in_use a ?s4" using h(2) by (simp add: in_use_def idle_def)
  ultimately show ?thesis using ok4 c h(3) users by (intro exI [of _ ?s4] exI [of _ a]) simp
qed

text \<open>
  C24: a worker whose calls all succeed reaches its event loop with a sound connection pool, with
  the listening socket registered for reading on a connection whose handler accepts, with the
  configured number of send threads, the recycler and, if it is asked for, the timer thread; the
  listening connection counts as a user.
\<close>

theorem worker_ready:
  assumes "ws_signals_ok e" and "new_pool (ws_json e) (ws_connect e) (ws_clk e) = Started p" and "ws_pool_ok e" and "ws_sem_ok e"
    and "ws_epoll_created e" and "ws_epoll_mem e"
    and "fst (ngx_open_listening_sockets (ws_listen e) conf []) = Some item" and "ls_fd item \<noteq> -1"
    and "started s" and "0 < GetIntDefault ''worker_connections'' (so_worker_connections s) conf"
  shows "\<exists>s2 a. worker_start conf e s = Started_worker s2
        (replicate (nat (GetIntDefault ''ProcMsgSendWorkThreadCount'' 5 conf)) Send_thread @ [Recycle_thread] @
         (if GetIntDefault ''Sock_WaitTimeEnable'' 0 conf = 1 then [Timer_thread] else [])) p \<and>
      pool_ok s2 \<and> so_epoll s2 = [ls_fd item \<mapsto> (EPOLLIN OR EPOLLRDHUP, a)] \<and> in_use a s2 \<and>
      cn_fd (conn a s2) = ls_fd item \<and> cn_rhandler (conn a s2) = Event_accept \<and>
      so_onlineUserCount s2 = so_onlineUserCount s + 1"
  by (rule worker_starts [OF assms])

definition demo_start :: "json_env \<Rightarrow> worker_start_env" where
  "demo_start j = \<lparr>ws_signals_ok = True, ws_json = j, ws_connect = (\<lambda>_ _ _ _ _. True), ws_clk = (\<lambda>_. 0),
     ws_pool_ok = True, ws_sem_ok = True, ws_epoll_created = True, ws_epoll_mem = True, ws_listen = demo_listen\<rparr>"

theorem worker_ready_witness:
  "\<exists>s2 p. worker_start [(''ListenPort'', ''8080''), (''worker_connections'', ''4'')] (demo_start demo_json_env) (fresh_sock 1) =
     Started_worker s2 (replicate 5 Send_thread @ [Recycle_thread]) p"
proof -
  let ?conf = "[(''ListenPort'', ''8080''), (''worker_connections'', ''4'')]"
  obtain p where p: "new_pool demo_json_env (\<lambda>_ _ _ _ _. True) (\<lambda>_. 0) = Started p" using demo_pool by blast
  have n: "GetIntDefault ''ListenPort'' 10000 ?conf = 8080" "GetIntDefault ''worker_connections'' 1 ?conf = 4"
    "GetIntDefault ''ProcMsgSendWorkThreadCount'' 5 ?conf = 5" "GetIntDefault ''Sock_WaitTimeEnable'' 0 ?conf = 0"
    by code_simp+
  have w: "so_worker_connections (fresh_sock 1) = 1" by (simp add: fresh_sock_def)
  have l: "fst (ngx_open_listening_sockets demo_listen ?conf []) = Some \<lparr>ls_port = 8080, ls_fd = 7\<rparr>"
    by (simp add: ngx_open_listening_sockets_def demo_listen_def setnonblocking_def n Let_def)
  show ?thesis
    using worker_ready [of "demo_start demo_json_env" p ?conf "\<lparr>ls_port = 8080, ls_fd = 7\<rparr>" "fresh_sock 1"] p l n w
    by (auto simp: demo_start_def)
qed

text \<open>
  A worker needs the configuration of the data base, whether or not a handler uses it: without
  the file \<open>mysql.json\<close> it ends with status 1 before it serves anything.
\<close>

theorem worker_needs_database:
  assumes "ws_signals_ok e" and "je_exe (ws_json e) = Some exe"
    and "\<not> je_exists (ws_json e) (path_append (path_append (parent_path (parent_path exe)) ''config'') ''mysql.json'')"
  shows "worker_start conf e s = Worker_exits 1"
  using assms by (simp add: worker_start_def new_pool_def parseJsonFile_def Let_def)

theorem worker_needs_database_witness:
  "worker_start [] (demo_start (demo_json_env\<lparr>je_exists := \<lambda>_. False\<rparr>)) (fresh_sock 1) = Worker_exits 1"
  by (rule worker_needs_database [where exe = "''/srv/build/bin/nginx''"]) (simp_all add: demo_start_def demo_json_env_def)

text \<open>
  A worker whose port is taken does not report it: the failed call gives no socket, and the
  worker follows the null pointer.
\<close>

theorem taken_port_crashes:
  assumes "ws_signals_ok e" and "new_pool (ws_json e) (ws_connect e) (ws_clk e) = Started p" and "ws_pool_ok e" and "ws_sem_ok e"
    and "ws_epoll_created e" and "\<not> le_bind_ok (ws_listen e) (word_of_int (GetIntDefault ''ListenPort'' 10000 conf))"
  shows "worker_start conf e s = Worker_crashes"
proof -
  have "fst (ngx_open_listening_sockets (ws_listen e) conf []) = None"
    using assms(6) by (auto simp: ngx_open_listening_sockets_def Let_def split: option.splits)
  then show ?thesis using assms(1-5) by (simp add: worker_start_def Initialize_subproc_def ngx_epoll_init_def Let_def)
qed

theorem taken_port_crashes_witness:
  "worker_start [(''ListenPort'', ''80'')] (demo_start demo_json_env) (fresh_sock 1) = Worker_crashes"
proof -
  have p: "GetIntDefault ''ListenPort'' 10000 [(''ListenPort'', ''80'')] = 80" by code_simp
  obtain q where "new_pool demo_json_env (\<lambda>_ _ _ _ _. True) (\<lambda>_. 0) = Started q" using demo_pool by blast
  with taken_port_crashes [of "demo_start demo_json_env" q "[(''ListenPort'', ''80'')]" "fresh_sock 1"] p
  show ?thesis by (simp add: demo_start_def demo_listen_def)
qed

end
