(* ===== verification/App.thy ===== *)
theory App
  imports Logic Session DbPool
begin

text \<open>
  The program itself, \<open>src/app/demo1.cpp\<close>: its handlers, the routes it registers through the
  interface of \<open>include/server/my_server.h\<close>, its middleware. The printer of the JSON library is an
  argument (\<open>dv_dump\<close>, which throws on text that is not UTF-8), so are the clock, the random
  digits, the order of a directory and the answer of the data base. The files of the
  \<open>video\<close> directory and the pages are part of the state the handlers share. \<open>decode_chunked\<close>
  is how a client reads a chunked body, the reference the video handler is measured by.
\<close>

section \<open>The interface of the server\<close>

definition server_on :: "http_method \<Rightarrow> string \<Rightarrow> 's handler \<Rightarrow> 's logic \<Rightarrow> 's logic" where
  "server_on m p cb l = registCallback m p cb l"

definition server_get :: "string \<Rightarrow> 's handler \<Rightarrow> 's logic \<Rightarrow> 's logic" where
  "server_get p cb = server_on kGet p cb"

definition server_post :: "string \<Rightarrow> 's handler \<Rightarrow> 's logic \<Rightarrow> 's logic" where
  "server_post p cb = server_on kPost p cb"

definition server_put :: "string \<Rightarrow> 's handler \<Rightarrow> 's logic \<Rightarrow> 's logic" where
  "server_put p cb = server_on kPut p cb"

definition server_del :: "string \<Rightarrow> 's handler \<Rightarrow> 's logic \<Rightarrow> 's logic" where
  "server_del p cb = server_on kDelete p cb"

definition server_onRegex :: "std_regex \<Rightarrow> http_method \<Rightarrow> string \<Rightarrow> 's handler \<Rightarrow> 's logic \<Rightarrow> 's logic" where
  "server_onRegex std m p cb l = addRegexCallback_lg std m p cb l"

definition server_getRegex :: "std_regex \<Rightarrow> string \<Rightarrow> 's handler \<Rightarrow> 's logic \<Rightarrow> 's logic" where
  "server_getRegex std p cb = server_onRegex std kGet p cb"

definition server_postRegex :: "std_regex \<Rightarrow> string \<Rightarrow> 's handler \<Rightarrow> 's logic \<Rightarrow> 's logic" where
  "server_postRegex std p cb = server_onRegex std kPost p cb"

section \<open>What the handlers work on\<close>

datatype nl_json = N_str string | N_int int | N_arr "nl_json list" | N_obj "(string \<times> nl_json) list"

datatype video_node = Missing | Directory | Unreadable nat | File bytes

record app_env =
  dv_dump :: "nl_json \<Rightarrow> string + string"
  dv_time :: int
  dv_clk :: "nat \<Rightarrow> int"
  dv_dice :: "nat \<Rightarrow> nat"
  dv_junk :: int
  dv_mkdir :: "string option"
  dv_can_write :: "string \<Rightarrow> bool"
  dv_list :: "(string \<Rightarrow> video_node) \<Rightarrow> string list"
  dv_manager :: bool
  dv_users :: query_result
  dv_regex :: std_regex

record app_world =
  dm_pages :: "string \<rightharpoonup> bytes"
  dm_video_dir :: bool
  dm_videos :: "string \<Rightarrow> video_node"
  dm_sessions :: session_world
  dm_conn :: mysql_conn
  dm_limits :: mw_state

section \<open>Pages\<close>

definition html_type :: string where "html_type = ''text/html; charset=utf-8''"

definition json_type :: string where "json_type = ''application/json; charset=utf-8''"

definition page_handler :: "string \<Rightarrow> app_world handler" where
  "page_handler path req = (\<lambda>(resp, w).
     (let r1 = setContentType html_type (setStatusLine (rq_version req) k200Ok ''OK'' resp)
      in (None,
          (case dm_pages w path of
             Some content \<Rightarrow> setContentLength_rs (of_nat (length content)) (setBody_rs content r1)
           | None \<Rightarrow> setBody_rs ''HTML File Not Found'' (setStatusCode k404NotFound r1)), w)))"

definition hello_handler :: "app_world handler" where
  "hello_handler req = (\<lambda>(resp, w).
     (None, setContentLength_rs 11 (setBody_rs ''hello world''
        (setContentType ''text/plain; charset=utf-8'' (setStatusLine (rq_version req) k200Ok ''OK'' resp))), w))"

definition row_json :: "(string, string) amap \<Rightarrow> nl_json" where
  "row_json obj = N_obj (map (\<lambda>(k, v). (k, N_str v)) obj)"

definition hello_db_handler :: "app_env \<Rightarrow> app_world handler" where
  "hello_db_handler e req = (\<lambda>(resp, w).
     (case query (dv_users e) (dm_conn w) of
        (rows, c) \<Rightarrow>
          (let w' = w\<lparr>dm_conn := c\<rparr>;
               r1 = setContentType ''text/plain; charset=utf-8'' (setStatusLine (rq_version req) k200Ok ''OK'' resp)
           in case dv_dump e (N_arr (map row_json rows)) of
                Inl what \<Rightarrow> (Some (StdException what), r1, w')
              | Inr body \<Rightarrow> (None, setBody_rs body (setContentLength_rs (of_nat (length body)) r1), w'))))"

section \<open>The form\<close>

text \<open>
  \<open>sscanf("%x")\<close> on two characters: without a digit the variable keeps what it had, which
  is \<open>junk\<close>.
\<close>

definition sscanf_hex :: "int \<Rightarrow> string \<Rightarrow> int" where
  "sscanf_hex junk s =
     (let t = dropWhile is_space s;
          neg = (t \<noteq> [] \<and> hd t = CHR ''-'');
          u = (if t \<noteq> [] \<and> (hd t = CHR ''-'' \<or> hd t = CHR ''+'') then tl t else t)
      in if u = [] \<or> hex_digit (hd u) = None then junk
         else if neg then - int (hex_val 0 u) else int (hex_val 0 u))"

fun decode_form :: "int \<Rightarrow> string \<Rightarrow> string" where
  "decode_form junk [] = []"
| "decode_form junk (c # cs) =
     (if c = CHR ''%'' \<and> 2 \<le> length cs then char_of (sscanf_hex junk (take 2 cs)) # decode_form junk (drop 2 cs)
      else if c = CHR ''+'' then CHR '' '' # decode_form junk cs
      else c # decode_form junk cs)"

definition received_ok :: string where
  "received_ok = [CHR 0xE6, CHR 0x95, CHR 0xB0, CHR 0xE6, CHR 0x8D, CHR 0xAE, CHR 0xE6, CHR 0x8E, CHR 0xA5,
     CHR 0xE6, CHR 0x94, CHR 0xB6, CHR 0xE6, CHR 0x88, CHR 0x90, CHR 0xE5, CHR 0x8A, CHR 0x9F]"

definition submit_error :: "app_env \<Rightarrow> string \<Rightarrow> http_response \<Rightarrow> cxx_exn option \<times> http_response" where
  "submit_error e what r =
     (let r1 = setContentType json_type (setStatusCode k400BadRequest r)
      in case dv_dump e (N_obj [(''status'', N_str ''error''), (''error_type'', N_str ''invalid_request''),
                (''message'', N_str what)]) of
           Inl what' \<Rightarrow> (Some (StdException what'), r1)
         | Inr body \<Rightarrow> (None, setContentLength_rs (of_nat (length body)) (setBody_rs body r1)))"

definition submit_response :: "app_env \<Rightarrow> http_request \<Rightarrow> http_response \<Rightarrow> cxx_exn option \<times> http_response" where
  "submit_response e req resp =
     (let r1 = setContentType html_type (setStatusLine (rq_version req) k200Ok ''OK'' resp)
      in case find_sub ''testData='' (rq_content req) of
           None \<Rightarrow> submit_error e ''Invalid form data'' r1
         | Some pos \<Rightarrow>
             (let decoded = decode_form (dv_junk e) (drop (pos + 9) (rq_content req));
                  r2 = setContentType json_type (setStatusCode k200Ok r1)
              in case dv_dump e (N_obj [(''status'', N_str ''success''), (''message'', N_str received_ok),
                        (''input'', N_str decoded), (''length'', N_int (int (length decoded))),
                        (''timestamp'', N_int (dv_time e))]) of
                   Inl what \<Rightarrow> submit_error e what r2
                 | Inr body \<Rightarrow> (None, setContentLength_rs (of_nat (length body)) (setBody_rs body r2))))"

definition submit_handler :: "app_env \<Rightarrow> app_world handler" where
  "submit_handler e req = (\<lambda>(resp, w). case submit_response e req resp of (x, r) \<Rightarrow> (x, r, w))"

section \<open>Uploads\<close>

definition sanitizeFilename_app :: "int \<Rightarrow> string \<Rightarrow> string + string" where
  "sanitizeFilename_app junk rawFilename = sanitizeFilename junk rawFilename"

definition write_video :: "app_env \<Rightarrow> string \<Rightarrow> bytes \<Rightarrow> app_world \<Rightarrow> app_world" where
  "write_video e name body w =
     (if dv_can_write e name then w\<lparr>dm_videos := (dm_videos w)(name := File body)\<rparr> else w)"

definition upload_json :: "app_env \<Rightarrow> app_world \<Rightarrow> nl_json" where
  "upload_json e w = N_obj [(''files'', N_arr (map N_str (dv_list e (dm_videos w)))),
     (''message'', N_str ''Upload success''), (''status'', N_str ''success'')]"

definition upload_handler :: "app_env \<Rightarrow> app_world handler" where
  "upload_handler e req = (\<lambda>(resp, w).
     (let r1 = setStatusLine (rq_version req) k200Ok ''OK'' resp in
      if \<not> dm_video_dir w \<and> dv_mkdir e \<noteq> None then (Some (StdException (the (dv_mkdir e))), r1, w)
      else
        (let w1 = w\<lparr>dm_video_dir := True\<rparr>; fileHeader = rq_fileHeader req in
         if fileHeader = [] then (None, setBody_rs ''Invalid Content-Type'' (setStatusCode k400BadRequest r1), w1)
         else
           (case find_sub (''filename='' @ [CHR 0x22]) fileHeader of
              None \<Rightarrow> (None, setBody_rs ''No video file received'' (setStatusCode k400BadRequest r1), w1)
            | Some namePos \<Rightarrow>
                (let start = namePos + 10;
                     raw = (case find_from [CHR 0x22] fileHeader start of
                              None \<Rightarrow> drop start fileHeader
                            | Some endQuote \<Rightarrow> substr fileHeader start (endQuote - start));
                     saved = (if rq_contentLength req \<le> 1024 * 1024
                              then map_sum id (\<lambda>name. write_video e name (rq_content req) w1)
                                (sanitizeFilename_app (dv_junk e) raw)
                              else Inr w1)
                 in case saved of
                      Inl what \<Rightarrow> (Some (StdException what), r1, w1)
                    | Inr w2 \<Rightarrow>
                        (let r2 = setContentType ''application/json'' (setStatusCode k200Ok r1)
                         in case dv_dump e (upload_json e w2) of
                              Inl what \<Rightarrow> (Some (StdException what), r2, w2)
                            | Inr body \<Rightarrow>
                                (None, setContentLength_rs (of_nat (length body)) (setBody_rs body r2), w2)))))))"

definition getvideos_handler :: "app_env \<Rightarrow> app_world handler" where
  "getvideos_handler e req = (\<lambda>(resp, w).
     (if \<not> dm_video_dir w then (Some (StdException ''directory iterator cannot open directory''), resp, w)
      else
        (let r1 = addHeader_rs ''Access-Control-Allow-Origin'' ''*''
               (setContentType ''application/json'' (setStatusLine (rq_version req) k200Ok ''OK'' resp))
         in case dv_dump e (N_arr (map N_str (dv_list e (dm_videos w)))) of
              Inl what \<Rightarrow> (Some (StdException what), r1, w)
            | Inr body \<Rightarrow> (None, setContentLength_rs (of_nat (length body)) (setBody_rs body r1), w))))"

section \<open>Videos\<close>

text \<open>\<open>std::stoll\<close>.\<close>

definition stoll :: "string \<Rightarrow> string + int" where
  "stoll s =
     (case strtol10 s of
        None \<Rightarrow> Inl ''stoll''
      | Some v \<Rightarrow> if v < - (2 ^ 63) \<or> 2 ^ 63 \<le> v then Inl ''stoll'' else Inr v)"

fun hex_of :: "nat \<Rightarrow> string" where
  "hex_of n = (if n < 16 then [hex_lower n] else hex_of (n div 16) @ [hex_lower (n mod 16)])"

declare hex_of.simps [simp del]

definition CHUNK_SIZE :: nat where "CHUNK_SIZE = 8 * 1024"

definition chunk :: "bytes \<Rightarrow> bytes" where
  "chunk d = hex_of (length d) @ crlf @ d @ crlf"

definition last_chunk :: bytes where "last_chunk = ''0'' @ crlf @ crlf"

function chunked_body :: "bytes \<Rightarrow> bytes" where
  "chunked_body s =
     (if s = [] then last_chunk else chunk (take CHUNK_SIZE s) @ chunked_body (drop CHUNK_SIZE s))"
  by pat_completeness auto
termination by (relation "measure length") (auto simp: CHUNK_SIZE_def)

declare chunked_body.simps [simp del]

text \<open>The range of a \<open>Range\<close> header: no range, an exception of \<open>stoll\<close>, or its two ends.\<close>

definition parse_range :: "string \<Rightarrow> nat \<Rightarrow> (string + int \<times> int) option" where
  "parse_range rangeHeader fileSize =
     (case find_char (CHR ''='') rangeHeader of
        None \<Rightarrow> None
      | Some pos \<Rightarrow>
          (let rangeSpec = drop (Suc pos) rangeHeader
           in case find_char (CHR ''-'') rangeSpec of
                None \<Rightarrow> None
              | Some dashPos \<Rightarrow>
                  Some (case stoll (take dashPos rangeSpec) of
                          Inl what \<Rightarrow> Inl what
                        | Inr start \<Rightarrow>
                            if drop (Suc dashPos) rangeSpec = [] then Inr (start, int fileSize - 1)
                            else map_sum id (Pair start) (stoll (drop (Suc dashPos) rangeSpec)))))"

definition range_response :: "http_request \<Rightarrow> bytes \<Rightarrow> int \<Rightarrow> int \<Rightarrow> http_response \<Rightarrow> http_response" where
  "range_response req content start end resp =
     (if end < start \<or> int (length content) \<le> end mod 2 ^ 64
      then setBody_rs ''Requested Range Not Satisfiable'' (setStatusCode k416RangeNotSatisfiable resp)
      else
        (let contentLength = nat ((end - start + 1) mod 2 ^ 64);
             r1 = setContentType ''video/mp4'' (addHeader_rs ''Transfer-Encoding'' ''chunked''
               (addHeader_rs ''Accept-Ranges'' ''bytes''
                 (addHeader_rs ''Content-Range''
                   (''bytes '' @ dec_int start @ ''-'' @ dec_int end @ ''/'' @ dec (length content))
                   (setStatusLine (rq_version req) k206PartialContent ''Partial Content'' resp))));
             buffer = (if start < 0 then [] else take (min CHUNK_SIZE contentLength) (drop (nat start) content))
         in if buffer = [] then r1 else setBody_rs (chunk buffer @ last_chunk) r1))"

definition whole_response :: "http_request \<Rightarrow> bytes \<Rightarrow> http_response \<Rightarrow> http_response" where
  "whole_response req content resp =
     setBody_rs (chunked_body content)
       (addHeader_rs ''Transfer-Encoding'' ''chunked'' (setContentType ''video/mp4''
         (setStatusLine (rq_version req) k200Ok ''OK'' resp)))"

definition video_handler :: "app_world handler" where
  "video_handler req = (\<lambda>(resp, w).
     (if length (rq_path req) < 7 then (Some (StdException ''basic_string::substr''), resp, w)
      else
        (case dm_videos w (drop 7 (rq_path req)) of
           Missing \<Rightarrow> (None, setBody_rs ''Video not found'' (setStatusCode k404NotFound resp), w)
         | Directory \<Rightarrow> (Some (StdException ''filesystem error: cannot get file size: Is a directory''), resp, w)
         | Unreadable n \<Rightarrow>
             (None, setBody_rs ''Failed to open video file'' (setStatusCode k500InternalServerError resp), w)
         | File content \<Rightarrow>
             (case (if getHeader ''Range'' req = [] then None else parse_range (getHeader ''Range'' req) (length content)) of
                None \<Rightarrow> (None, whole_response req content resp, w)
              | Some (Inl what) \<Rightarrow> (Some (StdException what), resp, w)
              | Some (Inr (start, end)) \<Rightarrow> (None, range_response req content start end resp, w)))))"

section \<open>Counting visits\<close>

definition session_handler :: "app_env \<Rightarrow> app_world handler" where
  "session_handler e req = (\<lambda>(resp, w).
     (if \<not> dv_manager e
      then (None, setContentLength_rs 29 (setBody_rs ''SessionManager not available''
              (setStatusCode k500InternalServerError resp)), w)
      else
        (case getSession (dv_clk e) (dv_dice e) req (resp, dm_sessions w) of
           (a, r1, sw) \<Rightarrow>
             (let visitCount = (case stoi (getValue ''visits'' (deref a sw)) of Inl x \<Rightarrow> 0 | Inr n \<Rightarrow> n);
                  n = to_int32 (visitCount + 1);
                  sw1 = updateSession a (setValue ''visits'' (dec_int n) a sw);
                  w' = w\<lparr>dm_sessions := sw1\<rparr>
              in case dv_dump e (N_obj [(''session_id'', N_str (ss_id (deref a sw1))), (''visits'', N_int n),
                        (''message'', N_str ''Session test successful'')]) of
                   Inl what \<Rightarrow> (Some (StdException what), r1, w')
                 | Inr body \<Rightarrow>
                     (None, setBody_rs body (setContentLength_rs (of_nat (length body))
                        (setContentType json_type (setStatusLine (rq_version req) k200Ok ''OK'' r1))), w')))))"

section \<open>The program\<close>

definition demo_limiter :: "app_world middleware" where
  "demo_limiter =
     \<lparr>mw_before = (\<lambda>(r, s). case mw_before rateLimiter (r, dm_limits s) of (x, r', l) \<Rightarrow> (x, r', s\<lparr>dm_limits := l\<rparr>)),
      mw_after = (\<lambda>(p, s). case mw_after rateLimiter (p, dm_limits s) of (x, p', l) \<Rightarrow> (x, p', s\<lparr>dm_limits := l\<rparr>))\<rparr>"

definition demo_main :: "app_env \<Rightarrow> app_world logic \<Rightarrow> app_world logic" where
  "demo_main e l =
     server_get ''/hello'' hello_handler
       (server_get ''/hello_db'' (hello_db_handler e)
         (server_get ''/test_session'' (session_handler e)
           (addMiddleware_lg (Some demo_limiter)
             (server_getRegex (dv_regex e) ''/video/:filename'' video_handler
               (server_get ''/getvideos'' (getvideos_handler e)
                 (server_post ''/uploadvideo'' (upload_handler e)
                   (server_get ''/gethtml'' (page_handler ''../html/test.html'')
                     (server_post ''/submit'' (submit_handler e)
                       (server_get ''/getposthtml'' (page_handler ''../html/posttest.html'') l)))))))))"

section \<open>Chunked coding\<close>

text \<open>How a client reads it: size lines in hexadecimal, up to a size of 0.\<close>

function decode_chunked :: "bytes \<Rightarrow> bytes option" where
  "decode_chunked s =
     (case find_sub crlf s of
        None \<Rightarrow> None
      | Some p \<Rightarrow>
          (let n = hex_val 0 (take p s); rest = drop (p + 2) s
           in if n = 0 then (if rest = crlf then Some [] else None)
              else if take 2 (drop n rest) = crlf
              then map_option ((@) (take n rest)) (decode_chunked (drop (n + 2) rest)) else None))"
  by pat_completeness auto
termination by (relation "measure length") (auto dest: find_sub_bound)

declare decode_chunked.simps [simp del]

lemma ordc_hex_lower: "d < 16 \<Longrightarrow> ordc (hex_lower d) = (if d < 10 then 48 + d else 87 + d)"
  by (simp add: hex_lower_def ordc_def)

lemma hex_digit_lower: "d < 16 \<Longrightarrow> hex_digit (hex_lower d) = Some d"
  by (auto simp: hex_digit_def is_digit_def ordc_hex_lower)

lemma hex_val_append_digit:
  "\<forall>c \<in> set s. hex_digit c \<noteq> None \<Longrightarrow> d < 16 \<Longrightarrow> hex_val a (s @ [hex_lower d]) = 16 * hex_val a s + d"
  by (induction s arbitrary: a) (auto simp: hex_digit_lower split: option.splits)

lemma hex_of_digits: "\<forall>c \<in> set (hex_of n). hex_digit c \<noteq> None"
proof (induction n rule: hex_of.induct)
  case (1 n)
  then show ?case by (subst hex_of.simps) (auto simp: hex_digit_lower)
qed

lemma hex_val_of: "hex_val 0 (hex_of n) = n"
proof (induction n rule: hex_of.induct)
  case (1 n)
  show ?case
  proof (cases "n < 16")
    case True
    then show ?thesis by (subst hex_of.simps) (simp add: hex_digit_lower)
  next
    case False
    with 1 show ?thesis
      by (subst hex_of.simps) (simp add: hex_val_append_digit hex_of_digits)
  qed
qed

lemma hex_of_no_CR: "CHR 0x0D \<notin> set (hex_of n)"
proof
  assume "CHR 0x0D \<in> set (hex_of n)"
  then have "hex_digit (CHR 0x0D) \<noteq> None" using hex_of_digits [of n] by blast
  then show False by (simp add: hex_digit_def is_digit_def ordc_def)
qed

lemma decode_chunk:
  assumes "d \<noteq> []"
  shows "decode_chunked (chunk d @ t) = map_option ((@) d) (decode_chunked t)"
proof -
  have "find_sub crlf (hex_of (length d) @ crlf @ (d @ crlf @ t)) = Some (length (hex_of (length d)))"
    using find_sub_skip [OF hex_of_no_CR [of "length d"], of "[LF]" "d @ crlf @ t"] by simp
  then show ?thesis
    using assms by (subst decode_chunked.simps) (simp add: chunk_def hex_val_of)
qed

lemma decode_last: "decode_chunked last_chunk = Some []"
  by (subst decode_chunked.simps) (simp add: last_chunk_def hex_digit_def is_digit_def ordc_def)

lemma decode_body: "decode_chunked (chunked_body s) = Some s"
proof (induction s rule: chunked_body.induct)
  case (1 s)
  then show ?case
    by (subst chunked_body.simps) (auto simp: decode_last decode_chunk CHUNK_SIZE_def)
qed

section \<open>The routes of the program\<close>

abbreviation demo_router :: "app_env \<Rightarrow> app_world logic \<Rightarrow> app_world router" where
  "demo_router e l \<equiv> lg_router (demo_main e l)"

lemmas server_defs = server_on_def server_get_def server_post_def server_onRegex_def server_getRegex_def
  registCallback_def addRegexCallback_lg_def addMiddleware_lg_def registerCallback_def addRegexCallback_def

lemma video_reached:
  assumes "lg_router l = new_router" and "rq_method req = kGet" and "rq_path req = ''/video/'' @ name" and "value_ok name"
  shows "route (demo_router e l) req (resp, w) = run_handler video_handler req (resp, w)"
proof -
  have "regex_match (convertToRegex (dv_regex e) ''/video/:filename'') (''/video/'' @ name) = Some [name]"
    using match_filled [of "[Fixed ''video'', Param ''filename'']" "[name]"] assms(4)
      convert_ordinary [of "[Fixed ''video'', Param ''filename'']" "dv_regex e"]
    by (simp add: fixed_ok_def value_ok_def special_chars_def)
  then show ?thesis
    using assms by (simp add: route_def demo_main_def server_defs new_router_def)
qed

text \<open>
  A video is delivered whole: a request for a file that exists, without a range, reaches the
  handler through the router of the program, and the body, read as a client reads chunks, is
  the content of the file, whatever its size.
\<close>

theorem video_delivered:
  assumes "lg_router l = new_router" and "rq_method req = kGet" and "rq_path req = ''/video/'' @ name" and "value_ok name"
    and "dm_videos w name = File content" and "getHeader ''Range'' req = []"
  shows "\<exists>r. route (demo_router e l) req (resp, w) = (Inr True, r, w) \<and> rs_statusCode r = k200Ok \<and>
    map_of (rs_headers r) ''Transfer-Encoding'' = Some ''chunked'' \<and> decode_chunked (rs_body r) = Some content"
  unfolding video_reached [OF assms(1-4)] using assms(3,5,6)
  by (simp add: run_handler_def video_handler_def whole_response_def decode_body setBody_rs_def addHeader_rs_def
      setContentType_def setStatusLine_def map_of_amap_put)

lemma stoll_dec: "n < 2 ^ 63 \<Longrightarrow> stoll (dec n) = Inr (int n)"
  by (simp add: stoll_def strtol10_dec)

lemma dec_no_dash: "CHR ''-'' \<notin> set (dec n)"
  using dec_digits [of n] by (auto simp: is_digit_def ordc_def)

lemma range_of_bytes:
  assumes "a < 2 ^ 63" and "b < 2 ^ 63"
  shows "parse_range (''bytes='' @ dec a @ ''-'' @ dec b) len = Some (Inr (int a, int b))"
proof -
  have "find_char (CHR ''-'') (dec a @ ''-'' @ dec b) = Some (length (dec a))"
    using find_char_skip [OF dec_no_dash [of a], of "dec b"] by simp
  then show ?thesis using assms by (simp add: parse_range_def stoll_dec)
qed

lemma range_in_file:
  assumes "a \<le> b" and "b < length content" and "length content < 2 ^ 63"
  shows "rs_statusCode (range_response req content (int a) (int b) resp) = k206PartialContent"
    and "map_of (rs_headers (range_response req content (int a) (int b) resp)) ''Content-Range'' =
      Some (''bytes '' @ dec a @ ''-'' @ dec b @ ''/'' @ dec (length content))"
    and "decode_chunked (rs_body (range_response req content (int a) (int b) resp)) =
      Some (take (min 8192 (b - a + 1)) (drop a content))"
proof -
  let ?d = "take (min 8192 (b - a + 1)) (drop a content)"
  have d: "?d \<noteq> []" using assms(1,2) by simp
  have "int b - int a + 1 = int (b - a + 1)" using assms(1) by simp
  then have size: "nat ((int b - int a + 1) mod 2 ^ 64) = b - a + 1"
    using assms by (simp only: zmod_int [symmetric] nat_int) simp
  have "int b mod 2 ^ 64 = int b" using assms(2,3) by simp
  then have ok: "\<not> (int b < int a \<or> int (length content) \<le> int b mod 2 ^ 64)" using assms(1,2) by simp
  have r: "range_response req content (int a) (int b) resp =
      setBody_rs (chunk ?d @ last_chunk) (setContentType ''video/mp4'' (addHeader_rs ''Transfer-Encoding'' ''chunked''
        (addHeader_rs ''Accept-Ranges'' ''bytes''
          (addHeader_rs ''Content-Range'' (''bytes '' @ dec a @ ''-'' @ dec b @ ''/'' @ dec (length content))
            (setStatusLine (rq_version req) k206PartialContent ''Partial Content'' resp)))))"
    using d unfolding range_response_def size Let_def if_not_P [OF ok] by (simp add: dec_int_def CHUNK_SIZE_def)
  show "rs_statusCode (range_response req content (int a) (int b) resp) = k206PartialContent"
    "map_of (rs_headers (range_response req content (int a) (int b) resp)) ''Content-Range'' =
      Some (''bytes '' @ dec a @ ''-'' @ dec b @ ''/'' @ dec (length content))"
    unfolding r by (simp_all add: setBody_rs_def addHeader_rs_def setContentType_def setStatusLine_def map_of_amap_put)
  show "decode_chunked (rs_body (range_response req content (int a) (int b) resp)) = Some ?d"
    unfolding r using decode_chunk [OF d, of last_chunk] decode_last by (simp add: setBody_rs_def)
qed

text \<open>
  C40: a range is promised whole and delivered in part: for a valid range of a file the answer is
  206 with the range as it was asked for, but the body never has more than its first 8192
  bytes, and ends there as if it were complete.
\<close>

theorem range_cut:
  assumes "lg_router l = new_router" and "rq_method req = kGet" and "rq_path req = ''/video/'' @ name" and "value_ok name"
    and "dm_videos w name = File content" and "getHeader ''Range'' req = ''bytes='' @ dec a @ ''-'' @ dec b"
    and "a \<le> b" and "b < length content" and "length content < 2 ^ 63"
  shows "\<exists>r. route (demo_router e l) req (resp, w) = (Inr True, r, w) \<and> rs_statusCode r = k206PartialContent \<and>
    map_of (rs_headers r) ''Content-Range'' = Some (''bytes '' @ dec a @ ''-'' @ dec b @ ''/'' @ dec (length content)) \<and>
    decode_chunked (rs_body r) = Some (take (min 8192 (b - a + 1)) (drop a content))"
proof -
  have "parse_range (''bytes='' @ dec a @ ''-'' @ dec b) (length content) = Some (Inr (int a, int b))"
    using assms(7-9) by (intro range_of_bytes) simp_all
  then have "video_handler req (resp, w) = (None, range_response req content (int a) (int b) resp, w)"
    using assms(3,5,6) by (simp add: video_handler_def)
  then show ?thesis
    unfolding video_reached [OF assms(1-4)] using range_in_file [OF assms(7-9), of req resp]
    by (simp add: run_handler_def)
qed

definition demo_file :: bytes where "demo_file = replicate 9000 CR"

lemma length_demo_file: "length demo_file = 9000"
  by (simp add: demo_file_def)

definition demo_request_for :: "string \<Rightarrow> http_request" where
  "demo_request_for path = new_request\<lparr>rq_method := kGet, rq_version := ''HTTP/1.1'', rq_path := path\<rparr>"

definition demo_env0 :: app_env where
  "demo_env0 = \<lparr>dv_dump = (\<lambda>_. Inr ''{}''), dv_time = 0, dv_clk = (\<lambda>_. 5), dv_dice = (\<lambda>i. i), dv_junk = 0,
     dv_mkdir = None, dv_can_write = (\<lambda>_. True), dv_list = (\<lambda>_. []), dv_manager = True, dv_users = Query_failed, dv_regex = (\<lambda>_ _. None)\<rparr>"

definition demo_world0 :: app_world where
  "demo_world0 = \<lparr>dm_pages = Map.empty, dm_video_dir = True, dm_videos = (\<lambda>_. Missing)(''a.mp4'' := File demo_file),
     dm_sessions = \<lparr>sw_heap = [], sw_store = Map.empty\<rparr>, dm_conn = new_conn,
     dm_limits = \<lparr>ms_bucket = new_bucket 200 100 0, ms_now = 0\<rparr>\<rparr>"

definition demo_logic0 :: "net \<Rightarrow> app_world logic" where
  "demo_logic0 n = \<lparr>lg_net = n, lg_router = new_router, lg_chain = [], lg_app = demo_world0, lg_waited = 0\<rparr>"

theorem video_delivered_witness:
  "\<forall>n. \<exists>r. route (demo_router demo_env0 (demo_logic0 n)) (demo_request_for ''/video/a.mp4'') (new_response True, demo_world0) =
     (Inr True, r, demo_world0) \<and> decode_chunked (rs_body r) = Some demo_file"
proof
  fix n
  have v: "value_ok ''a.mp4''" by (simp add: value_ok_def)
  show "\<exists>r. route (demo_router demo_env0 (demo_logic0 n)) (demo_request_for ''/video/a.mp4'') (new_response True, demo_world0) =
     (Inr True, r, demo_world0) \<and> decode_chunked (rs_body r) = Some demo_file"
    using video_delivered [of "demo_logic0 n" "demo_request_for ''/video/a.mp4''" "''a.mp4''" demo_world0 demo_file
        demo_env0 "new_response True"] v
    by (auto simp: demo_logic0_def demo_request_for_def demo_world0_def new_request_def getHeader_def)
qed

theorem range_cut_witness:
  "\<forall>n. \<exists>r. route (demo_router demo_env0 (demo_logic0 n)) (addHeader ''Range'' ''bytes=0-8999'' (demo_request_for ''/video/a.mp4''))
     (new_response True, demo_world0) = (Inr True, r, demo_world0) \<and>
     map_of (rs_headers r) ''Content-Range'' = Some ''bytes 0-8999/9000'' \<and>
     decode_chunked (rs_body r) = Some (take 8192 demo_file)"
proof
  fix n
  let ?req = "addHeader ''Range'' ''bytes=0-8999'' (demo_request_for ''/video/a.mp4'')"
  have d: "dec 0 = ''0''" "dec 8999 = ''8999''" "dec 9000 = ''9000''" by (simp_all add: dec.simps num_simps)
  have l: "lg_router (demo_logic0 n) = new_router" by (simp add: demo_logic0_def)
  have r: "rq_method ?req = kGet" "rq_path ?req = ''/video/'' @ ''a.mp4''"
    "getHeader ''Range'' ?req = ''bytes='' @ dec 0 @ ''-'' @ dec 8999"
    unfolding d by (simp_all add: demo_request_for_def addHeader_def getHeader_def)
  have v: "value_ok ''a.mp4''" "dm_videos demo_world0 ''a.mp4'' = File demo_file"
    by (simp_all add: value_ok_def demo_world0_def)
  have "\<exists>r. route (demo_router demo_env0 (demo_logic0 n)) ?req (new_response True, demo_world0) = (Inr True, r, demo_world0) \<and>
      rs_statusCode r = k206PartialContent \<and>
      map_of (rs_headers r) ''Content-Range'' = Some (''bytes '' @ dec 0 @ ''-'' @ dec 8999 @ ''/'' @ dec (length demo_file)) \<and>
      decode_chunked (rs_body r) = Some (take (min 8192 (8999 - 0 + 1)) (drop 0 demo_file))"
    by (rule range_cut [OF l r(1,2) v r(3)]) (simp_all add: length_demo_file)
  then show "\<exists>r. route (demo_router demo_env0 (demo_logic0 n)) ?req (new_response True, demo_world0) = (Inr True, r, demo_world0) \<and>
     map_of (rs_headers r) ''Content-Range'' = Some ''bytes 0-8999/9000'' \<and>
     decode_chunked (rs_body r) = Some (take 8192 demo_file)"
    unfolding length_demo_file d by fastforce
qed

section \<open>Visits\<close>

definition visits :: "string \<Rightarrow> app_world \<Rightarrow> string" where
  "visits sid w = (case sw_store (dm_sessions w) sid of None \<Rightarrow> [] | Some a \<Rightarrow> getValue ''visits'' (deref a (dm_sessions w)))"

lemma visits_after:
  assumes "dv_manager e" and "getSession (dv_clk e) (dv_dice e) req (resp, dm_sessions w) = (a, r1, sw)"
    and "a < length (sw_heap sw)" and "sw_store sw (ss_id (deref a sw)) = Some a"
    and "stoi (getValue ''visits'' (deref a sw)) = Inr n \<or> (n = 0 \<and> getValue ''visits'' (deref a sw) = [])"
  shows "visits (ss_id (deref a sw)) (snd (snd (session_handler e req (resp, w)))) = dec_int (to_int32 (n + 1))"
proof -
  have "(case stoi (getValue ''visits'' (deref a sw)) of Inl x \<Rightarrow> 0 | Inr n \<Rightarrow> n) = n"
    using assms(5) by (auto simp: stoi_def strtol10_def)
  then show ?thesis
    using assms(1-4)
    by (auto simp: session_handler_def visits_def Let_def updateSession_def setValue_def getValue_def lookup_str_def
        split: sum.splits)
qed

text \<open>
  Visits are counted per session: a request whose cookie names a live session takes its
  counter from \<open>n\<close> to \<open>n + 1\<close>, and a request without one begins a session with a counter of 1.
\<close>

theorem visits_counted:
  assumes "dv_manager e" and "world_ok (dm_sessions w)"
  shows "(adopted (dv_clk e) (getSessionIdFromCookie req) (dm_sessions w) \<and>
      visits (getSessionIdFromCookie req) w = dec n \<and> int n < INT_MAX \<longrightarrow>
      visits (getSessionIdFromCookie req) (snd (snd (session_handler e req (resp, w)))) = dec (Suc n)) \<and>
    (\<not> adopted (dv_clk e) (getSessionIdFromCookie req) (dm_sessions w) \<longrightarrow>
      visits (generateSessionId (dv_dice e)) (snd (snd (session_handler e req (resp, w)))) = dec 1)"
proof (intro conjI impI)
  let ?sid = "getSessionIdFromCookie req"
  assume ad: "adopted (dv_clk e) ?sid (dm_sessions w) \<and> visits ?sid w = dec n \<and> int n < INT_MAX"
  then obtain a where a: "sw_store (dm_sessions w) ?sid = Some a" "?sid \<noteq> []"
      "\<not> isExpired (dv_clk e 0) (deref a (dm_sessions w))" "\<not> isExpired (dv_clk e 1) (deref a (dm_sessions w))"
    by (auto simp: adopted_def)
  with assms(2) have lt: "a < length (sw_heap (dm_sessions w))" and i: "ss_id (deref a (dm_sessions w)) = ?sid"
    by (auto simp: world_ok_def)
  let ?sw = "save a (update_at a (refresh (dv_clk e 3)) (update_at a (setManager True) (dm_sessions w)))"
  have g: "getSession (dv_clk e) (dv_dice e) req (resp, dm_sessions w) = (a, resp, ?sw)"
    using a by (intro getSession_resumes [OF refl]) simp_all
  have "getValue ''visits'' (deref a ?sw) = dec n" using ad a(1) lt by (simp add: visits_def getValue_def)
  then have "visits (ss_id (deref a ?sw)) (snd (snd (session_handler e req (resp, w)))) = dec_int (to_int32 (int n + 1))"
    using ad lt by (intro visits_after [OF assms(1) g]) (simp_all add: stoi_dec)
  then show "visits ?sid (snd (snd (session_handler e req (resp, w)))) = dec (Suc n)"
    using ad lt i by (simp add: dec_int_def to_int32_def nat_add_distrib)
next
  assume no: "\<not> adopted (dv_clk e) (getSessionIdFromCookie req) (dm_sessions w)"
  let ?a = "length (sw_heap (dm_sessions w))" and ?id = "generateSessionId (dv_dice e)"
  obtain w1 where w1: "sw_heap w1 = sw_heap (dm_sessions w)" and
    g: "getSession (dv_clk e) (dv_dice e) req (resp, dm_sessions w) = (?a, setSessionCookie ?id resp,
      save ?a (update_at ?a (refresh (dv_clk e 3)) (snd (alloc (new_session (dv_clk e 2) ?id True default_maxAge) w1))))"
    using getSession_creates [OF no] by blast
  let ?sw = "save ?a (update_at ?a (refresh (dv_clk e 3)) (snd (alloc (new_session (dv_clk e 2) ?id True default_maxAge) w1)))"
  have "visits (ss_id (deref ?a ?sw)) (snd (snd (session_handler e req (resp, w)))) = dec_int (to_int32 (0 + 1))"
    by (rule visits_after [OF assms(1) g]) (simp_all add: w1 [symmetric] getValue_def)
  then show "visits ?id (snd (snd (session_handler e req (resp, w)))) = dec 1"
    by (simp add: w1 [symmetric] dec_int_def to_int32_def)
qed

theorem visits_counted_witness:
  "visits (generateSessionId (\<lambda>i. i))
     (snd (snd (session_handler demo_env0 (demo_request_for ''/test_session'') (new_response True, demo_world0)))) = ''1''"
proof -
  have w: "world_ok (dm_sessions demo_world0)" by (simp add: world_ok_def demo_world0_def)
  have n: "\<not> adopted (dv_clk demo_env0) (getSessionIdFromCookie (demo_request_for ''/test_session'')) (dm_sessions demo_world0)"
    by (simp add: adopted_def demo_world0_def)
  have "dec 1 = ''1''" by code_simp
  with visits_counted [of demo_env0, OF _ w] n show ?thesis by (simp add: demo_env0_def)
qed

end
