(* ===== verification/NetSteps.thy ===== *)
theory NetSteps
  imports SendPath Systems
begin

text \<open>
  The steps all the threads of a worker are made of, on its \<open>CSocket\<close>: \<open>net_step c s s'\<close>,
  where \<open>c\<close> is how often it counts the sequence number of a connection up. The invariant
  \<open>served\<close> says that the pool is sound, that a connection in use has a descriptor and the
  handlers of a client or of the listening socket, and that a message in a queue whose number
  is still that of its connection is for a client in use. It needs \<open>k\<close> numbers of the 64-bit
  counters to be left, which is what the budget of \<open>metered_system\<close> is for.
\<close>

section \<open>Roles and mail\<close>

definition client :: "connection \<Rightarrow> bool" where
  "client c \<longleftrightarrow> cn_rhandler c = Http_read \<and> cn_whandler c = Http_write"

definition listener :: "connection \<Rightarrow> bool" where
  "listener c \<longleftrightarrow> cn_rhandler c = Event_accept \<and> cn_whandler c = No_write"

definition roles_ok :: "csock \<Rightarrow> bool" where
  "roles_ok s \<longleftrightarrow>
     (\<forall>a. in_use a s \<longrightarrow> cn_fd (conn a s) \<noteq> -1 \<and> (client (conn a s) \<or> listener (conn a s))) \<and>
     (\<forall>a \<in> set (so_recyconnectionList s). client (conn a s)) \<and>
     (\<forall>fd ev a. so_epoll s fd = Some (ev, a) \<longrightarrow> client (conn a s) \<or> ev AND EPOLLOUT = 0)"

definition headers :: "csock \<Rightarrow> msg_header set" where
  "headers s = fst ` (set (so_MsgRecvQueue s) \<union> set (so_MsgSendQueue s))"

definition current :: "msg_header \<Rightarrow> csock \<Rightarrow> bool" where
  "current h s \<longleftrightarrow> mh_iCurrsequence h = cn_iCurrsequence (conn (mh_conn h) s)"

definition msg_ok :: "msg_header \<Rightarrow> csock \<Rightarrow> bool" where
  "msg_ok h s \<longleftrightarrow> mh_conn h < length (so_connectionList s) \<and>
     unat (mh_iCurrsequence h) \<le> unat (cn_iCurrsequence (conn (mh_conn h) s)) \<and>
     (current h s \<longrightarrow> in_use (mh_conn h) s \<and> client (conn (mh_conn h) s))"

definition mail_ok :: "csock \<Rightarrow> bool" where
  "mail_ok s \<longleftrightarrow> (\<forall>h \<in> headers s. msg_ok h s)"

definition fits :: "nat \<Rightarrow> csock \<Rightarrow> bool" where
  "fits k s \<longleftrightarrow> k + 1 < 2 ^ 64 \<and>
     (\<forall>a < length (so_connectionList s). unat (cn_iCurrsequence (conn a s)) + k < 2 ^ 64)"

definition served :: "nat \<Rightarrow> csock \<Rightarrow> bool" where
  "served k s \<longleftrightarrow> pool_ok s \<and> roles_ok s \<and> mail_ok s \<and> fits k s"

section \<open>The steps\<close>

definition quiet :: "(connection \<Rightarrow> connection) \<Rightarrow> bool" where
  "quiet f \<longleftrightarrow> (\<forall>c. cn_id (f c) = cn_id c \<and> cn_fd (f c) = cn_fd c \<and>
     cn_iCurrsequence (f c) = cn_iCurrsequence c \<and> cn_inRecyTime (f c) = cn_inRecyTime c \<and> cn_rhandler (f c) = cn_rhandler c \<and>
     cn_whandler (f c) = cn_whandler c)"

text \<open>Nothing but messages taken from the queues, counters and the timer queue differ.\<close>

definition same_pool :: "csock \<Rightarrow> csock \<Rightarrow> bool" where
  "same_pool s s' \<longleftrightarrow> so_connectionList s' = so_connectionList s \<and> so_freeConnectionList s' = so_freeConnectionList s \<and>
     so_recyconnectionList s' = so_recyconnectionList s \<and> so_epoll s' = so_epoll s \<and>
     so_free_connection_n s' = so_free_connection_n s \<and> so_total_connection_n s' = so_total_connection_n s"

inductive net_step :: "nat \<Rightarrow> csock \<Rightarrow> csock \<Rightarrow> bool" where
  changed: "quiet f \<Longrightarrow> net_step 0 s (upd_conn a f s)"
| counted: "same_pool s s' \<Longrightarrow> headers s' \<subseteq> headers s \<Longrightarrow> net_step 0 s s'"
| queued: "same_pool s s' \<Longrightarrow> headers s' = insert h (headers s) \<Longrightarrow> in_use (mh_conn h) s \<Longrightarrow>
    client (conn (mh_conn h) s) \<Longrightarrow> current h s \<Longrightarrow> net_step 0 s s'"
| interest: "in_use a s \<Longrightarrow> client (conn a s) \<Longrightarrow>
    net_step 0 s (snd (ngx_epoll_oper_event mem (cn_fd (conn a s)) EPOLL_CTL_MOD flag bc a s))"
| closed: "(in_use a s \<and> client (conn a s)) \<or> a \<in> set (so_recyconnectionList s) \<Longrightarrow>
    net_step 1 s (zdClosesocketProc now a s)"
| accepted: "so_epoll s fd = None \<Longrightarrow> fd \<noteq> -1 \<Longrightarrow>
    accept_one now oldc fd addr nb mem s = Some (b, s') \<Longrightarrow> net_step 2 s s'"

text \<open>The recycling thread's turn is the one step that takes a connection out of its queue.\<close>

inductive turn_step :: "nat \<Rightarrow> csock \<Rightarrow> csock \<Rightarrow> bool" where
  busy: "net_step c s s' \<Longrightarrow> turn_step c s s'"
| recycled: "turn_step 1 s (ServerRecyConnection_turn now s)"

section \<open>Frames\<close>

lemma served_parts:
  "served k s \<Longrightarrow> pool_ok s" "served k s \<Longrightarrow> roles_ok s" "served k s \<Longrightarrow> mail_ok s" "served k s \<Longrightarrow> fits k s"
  by (simp_all add: served_def)

lemma same_pool_conn: "same_pool s s' \<Longrightarrow> conn a s' = conn a s"
  by (simp add: same_pool_def conn_def)

lemma same_pool_use: "same_pool s s' \<Longrightarrow> in_use a s' = in_use a s"
  by (simp add: same_pool_def in_use_def idle_def)

lemma same_pool_served:
  assumes "same_pool s s'" and "served k s" and "\<forall>h \<in> headers s'. msg_ok h s"
  shows "served k s'"
proof -
  note sp = same_pool_conn [OF assms(1)] same_pool_use [OF assms(1)]
  have "pool_ok s' = pool_ok s" using assms(1) sp(1) by (simp add: pool_ok_def idle_def same_pool_def)
  then have "pool_ok s'" using assms(2) by (simp add: served_def)
  moreover have "roles_ok s'" using assms(1,2) sp by (simp add: served_def roles_ok_def same_pool_def)
  moreover have "msg_ok h s' = msg_ok h s" for h
    using assms(1) sp by (simp add: msg_ok_def current_def same_pool_def)
  then have "mail_ok s'" using assms(3) by (simp add: mail_ok_def)
  moreover have "fits k s'" using assms(1,2) sp by (simp add: served_def fits_def same_pool_def)
  ultimately show ?thesis by (simp add: served_def)
qed

lemma counted_ok: "same_pool s s' \<Longrightarrow> headers s' \<subseteq> headers s \<Longrightarrow> served k s \<Longrightarrow> served k s'"
  by (rule same_pool_served) (auto simp: served_def mail_ok_def)

lemma queued_ok:
  assumes "same_pool s s'" and "headers s' = insert h (headers s)" and "in_use (mh_conn h) s"
    and "client (conn (mh_conn h) s)" and "current h s" and "served k s"
  shows "served k s'"
proof -
  have "msg_ok h s" using assms(3-5) by (simp add: msg_ok_def in_use_def current_def)
  with assms(2,6) have "\<forall>g \<in> headers s'. msg_ok g s" by (simp add: served_def mail_ok_def)
  with assms(1,6) show ?thesis by (rule same_pool_served)
qed

lemma rolesI:
  assumes "\<And>a. in_use a s \<Longrightarrow> cn_fd (conn a s) \<noteq> -1 \<and> (client (conn a s) \<or> listener (conn a s))"
    and "\<And>a. a \<in> set (so_recyconnectionList s) \<Longrightarrow> client (conn a s)"
    and "\<And>fd ev a. so_epoll s fd = Some (ev, a) \<Longrightarrow> client (conn a s) \<or> ev AND EPOLLOUT = 0"
  shows "roles_ok s"
  using assms unfolding roles_ok_def by blast

lemma rolesD:
  assumes "roles_ok s"
  shows "in_use a s \<Longrightarrow> cn_fd (conn a s) \<noteq> -1 \<and> (client (conn a s) \<or> listener (conn a s))"
    and "a \<in> set (so_recyconnectionList s) \<Longrightarrow> client (conn a s)"
    and "so_epoll s fd = Some (ev, a) \<Longrightarrow> client (conn a s) \<or> ev AND EPOLLOUT = 0"
  using assms unfolding roles_ok_def by blast+

text \<open>A step that leaves use, descriptors, numbers and roles alone.\<close>

lemma frame_ok:
  assumes "served k s" and "pool_ok s'" and "length (so_connectionList s') = length (so_connectionList s)"
    and "idle s' = idle s" and "so_recyconnectionList s' = so_recyconnectionList s" and "headers s' = headers s"
    and "\<And>b. cn_fd (conn b s') = cn_fd (conn b s)"
    and "\<And>b. cn_iCurrsequence (conn b s') = cn_iCurrsequence (conn b s)"
    and "\<And>b. client (conn b s') = client (conn b s)" and "\<And>b. listener (conn b s') = listener (conn b s)"
    and "\<And>fd ev a. so_epoll s' fd = Some (ev, a) \<Longrightarrow> client (conn a s) \<or> ev AND EPOLLOUT = 0"
  shows "served k s'"
proof -
  have u: "in_use b s' = in_use b s" for b using assms(3,4) by (simp add: in_use_def)
  show ?thesis
    using assms(1,2,11)
    by (simp add: served_def roles_ok_def mail_ok_def msg_ok_def current_def fits_def assms(3,5-10) u)
qed

lemma changed_ok:
  assumes "quiet f" and "served k s"
  shows "served k (upd_conn a f s)"
proof (rule frame_ok [OF assms(2)])
  have f: "cn_id (f c) = cn_id c" "cn_fd (f c) = cn_fd c" "cn_iCurrsequence (f c) = cn_iCurrsequence c"
      "client (f c) = client c" "listener (f c) = listener c" for c
    using assms(1) by (simp_all add: quiet_def client_def listener_def)
  show "pool_ok (upd_conn a f s)" using assms(2) f by (intro upd_conn_ok) (simp_all add: served_def)
  show "headers (upd_conn a f s) = headers s" by (simp add: headers_def upd_conn_def)
  show "client (conn b s) \<or> ev AND EPOLLOUT = 0" if "so_epoll (upd_conn a f s) fd = Some (ev, b)" for fd ev b
    using that rolesD(3) [OF served_parts(2) [OF assms(2)]] by simp
qed (use assms(1) in \<open>simp_all add: conn_upd quiet_def client_def listener_def\<close>)

lemma oper_event_roles [simp]:
  "cn_rhandler (conn b (snd (ngx_epoll_oper_event mem fd op flag bc a s))) = cn_rhandler (conn b s)"
  "cn_whandler (conn b (snd (ngx_epoll_oper_event mem fd op flag bc a s))) = cn_whandler (conn b s)"
  "headers (snd (ngx_epoll_oper_event mem fd op flag bc a s)) = headers s"
  by (cases op; simp add: ngx_epoll_oper_event_def Let_def conn_upd;
      simp add: epoll_ctl_def headers_def upd_conn_def)+

lemma oper_event_epoll:
  "so_epoll (snd (ngx_epoll_oper_event mem fd op flag bc a s)) g = Some (ev, b) \<Longrightarrow>
     so_epoll s g = Some (ev, b) \<or> (b = a \<and> op \<noteq> EPOLL_CTL_DEL)"
  by (cases op) (auto simp: ngx_epoll_oper_event_def epoll_ctl_def Let_def split: if_splits)

lemma interest_ok:
  assumes "in_use a s" and "client (conn a s)" and "served k s"
  shows "served k (snd (ngx_epoll_oper_event mem (cn_fd (conn a s)) EPOLL_CTL_MOD flag bc a s))"
proof (rule frame_ok [OF assms(3)])
  have "a < length (so_connectionList s)" "cn_fd (conn a s) \<noteq> -1"
    using assms(1) served_parts(2) [OF assms(3)] by (auto simp: in_use_def roles_ok_def)
  then show "pool_ok (snd (ngx_epoll_oper_event mem (cn_fd (conn a s)) EPOLL_CTL_MOD flag bc a s))"
    using served_parts(1) [OF assms(3)] by (intro oper_event_ok) simp_all
  show "client (conn b s) \<or> ev AND EPOLLOUT = 0"
    if "so_epoll (snd (ngx_epoll_oper_event mem (cn_fd (conn a s)) EPOLL_CTL_MOD flag bc a s)) fd = Some (ev, b)" for fd ev b
    using oper_event_epoll [OF that] assms(2) rolesD(3) [OF served_parts(2) [OF assms(3)], of fd ev b] by blast
qed (simp_all add: client_def listener_def)

section \<open>Closing\<close>

lemma zdClose_roles [simp]:
  "cn_rhandler (conn b (zdClosesocketProc now a s)) = cn_rhandler (conn b s)"
  "cn_whandler (conn b (zdClosesocketProc now a s)) = cn_whandler (conn b s)"
  "headers (zdClosesocketProc now a s) = headers s"
proof -
  have h: "headers (close_fd fd s) = headers s" "headers (upd_conn c f s) = headers s" "headers (s\<lparr>so_timer := t\<rparr>) = headers s"
    "headers (s\<lparr>so_recyconnectionList := r, so_onlineUserCount := m, so_total_recyconnection_n := n\<rparr>) = headers s"
    "headers (s\<lparr>so_total_recyconnection_n := n, so_onlineUserCount := m, so_recyconnectionList := r\<rparr>) = headers s"
    for fd c f t r m n and s :: csock
    by (simp_all add: headers_def close_fd_def upd_conn_def)
  show "headers (zdClosesocketProc now a s) = headers s"
    by (simp add: zdClosesocketProc_def inRecyConnectQueue_def Let_def h)
qed (auto simp: zdClosesocketProc_def inRecyConnectQueue_def Let_def conn_upd)

lemma zdClose_other [simp]: "b \<noteq> a \<Longrightarrow> cn_fd (conn b (zdClosesocketProc now a s)) = cn_fd (conn b s)"
  "b \<noteq> a \<Longrightarrow> cn_iCurrsequence (conn b (zdClosesocketProc now a s)) = cn_iCurrsequence (conn b s)"
  by (auto simp: zdClosesocketProc_def inRecyConnectQueue_def Let_def conn_upd)

lemma zdClose_epoll:
  "so_epoll (zdClosesocketProc now a s) fd = Some x \<Longrightarrow> so_epoll s fd = Some x"
  by (auto simp: zdClosesocketProc_def inRecyConnectQueue_def Let_def ngx_epoll_oper_event_def epoll_ctl_def
      close_fd_def split: if_splits)

lemma recy_there:
  assumes "pool_ok s" and "a < length (so_connectionList s)"
  shows "(\<exists>b \<in> set (so_recyconnectionList s). cn_id (conn b s) = cn_id (conn a s)) \<longleftrightarrow>
    a \<in> set (so_recyconnectionList s)"
  using same_id [OF assms] assms(1) by (auto simp: pool_ok_def idle_def)

text \<open>A connection that is not waiting to be freed goes to the end of the queue, counted up.\<close>

lemma zdClose_pool:
  assumes "pool_ok s" and "a < length (so_connectionList s)"
  shows "so_recyconnectionList (zdClosesocketProc now a s) =
      (if a \<in> set (so_recyconnectionList s) then so_recyconnectionList s else so_recyconnectionList s @ [a])"
    and "so_freeConnectionList (zdClosesocketProc now a s) = so_freeConnectionList s"
    and "cn_iCurrsequence (conn a (zdClosesocketProc now a s)) =
      cn_iCurrsequence (conn a s) + (if a \<in> set (so_recyconnectionList s) then 0 else 1)"
    and "cn_inRecyTime (conn b (zdClosesocketProc now a s)) =
      (if b = a \<and> a \<notin> set (so_recyconnectionList s) then now else cn_inRecyTime (conn b s))"
proof -
  let ?s1 = "if so_ifkickTimeCount s = 1
    then s\<lparr>so_timer := DeleteFromTimerQueue a (so_timer s)\<rparr> else s"
  let ?fd = "cn_fd (conn a ?s1)"
  let ?s2 = "if ?fd \<noteq> -1 then upd_conn a (\<lambda>c. c\<lparr>cn_fd := -1\<rparr>)
      (close_fd ?fd (snd (ngx_epoll_oper_event True ?fd EPOLL_CTL_DEL 0 0 a ?s1))) else ?s1"
  have z: "zdClosesocketProc now a s = inRecyConnectQueue now a ?s2"
    by (simp add: zdClosesocketProc_def Let_def)
  have s2: "so_recyconnectionList ?s2 = so_recyconnectionList s" "so_freeConnectionList ?s2 = so_freeConnectionList s"
      "cn_id (conn b ?s2) = cn_id (conn b s)" "cn_iCurrsequence (conn b ?s2) = cn_iCurrsequence (conn b s)"
      "cn_inRecyTime (conn b ?s2) = cn_inRecyTime (conn b s)"
      "length (so_connectionList ?s2) = length (so_connectionList s)" for b
    by (auto simp: conn_upd ngx_epoll_oper_event_def epoll_ctl_def)
  have there: "(\<exists>b \<in> set (so_recyconnectionList ?s2). cn_id (conn b ?s2) = cn_id (conn a ?s2)) \<longleftrightarrow>
      a \<in> set (so_recyconnectionList s)"
    unfolding s2 by (rule recy_there [OF assms])
  show "so_recyconnectionList (zdClosesocketProc now a s) =
      (if a \<in> set (so_recyconnectionList s) then so_recyconnectionList s else so_recyconnectionList s @ [a])"
    "so_freeConnectionList (zdClosesocketProc now a s) = so_freeConnectionList s"
    "cn_iCurrsequence (conn a (zdClosesocketProc now a s)) =
      cn_iCurrsequence (conn a s) + (if a \<in> set (so_recyconnectionList s) then 0 else 1)"
    "cn_inRecyTime (conn b (zdClosesocketProc now a s)) =
      (if b = a \<and> a \<notin> set (so_recyconnectionList s) then now else cn_inRecyTime (conn b s))"
    unfolding z inRecyConnectQueue_def there using assms(2) s2 by (simp_all add: conn_upd)
qed

lemma unat_count:
  assumes "unat (x :: u64) + (1 + k) < 2 ^ 64"
  shows "unat (x + 1) = unat x + 1"
  using assms by (simp add: unat_word_ariths)

lemma waiting_not_used: "a \<in> set (so_recyconnectionList s) \<Longrightarrow> in_use a s = False"
  by (simp add: in_use_def idle_def)

text \<open>A message stays as good as it was when its connection is counted up or left in use.\<close>

lemma msg_step:
  assumes "msg_ok h s" and "length (so_connectionList s) \<le> length (so_connectionList s')" and "mh_conn h = a"
    and "unat (cn_iCurrsequence (conn a s')) = unat (cn_iCurrsequence (conn a s)) + d"
    and "d = 0 \<and> in_use a s \<and> client (conn a s) \<longrightarrow> in_use a s' \<and> client (conn a s')"
  shows "msg_ok h s'"
proof -
  have "in_use a s' \<and> client (conn a s')" if c: "current h s'"
  proof -
    have "unat (mh_iCurrsequence h) = unat (cn_iCurrsequence (conn a s'))" using c assms(3) by (simp add: current_def)
    then have "d = 0" using assms(1,3,4) by (auto simp: msg_ok_def)
    moreover from this have "cn_iCurrsequence (conn a s') = cn_iCurrsequence (conn a s)"
      using assms(4) by (intro word_unat_eq_iff [THEN iffD2]) simp
    ultimately show ?thesis using assms(1,3,5) c by (auto simp: msg_ok_def current_def)
  qed
  then show ?thesis using assms(1-4) by (auto simp: msg_ok_def)
qed

lemma closed_ok:
  assumes "(in_use a s \<and> client (conn a s)) \<or> a \<in> set (so_recyconnectionList s)" and "served (1 + k) s"
  shows "served k (zdClosesocketProc now a s)"
proof -
  let ?t = "zdClosesocketProc now a s"
  note p = served_parts [OF assms(2)]
  have a: "a < length (so_connectionList s)" using assms(1) p(1) by (auto simp: in_use_def pool_ok_def idle_def)
  note q = zdClose_pool [OF p(1) a, where now = now]
  have u: "in_use b ?t \<longleftrightarrow> in_use b s \<and> b \<noteq> a" for b
    using a assms(1) by (auto simp: in_use_def idle_def q)
  have cl: "client (conn b ?t) = client (conn b s)" "listener (conn b ?t) = listener (conn b s)" for b
    by (simp_all add: client_def listener_def)
  have ca: "client (conn a s)" using assms(1) p(2) by (auto simp: roles_ok_def)
  have "unat (cn_iCurrsequence (conn a s)) + (1 + k) < 2 ^ 64" using p(4) a by (simp add: fits_def)
  note up = unat_count [OF this]
  have seq: "unat (cn_iCurrsequence (conn b ?t)) = unat (cn_iCurrsequence (conn b s)) +
      (if b = a \<and> a \<notin> set (so_recyconnectionList s) then 1 else 0)" for b
    using q(3) up by (cases "b = a") simp_all
  have "pool_ok ?t" using p(1) assms(1) by (intro zdClose_ok) auto
  moreover have "roles_ok ?t"
  proof (rule rolesI)
    show "cn_fd (conn b ?t) \<noteq> -1 \<and> (client (conn b ?t) \<or> listener (conn b ?t))" if "in_use b ?t" for b
      using that rolesD(1) [OF p(2), of b] by (simp add: u cl)
    show "client (conn b ?t)" if "b \<in> set (so_recyconnectionList ?t)" for b
      using that rolesD(2) [OF p(2), of b] ca by (auto simp: q(1) cl split: if_splits)
    show "client (conn b ?t) \<or> ev AND EPOLLOUT = 0" if "so_epoll ?t fd = Some (ev, b)" for fd ev b
      using rolesD(3) [OF p(2) zdClose_epoll [OF that]] by (simp add: cl)
  qed
  moreover have "msg_ok h ?t" if "msg_ok h s" for h
    using that by (rule msg_step [OF _ _ refl seq]) (auto simp: u cl waiting_not_used split: if_splits)
  then have "mail_ok ?t" using p(3) by (simp add: mail_ok_def)
  moreover have "fits k ?t" using p(4) by (auto simp: fits_def seq)
  ultimately show ?thesis by (simp add: served_def)
qed


section \<open>Recycling\<close>

lemma recy_loop_frees:
  "recy_loop now rs s =
     (filter (\<lambda>a. now < cn_inRecyTime (conn a s) + so_RecyConnectionWaitTime s) rs,
      fold ngx_free_connection
        (filter (\<lambda>a. cn_inRecyTime (conn a s) + so_RecyConnectionWaitTime s \<le> now) rs) s)"
proof (induction rs arbitrary: s)
  case (Cons a rs)
  have "cn_inRecyTime (conn b (ngx_free_connection a s)) = cn_inRecyTime (conn b s)" for b
    by (simp add: ngx_free_connection_def conn_upd PutOneToFree_def)
  moreover have "so_RecyConnectionWaitTime (ngx_free_connection a s) = so_RecyConnectionWaitTime s"
    by (simp add: ngx_free_connection_def)
  ultimately show ?case by (auto simp: Cons.IH not_le)
qed simp

lemma free_simps [simp]:
  "so_recyconnectionList (ngx_free_connection a s) = so_recyconnectionList s"
  "so_freeConnectionList (ngx_free_connection a s) = so_freeConnectionList s @ [a]"
  "length (so_connectionList (ngx_free_connection a s)) = length (so_connectionList s)"
  "so_epoll (ngx_free_connection a s) = so_epoll s" "headers (ngx_free_connection a s) = headers s"
  by (simp_all add: ngx_free_connection_def) (simp add: headers_def upd_conn_def)

lemma conn_free:
  "conn b (ngx_free_connection a s) =
     (if b = a \<and> a < length (so_connectionList s) then PutOneToFree (conn a s) else conn b s)"
  by (simp add: ngx_free_connection_def conn_upd)

lemma frees:
  assumes "distinct as" and "\<forall>a \<in> set as. a < length (so_connectionList s)"
  shows "conn b (fold ngx_free_connection as s) = (if b \<in> set as then PutOneToFree (conn b s) else conn b s)"
    and "so_freeConnectionList (fold ngx_free_connection as s) = so_freeConnectionList s @ as"
    and "so_recyconnectionList (fold ngx_free_connection as s) = so_recyconnectionList s"
    and "length (so_connectionList (fold ngx_free_connection as s)) = length (so_connectionList s)"
    and "so_epoll (fold ngx_free_connection as s) = so_epoll s"
    and "headers (fold ngx_free_connection as s) = headers s"
  using assms by (induction as arbitrary: s) (auto simp: conn_free)

text \<open>What a turn of the recycling thread frees, and what it leaves.\<close>

definition freed :: "int \<Rightarrow> csock \<Rightarrow> nat list" where
  "freed now s = (if 0 < so_total_connection_n s
     then filter (\<lambda>a. cn_inRecyTime (conn a s) + so_RecyConnectionWaitTime s \<le> now) (so_recyconnectionList s) else [])"

lemma recy_turn:
  assumes "pool_ok s"
  shows "conn b (ServerRecyConnection_turn now s) = (if b \<in> set (freed now s) then PutOneToFree (conn b s) else conn b s)"
    and "so_freeConnectionList (ServerRecyConnection_turn now s) = so_freeConnectionList s @ freed now s"
    and "so_recyconnectionList (ServerRecyConnection_turn now s) =
      filter (\<lambda>a. a \<notin> set (freed now s)) (so_recyconnectionList s)"
    and "length (so_connectionList (ServerRecyConnection_turn now s)) = length (so_connectionList s)"
    and "so_epoll (ServerRecyConnection_turn now s) = so_epoll s"
    and "headers (ServerRecyConnection_turn now s) = headers s"
proof -
  let ?as = "filter (\<lambda>a. cn_inRecyTime (conn a s) + so_RecyConnectionWaitTime s \<le> now) (so_recyconnectionList s)"
  have "distinct ?as" "\<forall>a \<in> set ?as. a < length (so_connectionList s)"
    using assms by (auto simp: pool_ok_def idle_def)
  note f = frees [OF this]
  have h: "headers (t\<lparr>so_recyconnectionList := r\<rparr>) = headers t" for t r by (simp add: headers_def)
  have fl: "filter (\<lambda>a. now < cn_inRecyTime (conn a s) + so_RecyConnectionWaitTime s) (so_recyconnectionList s) =
      filter (\<lambda>a. a \<notin> set ?as) (so_recyconnectionList s)"
    by (rule filter_cong) auto
  show "conn b (ServerRecyConnection_turn now s) = (if b \<in> set (freed now s) then PutOneToFree (conn b s) else conn b s)"
    and "so_freeConnectionList (ServerRecyConnection_turn now s) = so_freeConnectionList s @ freed now s"
    and "so_recyconnectionList (ServerRecyConnection_turn now s) =
      filter (\<lambda>a. a \<notin> set (freed now s)) (so_recyconnectionList s)"
    and "length (so_connectionList (ServerRecyConnection_turn now s)) = length (so_connectionList s)"
    and "so_epoll (ServerRecyConnection_turn now s) = so_epoll s"
    and "headers (ServerRecyConnection_turn now s) = headers s"
    by (simp_all add: ServerRecyConnection_turn_def recy_loop_frees freed_def f h fl del: set_filter)
qed

lemma recycled_ok:
  assumes "served (1 + k) s"
  shows "served k (ServerRecyConnection_turn now s)"
proof -
  let ?t = "ServerRecyConnection_turn now s"
  note p = served_parts [OF assms] note r = recy_turn [OF p(1), where now = now]
  have sub: "set (freed now s) \<subseteq> set (so_recyconnectionList s)" by (auto simp: freed_def)
  have u: "in_use b ?t = in_use b s" for b
    using sub by (auto simp: in_use_def idle_def r)
  have c: "cn_fd (conn b ?t) = cn_fd (conn b s)" "client (conn b ?t) = client (conn b s)"
      "listener (conn b ?t) = listener (conn b s)" for b
    by (simp_all add: r(1) PutOneToFree_def client_def listener_def)
  have lt: "b < length (so_connectionList s)" if "b \<in> set (freed now s)" for b
    using that sub p(1) by (auto simp: pool_ok_def idle_def)
  have seq: "unat (cn_iCurrsequence (conn b ?t)) = unat (cn_iCurrsequence (conn b s)) + (if b \<in> set (freed now s) then 1 else 0)" for b
  proof (cases "b \<in> set (freed now s)")
    case True
    then have "unat (cn_iCurrsequence (conn b s)) + (1 + k) < 2 ^ 64" using p(4) lt by (simp add: fits_def)
    from unat_count [OF this] True show ?thesis by (simp add: r(1) PutOneToFree_def)
  qed (simp add: r(1))
  have "roles_ok ?t"
    using p(2) by (simp add: roles_ok_def u c r(3,5))
  moreover have "msg_ok h ?t" if "msg_ok h s" for h
    using that by (rule msg_step [OF _ _ refl seq]) (simp_all add: r(4) u c)
  then have "mail_ok ?t" using p(3) by (simp add: mail_ok_def r(6))
  moreover have "fits k ?t" using p(4) by (auto simp: fits_def seq r(4))
  ultimately show ?thesis using recy_turn_ok [OF p(1)] by (simp add: served_def)
qed

section \<open>Accepting\<close>

lemma get_connection_run:
  assumes "ngx_get_connection fd s = Some (a, s')" and "P s" and "\<And>t. P t \<Longrightarrow> P (create_connection t)"
  shows "\<exists>t fr. P t \<and> so_freeConnectionList t = a # fr \<and>
    s' = upd_conn a (GetOneToUse fd) (t\<lparr>so_freeConnectionList := fr,
      so_free_connection_n := so_free_connection_n t - 1, so_onlineUserCount := so_onlineUserCount t + 1\<rparr>)"
proof -
  let ?Q = "\<lambda>fd s r. P s \<longrightarrow> (\<exists>t fr. P t \<and> so_freeConnectionList t = fst r # fr \<and>
    snd r = upd_conn (fst r) (GetOneToUse fd) (t\<lparr>so_freeConnectionList := fr,
      so_free_connection_n := so_free_connection_n t - 1, so_onlineUserCount := so_onlineUserCount t + 1\<rparr>))"
  have "?Q fd s (a, s')"
  proof (rule ngx_get_connection.raw_induct [OF _ assms(1), where P = ?Q])
    fix get isock s r
    assume IH: "\<And>isock s r. get isock s = Some r \<Longrightarrow> ?Q isock s r"
      and body: "(case so_freeConnectionList s of
          [] \<Rightarrow> get isock (create_connection s)
        | a # fr \<Rightarrow> Some (a, upd_conn a (GetOneToUse isock)
            (s\<lparr>so_freeConnectionList := fr, so_free_connection_n := so_free_connection_n s - 1,
               so_onlineUserCount := so_onlineUserCount s + 1\<rparr>))) = Some r"
    show "?Q isock s r"
    proof (cases "so_freeConnectionList s")
      case Nil
      with body IH [of isock "create_connection s" r] assms(3) show ?thesis by simp
    next
      case (Cons a fr)
      with body show ?thesis by (intro impI exI [of _ s] exI [of _ fr]) auto
    qed
  qed
  with assms(2) show ?thesis by simp
qed

text \<open>A pool that has grown: the new connections are free and everything else is as it was.\<close>

definition grown :: "csock \<Rightarrow> csock \<Rightarrow> bool" where
  "grown s t \<longleftrightarrow> length (so_connectionList s) \<le> length (so_connectionList t) \<and>
     (\<forall>b < length (so_connectionList s). conn b t = conn b s) \<and>
     so_freeConnectionList t = so_freeConnectionList s @ [length (so_connectionList s)..<length (so_connectionList t)] \<and>
     so_recyconnectionList t = so_recyconnectionList s \<and> headers t = headers s \<and> so_epoll t = so_epoll s \<and>
     (\<forall>b. length (so_connectionList s) \<le> b \<and> b < length (so_connectionList t) \<longrightarrow>
        cn_iCurrsequence (conn b t) = 1 \<and> cn_whandler (conn b t) = No_write)"

lemma grown_one: "grown s t \<Longrightarrow> grown s (create_one i t)"
  by (auto simp: grown_def create_one_def add_connection_def Let_def conn_def nth_append headers_def
      GetOneToUse_def new_connection_def less_Suc_eq)

lemma grown_create: "grown s (create_connection s)"
proof -
  have "grown s (fold create_one is t)" if "grown s t" for "is" t
    using that by (induction "is" arbitrary: t) (auto intro: grown_one)
  moreover have "grown s s" by (auto simp: grown_def)
  ultimately have g: "grown s (fold create_one [0..<nat (so_worker_connections s)] s)" by blast
  have "grown s (t\<lparr>so_total_connection_n := n\<rparr>) = grown s t" for t n
    by (simp add: grown_def headers_def)
  with g show ?thesis by (simp add: create_connection_def Let_def)
qed

lemma grown_use: "grown s t \<Longrightarrow> in_use b t = in_use b s"
  by (auto simp: grown_def in_use_def idle_def)

lemma grown_served:
  assumes "grown s t" and "served k s" and "pool_ok t"
  shows "served k t"
proof -
  note p = served_parts [OF assms(2)]
  have c: "conn b t = conn b s" if "b < length (so_connectionList s)" for b
    using that assms(1) by (simp add: grown_def)
  have lt: "b < length (so_connectionList s)" if "b \<in> set (so_recyconnectionList s)" for b
    using that p(1) by (simp add: pool_ok_def idle_def)
  have le: "b < length (so_connectionList s)" if "so_epoll s fd = Some (ev, b)" for fd ev b
    using that p(1) by (auto simp: pool_ok_def)
  note g = assms(1) [unfolded grown_def]
  have "roles_ok t"
  proof (rule rolesI)
    show "cn_fd (conn b t) \<noteq> -1 \<and> (client (conn b t) \<or> listener (conn b t))" if "in_use b t" for b
      using that rolesD(1) [OF p(2), of b] c [of b] by (simp add: grown_use [OF assms(1)]) (simp add: in_use_def)
    show "client (conn b t)" if "b \<in> set (so_recyconnectionList t)" for b
      using that rolesD(2) [OF p(2), of b] lt [of b] c [of b] g by simp
    show "client (conn b t) \<or> ev AND EPOLLOUT = 0" if "so_epoll t fd = Some (ev, b)" for fd ev b
      using that rolesD(3) [OF p(2), of fd ev b] le [of fd ev b] c [of b] g by simp
  qed
  moreover have "msg_ok h t" if "msg_ok h s" for h
    using that c [of "mh_conn h"] g grown_use [OF assms(1)] by (simp add: msg_ok_def current_def)
  then have "mail_ok t" using p(3) g by (simp add: mail_ok_def)
  moreover have "unat (cn_iCurrsequence (conn b t)) + k < 2 ^ 64" if "b < length (so_connectionList t)" for b
  proof (cases "b < length (so_connectionList s)")
    case True
    then show ?thesis using p(4) c by (simp add: fits_def)
  next
    case False
    then have "cn_iCurrsequence (conn b t) = 1" using that g by simp
    then show ?thesis using p(4) by (simp add: fits_def)
  qed
  then have "fits k t" using p(4) by (simp add: fits_def)
  ultimately show ?thesis using assms(3) by (simp add: served_def)
qed

lemma get_connection_served:
  assumes "ngx_get_connection fd s = Some (a, s1)" and "served k s"
  obtains t fr where "served k t" and "so_epoll t = so_epoll s" and "so_freeConnectionList t = a # fr"
    and "s1 = upd_conn a (GetOneToUse fd) (t\<lparr>so_freeConnectionList := fr,
      so_free_connection_n := so_free_connection_n t - 1, so_onlineUserCount := so_onlineUserCount t + 1\<rparr>)"
proof -
  have "served k (create_connection t) \<and> so_epoll (create_connection t) = so_epoll s"
    if "served k t \<and> so_epoll t = so_epoll s" for t
    using that grown_served [OF grown_create, of k t] create_connection_ok [of t] grown_create [of t]
    by (simp add: served_def grown_def)
  with get_connection_run [OF assms(1), of "\<lambda>t. served k t \<and> so_epoll t = so_epoll s"] assms(2) that show ?thesis
    by blast
qed

text \<open>What becomes of a new descriptor: refused, given back, or a client that is registered.\<close>

definition keeps_number :: "(connection \<Rightarrow> connection) \<Rightarrow> bool" where
  "keeps_number f \<longleftrightarrow> (\<forall>c. cn_fd (f c) = cn_fd c \<and> cn_iCurrsequence (f c) = cn_iCurrsequence c)"

lemma add_event:
  "snd (ngx_epoll_oper_event mem fd EPOLL_CTL_ADD flag bc a s) =
     (if fst (ngx_epoll_oper_event mem fd EPOLL_CTL_ADD flag bc a s)
      then s\<lparr>so_epoll := (so_epoll s)(fd \<mapsto> (flag, a))\<rparr> else s)"
  by (simp add: ngx_epoll_oper_event_def epoll_ctl_def)

lemma accept_one_outcome:
  assumes "accept_one now oldc fd addr nb mem s = Some (b, s')"
  obtains (refused) "s' = close_fd fd s"
  | (given_back) a s1 f where "ngx_get_connection fd s = Some (a, s1)" and "keeps_number f"
      and "s' = ngx_close_connection a (upd_conn a f s1)"
  | (taken) a s1 f q where "ngx_get_connection fd s = Some (a, s1)" and "keeps_number f" and "\<forall>c. client (f c)"
      and "s' = (upd_conn a f s1)\<lparr>so_epoll := (so_epoll s1)(fd \<mapsto> (EPOLLIN, a)), so_timer := q\<rparr>"
proof -
  consider "s' = close_fd fd s" | a s1 where "ngx_get_connection fd s = Some (a, s1)"
    using assms by (auto simp: accept_one_def split: if_splits option.splits)
  then show ?thesis
  proof cases
    case 1
    then show ?thesis by (rule refused)
  next
    case (2 a s1)
    let ?fa = "\<lambda>c. c\<lparr>cn_sockaddr := Some addr\<rparr>"
    let ?s2 = "upd_conn a ?fa s1"
    let ?g = "\<lambda>c. c\<lparr>cn_listening := cn_listening (conn oldc ?s2), cn_rhandler := Http_read, cn_whandler := Http_write\<rparr>"
    let ?f = "?g \<circ> ?fa"
    have two: "upd_conn a ?g ?s2 = upd_conn a ?f s1"
      by (cases "a < length (so_connectionList s1)") (simp_all add: upd_conn_def conn_def list_update_beyond)
    have k: "keeps_number ?fa" "keeps_number ?f" "\<forall>c. client (?f c)"
      by (simp_all add: keeps_number_def client_def)
    let ?e = "ngx_epoll_oper_event mem fd EPOLL_CTL_ADD EPOLLIN 0 a (upd_conn a ?f s1)"
    obtain added s4 where e: "?e = (added, s4)" by fastforce
    have q: "\<exists>q. (if P then s4\<lparr>so_timer := r\<rparr> else s4) = s4\<lparr>so_timer := q\<rparr>" for P r
      by (cases P) (auto intro: exI [of _ "so_timer s4"])
    have "s' = close_fd fd s \<or> s' = ngx_close_connection a ?s2 \<or> (\<not> added \<and> s' = ngx_close_connection a s4) \<or>
        (added \<and> (\<exists>P r. s' = (if P then s4\<lparr>so_timer := r\<rparr> else s4)))"
      using assms unfolding accept_one_def 2 option.case prod.case Let_def two e
      by (cases added) (simp_all split: if_split_asm, blast+)
    with q consider "s' = close_fd fd s" | "s' = ngx_close_connection a ?s2"
      | "\<not> fst ?e" "s' = ngx_close_connection a (snd ?e)" | q where "fst ?e" "s' = (snd ?e)\<lparr>so_timer := q\<rparr>"
      unfolding e fst_conv snd_conv by metis
    then show ?thesis
    proof cases
      case 1
      then show ?thesis by (rule refused)
    next
      case c: 2
      show ?thesis by (rule given_back [OF 2 k(1) c])
    next
      case 3
      then have "s' = ngx_close_connection a (upd_conn a ?f s1)" by (simp add: add_event)
      then show ?thesis by (rule given_back [OF 2 k(2)])
    next
      case (4 q)
      then have "s' = (upd_conn a ?f s1)\<lparr>so_epoll := (so_epoll s1)(fd \<mapsto> (EPOLLIN, a)), so_timer := q\<rparr>"
        by (simp add: add_event)
      then show ?thesis by (rule taken [OF 2 k(2,3)])
    qed
  qed
qed


lemma close_fd_served: "served k s \<Longrightarrow> served k (close_fd fd s)"
proof (rule frame_ok [of k s])
  assume s: "served k s"
  then show "pool_ok (close_fd fd s)" by (simp add: served_def close_fd_ok)
  show "client (conn b s) \<or> ev AND EPOLLOUT = 0" if "so_epoll (close_fd fd s) g = Some (ev, b)" for g ev b
    using that rolesD(3) [OF served_parts(2) [OF s], of g ev b] by (simp split: if_splits)
qed (simp_all add: headers_def, simp_all add: close_fd_def)

lemma word_plus2: "unat (x :: u64) + (2 + k) < 2 ^ 64 \<Longrightarrow> unat (x + 1 + 1) = unat x + 2"
  using unat_count [of x "Suc k"] unat_count [of "x + 1" k] by simp

text \<open>
  The state after a descriptor was taken: connection \<open>a\<close> left the free list, and is in use
  (\<open>good\<close>) or back at the end of it.
\<close>

lemma after_take:
  assumes "served (2 + k) t" and "so_freeConnectionList t = a # fr" and "pool_ok s'"
    and "length (so_connectionList s') = length (so_connectionList t)"
    and "\<And>b. b \<noteq> a \<Longrightarrow> conn b s' = conn b t"
    and "so_freeConnectionList s' = (if good then fr else fr @ [a])"
    and "so_recyconnectionList s' = so_recyconnectionList t" and "headers s' = headers t"
    and "cn_iCurrsequence (conn a s') = (if good then cn_iCurrsequence (conn a t) + 1 else cn_iCurrsequence (conn a t) + 1 + 1)"
    and "good \<Longrightarrow> (client (conn a s') \<or> listener (conn a s')) \<and> cn_fd (conn a s') \<noteq> -1"
    and "\<And>fd ev b. so_epoll s' fd = Some (ev, b) \<Longrightarrow>
      so_epoll t fd = Some (ev, b) \<or> (b = a \<and> (client (conn a s') \<or> ev AND EPOLLOUT = 0))"
  shows "served k s'"
proof -
  note p = served_parts [OF assms(1)]
  have a: "a < length (so_connectionList t)" "\<not> in_use a t" "a \<notin> set (so_recyconnectionList t)"
    using p(1) assms(2) by (auto simp: pool_ok_def idle_def in_use_def)
  have u: "in_use b s' \<longleftrightarrow> in_use b t \<or> (good \<and> b = a)" for b
    using a p(1) assms(2,3) by (auto simp: in_use_def idle_def assms(4,6,7) pool_ok_def split: if_splits)
  have ne: "b \<noteq> a" if "so_epoll t fd = Some (ev, b)" for fd ev b
    using that a(2) registered_in_use [OF p(1) that] by auto
  have "unat (cn_iCurrsequence (conn a t)) + (2 + k) < 2 ^ 64" using p(4) a(1) by (simp add: fits_def)
  then have up: "unat (cn_iCurrsequence (conn a t) + 1) = unat (cn_iCurrsequence (conn a t)) + 1"
      "unat (cn_iCurrsequence (conn a t) + 1 + 1) = unat (cn_iCurrsequence (conn a t)) + 2"
    using unat_count [of _ "Suc k"] word_plus2 by simp_all
  have seq: "unat (cn_iCurrsequence (conn b s')) = unat (cn_iCurrsequence (conn b t)) +
      (if b = a then if good then 1 else 2 else 0)" for b
    using assms(5) [of b] up by (auto simp: assms(9))
  have "roles_ok s'"
  proof (rule rolesI)
    show "cn_fd (conn b s') \<noteq> -1 \<and> (client (conn b s') \<or> listener (conn b s'))" if "in_use b s'" for b
      using that rolesD(1) [OF p(2), of b] assms(5) [of b] assms(10) a(2) by (cases "b = a") (auto simp: u)
    show "client (conn b s')" if "b \<in> set (so_recyconnectionList s')" for b
      using that rolesD(2) [OF p(2), of b] assms(5) [of b] a(3) by (cases "b = a") (auto simp: assms(7))
    show "client (conn b s') \<or> ev AND EPOLLOUT = 0" if "so_epoll s' fd = Some (ev, b)" for fd ev b
      using assms(11) [OF that] rolesD(3) [OF p(2), of fd ev b] ne [of fd ev b] assms(5) [of b] assms(10) by auto
  qed
  moreover have "msg_ok h s'" if "msg_ok h t" for h
    using that by (rule msg_step [OF _ _ refl seq]) (use assms(5) in \<open>auto simp: assms(4) u split: if_splits\<close>)
  then have "mail_ok s'" using p(3) by (simp add: mail_ok_def assms(8))
  moreover have "fits k s'" using p(4) by (auto simp: fits_def assms(4) seq)
  ultimately show ?thesis using assms(3) by (simp add: served_def)
qed


lemma close_connection_facts:
  assumes "cn_fd (conn a s) = fd" and "fd \<noteq> -1" and "a < length (so_connectionList s)"
  shows "b \<noteq> a \<Longrightarrow> conn b (ngx_close_connection a s) = conn b s"
    and "cn_iCurrsequence (conn a (ngx_close_connection a s)) = cn_iCurrsequence (conn a s) + 1"
    and "length (so_connectionList (ngx_close_connection a s)) = length (so_connectionList s)"
    and "so_freeConnectionList (ngx_close_connection a s) = so_freeConnectionList s @ [a]"
    and "so_recyconnectionList (ngx_close_connection a s) = so_recyconnectionList s"
    and "headers (ngx_close_connection a s) = headers s"
    and "so_epoll (ngx_close_connection a s) = (so_epoll s)(fd := None)"
proof -
  have h: "headers (upd_conn a f s) = headers s" "headers (close_fd fd s) = headers s" for a f fd s
    by (simp_all add: headers_def upd_conn_def close_fd_def)
  show "b \<noteq> a \<Longrightarrow> conn b (ngx_close_connection a s) = conn b s"
    "cn_iCurrsequence (conn a (ngx_close_connection a s)) = cn_iCurrsequence (conn a s) + 1"
    "length (so_connectionList (ngx_close_connection a s)) = length (so_connectionList s)"
    "so_freeConnectionList (ngx_close_connection a s) = so_freeConnectionList s @ [a]"
    "so_recyconnectionList (ngx_close_connection a s) = so_recyconnectionList s"
    "headers (ngx_close_connection a s) = headers s"
    "so_epoll (ngx_close_connection a s) = (so_epoll s)(fd := None)"
    using assms by (simp_all add: ngx_close_connection_def Let_def conn_free conn_upd PutOneToFree_def h)
qed

lemma accepted_ok:
  assumes "so_epoll s fd = None" and "fd \<noteq> -1" and "accept_one now oldc fd addr nb mem s = Some (b, s')"
    and "served (2 + k) s"
  shows "served k s'"
proof -
  have ok: "pool_ok s'" by (rule accept_one_ok [OF served_parts(1) [OF assms(4)] assms(1-3)])
  have k: "served k s" using assms(4) by (auto simp: served_def fits_def)
  from assms(3) show ?thesis
  proof (cases rule: accept_one_outcome)
    case refused
    then show ?thesis using close_fd_served [OF k] by simp
  next
    case (given_back a s1 f)
    from get_connection_served [OF given_back(1) assms(4)] obtain t fr where
      t: "served (2 + k) t" "so_epoll t = so_epoll s" "so_freeConnectionList t = a # fr"
        "s1 = upd_conn a (GetOneToUse fd) (t\<lparr>so_freeConnectionList := fr,
          so_free_connection_n := so_free_connection_n t - 1, so_onlineUserCount := so_onlineUserCount t + 1\<rparr>)" .
    have a: "a < length (so_connectionList t)" using served_parts(1) [OF t(1)] t(3) by (simp add: pool_ok_def idle_def)
    let ?u = "upd_conn a f s1"
    have c: "conn b ?u = (if b = a then f (GetOneToUse fd (conn a t)) else conn b t)" for b
      using a by (simp add: t(4) conn_upd)
    have f: "cn_fd (f x) = cn_fd x" "cn_iCurrsequence (f x) = cn_iCurrsequence x" for x
      using given_back(2) by (simp_all add: keeps_number_def)
    have g: "cn_fd (conn a ?u) = fd" "a < length (so_connectionList ?u)"
      using a c [of a] f by (simp, simp add: t(4))
    have h: "headers ?u = headers t" by (simp add: headers_def upd_conn_def t(4))
    note cl = close_connection_facts [OF g(1) assms(2) g(2)]
    have s1: "so_epoll s1 = so_epoll t" "so_recyconnectionList s1 = so_recyconnectionList t" "so_freeConnectionList s1 = fr"
        "length (so_connectionList s1) = length (so_connectionList t)" by (simp_all add: t(4))
    have e: "so_epoll t g = Some (ev, x)" if "so_epoll s' g = Some (ev, x)" for g ev x
      using that by (simp add: given_back(3) cl s1 split: if_splits)
    show ?thesis
      by (rule after_take [where t = t and a = a and fr = fr and good = False, OF t(1,3) ok])
        (use e in \<open>simp_all add: given_back(3) cl c h f s1\<close>, simp_all add: GetOneToUse_def)
  next
    case (taken a s1 f q)
    from get_connection_served [OF taken(1) assms(4)] obtain t fr where
      t: "served (2 + k) t" "so_epoll t = so_epoll s" "so_freeConnectionList t = a # fr"
        "s1 = upd_conn a (GetOneToUse fd) (t\<lparr>so_freeConnectionList := fr,
          so_free_connection_n := so_free_connection_n t - 1, so_onlineUserCount := so_onlineUserCount t + 1\<rparr>)" .
    have a: "a < length (so_connectionList t)" using served_parts(1) [OF t(1)] t(3) by (simp add: pool_ok_def idle_def)
    have c: "conn b s' = (if b = a then f (GetOneToUse fd (conn a t)) else conn b t)" for b
      using a by (simp add: taken(4) t(4) conn_upd)
    have f: "cn_fd (f x) = cn_fd x" "cn_iCurrsequence (f x) = cn_iCurrsequence x" "client (f x)" for x
      using taken(2,3) by (simp_all add: keeps_number_def)
    have h: "headers s' = headers t" by (simp add: headers_def upd_conn_def t(4) taken(4))
    have e: "so_epoll t g = Some (ev, x) \<or> x = a" if "so_epoll s' g = Some (ev, x)" for g ev x
      using that by (auto simp: taken(4) t(4) split: if_splits)
    show ?thesis
      by (rule after_take [where t = t and a = a and fr = fr and good = True, OF t(1,3) ok])
        (use e assms(2) in \<open>simp_all add: c h f\<close>, simp_all add: t(4) taken(4) GetOneToUse_def)
  qed
qed

section \<open>The system\<close>

lemma net_step_served:
  assumes "net_step c s s'" and "served (c + k) s"
  shows "served k s'"
  using assms by (cases rule: net_step.cases)
    (simp_all add: changed_ok counted_ok queued_ok interest_ok closed_ok accepted_ok)

interpretation sock: metered_system turn_step served
proof
  fix c k s s'
  assume "turn_step c s s'" and "served (c + k) s"
  then show "served k s'" by (cases rule: turn_step.cases) (simp_all add: net_step_served recycled_ok)
qed

lemma busy_run: "spends net_step c s t \<Longrightarrow> spends turn_step c s t"
  by (induction rule: spends.induct) (auto intro: spends.intros turn_step.busy)

text \<open>The connections that wait to be freed go on waiting, from the time they were closed.\<close>

definition waits_since :: "nat \<Rightarrow> int \<Rightarrow> csock \<Rightarrow> bool" where
  "waits_since a t s \<longleftrightarrow> a \<in> set (so_recyconnectionList s) \<and> cn_inRecyTime (conn a s) = t"

lemma accepted_waits:
  assumes "accept_one now oldc fd addr nb mem s = Some (b, s')" and "served (2 + k) s" and "waits_since a t s"
  shows "waits_since a t s'"
proof -
  have up: "waits_since a t (upd_conn c f x)" if "waits_since a t x" "a \<noteq> c" for c f x
    using that by (simp add: waits_since_def conn_upd)
  have get: "c \<noteq> a \<and> waits_since a t s1" if g: "ngx_get_connection fd s = Some (c, s1)" for c s1
  proof -
    define P where "P t' \<longleftrightarrow> pool_ok t' \<and> waits_since a t t'" for t'
    have "P (create_connection x)" if "P x" for x
    proof -
      have "a < length (so_connectionList x)" using that by (simp add: P_def waits_since_def pool_ok_def idle_def)
      then show ?thesis using that grown_create [of x] create_connection_ok [of x]
        by (simp add: P_def waits_since_def grown_def)
    qed
    moreover have "P s" using assms(2,3) by (simp add: P_def served_def)
    ultimately obtain x fr where x: "P x" "so_freeConnectionList x = c # fr"
        "s1 = upd_conn c (GetOneToUse fd) (x\<lparr>so_freeConnectionList := fr,
          so_free_connection_n := so_free_connection_n x - 1, so_onlineUserCount := so_onlineUserCount x + 1\<rparr>)"
      using get_connection_run [OF g, of P] by blast
    have "c \<noteq> a" using x(1,2) by (auto simp: P_def waits_since_def pool_ok_def idle_def)
    then show ?thesis using x(1) by (simp add: x(3) up waits_since_def P_def conn_upd)
  qed
  from assms(1) show ?thesis
  proof (cases rule: accept_one_outcome)
    case refused
    then show ?thesis using assms(3) by (simp add: waits_since_def)
  next
    case (given_back c s1 f)
    note g = get [OF given_back(1)]
    have "conn a (ngx_close_connection c (upd_conn c f s1)) = conn a s1"
      using g by (simp add: ngx_close_connection_def Let_def conn_free conn_upd)
    then show ?thesis using g by (simp add: given_back(3) waits_since_def ngx_close_connection_def Let_def)
  next
    case (taken c s1 f q)
    note g = get [OF taken(1)]
    have "conn a s' = conn a s1" using g by (simp add: taken(4) conn_upd)
    then show ?thesis using g by (simp add: taken(4) waits_since_def)
  qed
qed

lemma net_step_waits:
  assumes "net_step c s s'" and "served (c + k) s" and "waits_since a t s"
  shows "waits_since a t s'"
  using assms
proof (cases rule: net_step.cases)
  case (changed f b)
  then show ?thesis using assms(3) by (auto simp: waits_since_def conn_upd quiet_def)
next
  case counted
  then show ?thesis using assms(3) same_pool_conn [of s s'] by (simp add: waits_since_def same_pool_def)
next
  case (queued h)
  then show ?thesis using assms(3) same_pool_conn [of s s'] by (simp add: waits_since_def same_pool_def)
next
  case (interest b mem flag bc)
  then show ?thesis using assms(3)
    by (auto simp: waits_since_def ngx_epoll_oper_event_def Let_def conn_upd)
next
  case (closed b now)
  then have p: "pool_ok s" "b < length (so_connectionList s)"
    using assms(2) by (auto simp: served_def in_use_def pool_ok_def idle_def)
  show ?thesis
    using assms(3) closed zdClose_pool(1) [OF p, of now] zdClose_pool(4) [OF p, where now = now and b = a]
    by (auto simp: waits_since_def)
next
  case (accepted fd now oldc addr nb mem b)
  then show ?thesis using accepted_waits assms(2,3) by simp
qed

interpretation waits: metered_system net_step "\<lambda>k s. served k s \<and> waits_since a t s" for a t
  by unfold_locales (blast intro: net_step_served net_step_waits)

lemma served_more:
  assumes "served 0 s" and "\<forall>a < length (so_connectionList s). unat (cn_iCurrsequence (conn a s)) < 2 ^ 63"
    and "k < 2 ^ 63"
  shows "served k s"
proof -
  have "unat (cn_iCurrsequence (conn a s)) + k < 2 ^ 64" if "a < length (so_connectionList s)" for a
  proof -
    have "unat (cn_iCurrsequence (conn a s)) < 2 ^ 63" using assms(2) that by blast
    with assms(3) show ?thesis by simp
  qed
  with assms(1,3) show ?thesis by (simp add: served_def fits_def)
qed

end
