(* ===== verification/Server.thy ===== *)
theory Server
  imports NetSteps Logic Worker
begin

text \<open>
  A worker as a whole: the threads of \<open>CSocket\<close> and of the thread pool, and its event loop,
  on the state they share. One action is one turn of one of them (\<open>worker_do\<close>): an event of
  epoll, a message taken from the queue of received chunks, a message sent, a turn of the
  recycler or of the timer's monitor. A turn is taken as a whole; what the finer interleavings of
  the lock-free queue and of the thread pool do is in LockFreeQueue and ThreadPool. The system
  is a layer over NetSteps, so its invariant holds in every reachable state.
\<close>

section \<open>Actions\<close>

datatype action =
    Do_event int ready_event
  | Do_recv parse_env int
  | Do_send bool bool int "send_result list"
  | Do_recycle int
  | Do_monitor int

text \<open>
  \<open>Held\<close> is a thread that waits or loops, \<open>Ends\<close> the end of the process by a null pointer,
  an empty function or an abort.
\<close>

datatype 's outcome = Goes_on "'s logic" | Held | Ends

definition with_net :: "net \<Rightarrow> 's logic \<Rightarrow> 's logic" where
  "with_net w l = l\<lparr>lg_net := w\<rparr>"

abbreviation sock_of :: "'s logic \<Rightarrow> csock" where
  "sock_of l \<equiv> nt_sock (lg_net l)"

text \<open>
  A send thread waits for the semaphore; a signal ends the wait (\<open>interrupted\<close>), and the
  thread goes on as if it had got the semaphore.
\<close>

definition take_sem :: "bool \<Rightarrow> net \<Rightarrow> net option" where
  "take_sem interrupted w =
     (if interrupted then Some w
      else if nt_sem w = 0 then None
      else Some (w\<lparr>nt_sem := nt_sem w - 1\<rparr>))"

fun worker_do :: "action \<Rightarrow> 's logic \<Rightarrow> 's outcome" where
  "worker_do (Do_event now e) l =
     (case process_event now e (lg_net l) of
        Handled w \<Rightarrow> Goes_on (with_net w l)
      | Bad_function_call w \<Rightarrow> Ends
      | Stuck \<Rightarrow> Held)"
| "worker_do (Do_recv env now) l =
     (case ThreadFunc_turn env now l of
        Done l' \<Rightarrow> Goes_on l'
      | Raised_out x l' \<Rightarrow> Ends
      | Hangs \<Rightarrow> Held
      | Process_ends \<Rightarrow> Ends)"
| "worker_do (Do_send interrupted mem now rs) l =
     (case take_sem interrupted (lg_net l) of
        None \<Rightarrow> Held
      | Some w \<Rightarrow>
          (case ServerSendQueue_turn False mem now rs w of
             Turned w' rs' \<Rightarrow> Goes_on (with_net w' l)
           | Null_deref \<Rightarrow> Ends
           | Blocked \<Rightarrow> Held
           | Ended \<Rightarrow> Held))"
| "worker_do (Do_recycle now) l = Goes_on (with_net (on_sock (ServerRecyConnection_turn now) (lg_net l)) l)"
| "worker_do (Do_monitor now) l =
     (case monitor_turn now (so_timer (sock_of l)) of
        None \<Rightarrow> Held
      | Some q \<Rightarrow> Goes_on (with_net (on_sock (\<lambda>s. s\<lparr>so_timer := q\<rparr>) (lg_net l)) l))"

section \<open>What the kernel guarantees\<close>

fun accepted_fds :: "accept_result list \<Rightarrow> int list" where
  "accepted_fds [] = []"
| "accepted_fds (Accepted fd addr nb mem # rs) = fd # accepted_fds rs"
| "accepted_fds (Failed e # rs) = accepted_fds rs"

definition new_fds :: "csock \<Rightarrow> accept_result list \<Rightarrow> bool" where
  "new_fds s rs \<longleftrightarrow> distinct (accepted_fds rs) \<and> -1 \<notin> set (accepted_fds rs) \<and>
     (\<forall>fd \<in> set (accepted_fds rs). so_epoll s fd = None)"

text \<open>
  An event is for a connection that is registered, for output only if it was asked for; it
  may also be an old one, for a connection that was closed since and waits to be freed. Nothing is
  received on a closed descriptor, and \<open>accept\<close> gives new descriptors.
\<close>

definition event_possible :: "ready_event \<Rightarrow> csock \<Rightarrow> bool" where
  "event_possible e s \<longleftrightarrow>
     (case so_epoll s (cn_fd (conn (re_conn e) s)) of
        None \<Rightarrow> re_conn e \<in> set (so_recyconnectionList s)
      | Some (ev, a) \<Rightarrow> a = re_conn e \<and> (re_events e AND EPOLLOUT \<noteq> 0 \<longrightarrow> ev AND EPOLLOUT \<noteq> 0)) \<and>
     (case re_recv e of Received d \<Rightarrow> cn_fd (conn (re_conn e) s) \<noteq> -1 | Recv_failed x \<Rightarrow> True) \<and>
     new_fds s (re_accepts e) \<and> length (re_accepts e) < 2 ^ 32"

text \<open>The other threads may take a turn at any time, and a signal may end any wait for the semaphore.\<close>

fun possible :: "action \<Rightarrow> 's logic \<Rightarrow> bool" where
  "possible (Do_event now e) l = event_possible e (sock_of l)"
| "possible _ l = True"

text \<open>No sequence number is near its end.\<close>

definition calm :: "csock \<Rightarrow> bool" where
  "calm s \<longleftrightarrow> (\<forall>a < length (so_connectionList s). unat (cn_iCurrsequence (conn a s)) < 2 ^ 63)"

inductive worker_step :: "'s logic \<Rightarrow> 's logic \<Rightarrow> bool" where
  act: "possible x l \<Longrightarrow> calm (sock_of l) \<Longrightarrow> worker_do x l = Goes_on l' \<Longrightarrow> worker_step l l'"

inductive_cases worker_stepE: "worker_step l l'"

text \<open>Runs that count the turns in which a signal ended the wait of a send thread.\<close>

fun interruption :: "action \<Rightarrow> nat" where
  "interruption (Do_send True mem now rs) = 1"
| "interruption _ = 0"

inductive worker_run :: "nat \<Rightarrow> 's logic \<Rightarrow> 's logic \<Rightarrow> bool" where
  no_turn: "worker_run 0 l l"
| one_turn: "worker_run n l l1 \<Longrightarrow> possible x l1 \<Longrightarrow> calm (sock_of l1) \<Longrightarrow> worker_do x l1 = Goes_on l2 \<Longrightarrow>
    worker_run (n + interruption x) l l2"

lemma worker_run_steps: "worker_run n l l' \<Longrightarrow> worker_step\<^sup>*\<^sup>* l l'"
  by (induction rule: worker_run.induct) (auto intro: rtranclp.rtrancl_into_rtrancl worker_step.act)

text \<open>A worker that has started, with the application the program has set up.\<close>

definition new_sock :: "csock \<Rightarrow> bool" where
  "new_sock s \<longleftrightarrow> started s \<and> so_MsgSendQueue s = [] \<and> so_MsgRecvQueue s = []"

definition worker_logic :: "csock \<Rightarrow> 's router \<Rightarrow> 's middleware option list \<Rightarrow> 's \<Rightarrow> 's logic" where
  "worker_logic s rt ms st =
     \<lparr>lg_net = \<lparr>nt_sock = s, nt_wire = [], nt_sem = 0\<rparr>, lg_router = rt, lg_chain = ms, lg_app = st, lg_waited = 0\<rparr>"

section \<open>Turns as runs of steps\<close>

definition works :: "nat \<Rightarrow> csock \<Rightarrow> csock \<Rightarrow> bool" where
  "works n s t \<longleftrightarrow> (\<exists>c \<le> n. spends net_step c s t)"

lemma works_none [simp]: "works n s s"
  unfolding works_def by (blast intro: spends.none)

lemma works_step: "net_step c s t \<Longrightarrow> c \<le> n \<Longrightarrow> works n s t"
  unfolding works_def by (blast intro: spends_step)

lemma works_trans: "works m s t \<Longrightarrow> works n t u \<Longrightarrow> m + n \<le> k \<Longrightarrow> works k s u"
  unfolding works_def using spends_trans [of net_step] by (meson add_le_mono le_trans)

lemma works_more: "works m s t \<Longrightarrow> m \<le> n \<Longrightarrow> works n s t"
  unfolding works_def by (meson le_trans)

lemma works_served: "works n s t \<Longrightarrow> served (n + k) s \<Longrightarrow> served k t"
proof -
  assume "works n s t" and s: "served (n + k) s"
  then obtain c where c: "c \<le> n" "spends net_step c s t" by (auto simp: works_def)
  have "served (c + k) s" using s c(1) by (auto simp: served_def fits_def)
  with busy_run [OF c(2)] show "served k t" by (rule sock.pays_run)
qed

lemma works_pool: "works n s t \<Longrightarrow> served n s \<Longrightarrow> pool_ok t"
  using works_served [of n s t 0] by (simp add: served_parts)

text \<open>A client in use stays one, or waits to be freed, under the steps of a turn.\<close>

lemma works_changed: "quiet f \<Longrightarrow> works n s (upd_conn a f s)"
  by (rule works_step [OF net_step.changed]) simp_all

lemma works_counted: "same_pool s t \<Longrightarrow> headers t \<subseteq> headers s \<Longrightarrow> works n s t"
  by (rule works_step [OF net_step.counted]) simp_all

lemma works_closed:
  "(in_use a s \<and> client (conn a s)) \<or> a \<in> set (so_recyconnectionList s) \<Longrightarrow> works 1 s (zdClosesocketProc now a s)"
  by (rule works_step [OF net_step.closed]) simp_all

lemma works_interest:
  "in_use a s \<Longrightarrow> client (conn a s) \<Longrightarrow>
     works n s (snd (ngx_epoll_oper_event mem (cn_fd (conn a s)) EPOLL_CTL_MOD flag bc a s))"
  by (rule works_step [OF net_step.interest]) simp_all

definition using_client :: "nat \<Rightarrow> csock \<Rightarrow> bool" where
  "using_client a s \<longleftrightarrow> in_use a s \<and> client (conn a s)"

lemma using_changed [simp]: "quiet f \<Longrightarrow> using_client a (upd_conn b f s) = using_client a s"
  by (auto simp: using_client_def in_use_def conn_upd client_def quiet_def)

lemma using_interest [simp]:
  "using_client a (snd (ngx_epoll_oper_event mem fd op flag bc b s)) = using_client a s"
  by (simp add: using_client_def in_use_def client_def)

lemma using_same: "same_pool s t \<Longrightarrow> using_client a t = using_client a s"
  by (simp add: using_client_def same_pool_use same_pool_conn)

lemma quiet_simps [simp]:
  "quiet (\<lambda>c. c\<lparr>cn_psendbuf := g c\<rparr>)" "quiet (\<lambda>c. c\<lparr>cn_psendbuf := g c, cn_sendCount := n c\<rparr>)"
  "quiet (\<lambda>c. c\<lparr>cn_iSendCount := n c\<rparr>)" "quiet (\<lambda>c. c\<lparr>cn_sequence := q c\<rparr>)"
  "quiet (\<lambda>c. c\<lparr>cn_context := x c\<rparr>)" "quiet (\<lambda>c. c\<lparr>cn_ishttpClose := b c\<rparr>)"
  by (simp_all add: quiet_def)

section \<open>The event loop\<close>

lemma new_fds_accepts:
  assumes "ngx_event_accept now a rs s = Some t" and "new_fds s rs" and "pool_ok s"
  shows "works (2 * length rs) s t"
  using assms
proof (induction now a rs s rule: ngx_event_accept.induct)
  case (2 now a e rs s)
  let ?s = "s\<lparr>so_use_accept4 := False\<rparr>"
  have "new_fds ?s rs" "pool_ok ?s" using 2(3,4) by (simp_all add: new_fds_def)
  moreover have "works 0 s ?s" by (rule works_counted) (simp_all add: same_pool_def headers_def)
  ultimately show ?case using 2(1,2) works_trans [of 0 s ?s "2 * length rs" t "2 * length (Failed e # rs)"]
    by (auto split: if_splits)
next
  case (3 now a fd addr nb mem rs s)
  obtain g s1 where g: "accept_one now a fd addr nb mem s = Some (g, s1)"
    using 3(2) by (auto split: option.splits)
  have fd: "so_epoll s fd = None" "fd \<noteq> -1" using 3(3) by (simp_all add: new_fds_def)
  then have w: "works 2 s s1" using works_step [OF net_step.accepted [OF _ _ g]] by blast
  have ok: "pool_ok s1" by (rule accept_one_ok [OF 3(4) fd g])
  have "so_epoll s1 x = None" if "x \<in> set (accepted_fds rs)" for x
  proof -
    have x: "x \<noteq> fd" "so_epoll s x = None" using that 3(3) by (auto simp: new_fds_def)
    from g show ?thesis
    proof (cases rule: accept_one_outcome)
      case (given_back b s2 f)
      then have "so_epoll s2 x = None" using get_connection_ok [OF given_back(1) 3(4)] x by simp
      then show ?thesis
        by (simp add: given_back(3) ngx_close_connection_def Let_def)
    next
      case (taken b s2 f q)
      then have "so_epoll s2 x = None" using get_connection_ok [OF taken(1) 3(4)] x by simp
      then show ?thesis using x by (simp add: taken(4))
    qed (use x in simp)
  qed
  then have n: "new_fds s1 rs" using 3(3) by (simp add: new_fds_def)
  show ?case
  proof (cases g)
    case True
    then have "works (2 * length rs) s1 t" using 3(1) [OF g refl _ _ n ok] 3(2) g by simp
    with w show ?thesis by (rule works_trans) simp
  next
    case False
    then show ?thesis using 3(2) g works_more [OF w] by simp
  qed
qed simp

lemma read_works:
  assumes "using_client a s \<or> (a \<in> set (so_recyconnectionList s) \<and> (\<forall>d. r \<noteq> Received d))"
  shows "works 1 s (ngx_http_read_request_handler now a r s)"
proof (cases r)
  case (Received d)
  then have u: "using_client a s" using assms by simp
  show ?thesis
  proof (cases "d = []")
    case True
    then show ?thesis using works_closed [of a s now] u by (simp add: ngx_http_read_request_handler_def Received using_client_def)
  next
    case False
    let ?f = "\<lambda>c. c\<lparr>cn_sequence := cn_sequence c + 1\<rparr>" let ?u = "upd_conn a ?f s"
    let ?h = "\<lparr>mh_conn = a, mh_iCurrsequence = cn_iCurrsequence (conn a s), mh_sequence = cn_sequence (conn a s)\<rparr>"
    let ?t = "inMsgRecvQueueAndSignal ?h (take (1024 * 1024) d) ?u"
    have "works 0 s ?u" by (rule works_changed) simp
    moreover have "net_step 0 ?u ?t"
    proof (rule net_step.queued [of _ _ ?h])
      show "in_use (mh_conn ?h) ?u" "client (conn (mh_conn ?h) ?u)"
        using u using_changed [of ?f a a s] by (simp_all add: using_client_def)
      show "current ?h ?u" by (simp add: current_def conn_upd)
    qed (auto simp: same_pool_def headers_def inMsgRecvQueueAndSignal_def)
    then have "works 0 ?u ?t" by (rule works_step) simp
    ultimately have "works 1 s ?t" by (rule works_trans) simp
    then show ?thesis using False by (simp add: ngx_http_read_request_handler_def Received Let_def)
  qed
next
  case (Recv_failed e)
  then show ?thesis using works_closed [of a s now] assms
    by (auto simp: ngx_http_read_request_handler_def using_client_def)
qed


lemma nt_sock_wants [simp]:
  "nt_sock (wants_out mem a bc w) =
     snd (ngx_epoll_oper_event mem (cn_fd (conn a (nt_sock w))) EPOLL_CTL_MOD EPOLLOUT bc a (nt_sock w))"
  by (simp add: wants_out_def)

lemma wants_works: "using_client a (nt_sock w) \<Longrightarrow> works 0 (nt_sock w) (nt_sock (wants_out mem a bc w))"
  unfolding nt_sock_wants using_client_def by (blast intro: works_interest)

lemma close_works: "using_client a (nt_sock w) \<Longrightarrow> works 1 (nt_sock w) (nt_sock (close_now now a w))"
  using works_closed [of a "nt_sock w" now] by (simp add: using_client_def)

lemma wants_using [simp]: "using_client b (nt_sock (wants_out mem a bc w)) = using_client b (nt_sock w)"
  by (simp del: conn_nt_sock)

lemma write_loop_works:
  "write_loop mem now a rs w = Some (w', rs') \<Longrightarrow> using_client a (nt_sock w) \<Longrightarrow>
     works 1 (nt_sock w) (nt_sock w')"
proof (induction mem now a rs w rule: write_loop.induct)
  case (1 mem now a rs w)
  obtain out n err r1 where sp: "sendproc (contents (cn_psendbuf (nconn a w))) rs = Some (out, n, err, r1)"
    using "1.prems"(1) by (subst (asm) write_loop.simps) (auto split: option.splits)
  let ?w1 = "put_wire (cn_fd (nconn a w)) out w"
  let ?w2 = "nupd a (\<lambda>c. c\<lparr>cn_psendbuf := retrieve (nat n) (cn_psendbuf c)\<rparr>) ?w1"
  let ?w3 = "wants_out mem a 1 ?w2"
  have u1: "using_client a (nt_sock ?w1)" and u2: "using_client a (nt_sock ?w2)" using "1.prems"(2) by simp_all
  then have u3: "using_client a (nt_sock ?w3)" by (simp only: wants_using)
  have s2: "works 0 (nt_sock w) (nt_sock ?w2)" using works_changed [of _ 0 "nt_sock w" a] by simp
  have s3: "works 0 (nt_sock w) (nt_sock ?w3)" by (rule works_trans [OF s2 wants_works [OF u2]]) simp
  consider (again) "0 < n" "write_loop mem now a r1 ?w2 = Some (w', rs')"
      "readableBytes (cn_psendbuf (nconn a ?w2)) \<noteq> 0"
    | (all) "w' = close_now now a ?w3 \<or> w' = ?w3"
    | (rest) "w' = wants_out mem a 0 ?w1" | (err) "w' = close_now now a ?w1"
    using "1.prems"(1) sp by (subst (asm) write_loop.simps) (auto simp: Let_def split: if_splits)
  then show ?case
  proof cases
    case again
    have "works 1 (nt_sock ?w2) (nt_sock w')"
      using "1.IH" [OF sp refl refl refl refl again(1) refl again(3)] again(2) u2 by simp
    with s2 show ?thesis by (rule works_trans) simp
  next
    case all
    then show ?thesis using works_trans [OF s3 close_works [OF u3], of 1 now] works_more [OF s3] by auto
  next
    case rest
    then show ?thesis using works_more [OF wants_works [OF u1, of mem 0], of 1] by simp
  next
    case err
    then show ?thesis using close_works [OF u1, of now] by simp
  qed
qed

lemma write_works:
  assumes "ngx_http_write_response_handler mem now a rs w = Some (w', rs')"
    and "using_client a (nt_sock w) \<or> cn_fd (conn a (nt_sock w)) = -1"
  shows "works 1 (nt_sock w) (nt_sock w')"
  using assms write_loop_works [of mem now a rs w w' rs']
  by (auto simp: ngx_http_write_response_handler_def Let_def split: if_splits)


text \<open>The connection an event is for.\<close>

lemma event_conn:
  assumes "served k s" and "event_possible e s"
  obtains (used) "using_client (re_conn e) s"
  | (listening) "cn_rhandler (conn (re_conn e) s) = Event_accept" and "re_events e AND EPOLLOUT = 0"
  | (waiting) "re_conn e \<in> set (so_recyconnectionList s)" and "cn_fd (conn (re_conn e) s) = -1"
      and "client (conn (re_conn e) s)" and "\<And>d. re_recv e \<noteq> Received d"
proof -
  let ?a = "re_conn e"
  note p = served_parts [OF assms(1)]
  show ?thesis
  proof (cases "so_epoll s (cn_fd (conn ?a s))")
    case None
    then have a: "?a \<in> set (so_recyconnectionList s)" using assms(2) by (simp add: event_possible_def)
    then have "cn_fd (conn ?a s) = -1" using p(1) by (simp add: pool_ok_def idle_def)
    moreover from this have "re_recv e \<noteq> Received d" for d
      using assms(2) by (auto simp: event_possible_def split: recv_result.splits)
    ultimately show ?thesis using waiting a rolesD(2) [OF p(2) a] by blast
  next
    case (Some x)
    then obtain ev where ev: "so_epoll s (cn_fd (conn ?a s)) = Some (ev, ?a)"
        and out: "re_events e AND EPOLLOUT \<noteq> 0 \<longrightarrow> ev AND EPOLLOUT \<noteq> 0"
      using assms(2) by (cases x) (simp add: event_possible_def)
    have i: "in_use ?a s" using registered_in_use [OF p(1) ev] .
    show ?thesis
    proof (cases "client (conn ?a s)")
      case True
      then show ?thesis using used i by (simp add: using_client_def)
    next
      case False
      then have "cn_rhandler (conn ?a s) = Event_accept" using rolesD(1) [OF p(2) i] by (simp add: listener_def)
      moreover have "re_events e AND EPOLLOUT = 0" using rolesD(3) [OF p(2) ev] False out by blast
      ultimately show ?thesis by (rule listening)
    qed
  qed
qed

lemma read_after:
  assumes "using_client a s \<or> cn_fd (conn a s) = -1" and "cn_whandler (conn a s) = Http_write"
    and "a < length (so_connectionList s)"
  shows "(using_client a (ngx_http_read_request_handler now a r s) \<or>
      cn_fd (conn a (ngx_http_read_request_handler now a r s)) = -1) \<and>
    cn_whandler (conn a (ngx_http_read_request_handler now a r s)) = Http_write"
proof -
  have m: "using_client a (inMsgRecvQueueAndSignal h d t) = using_client a t"
      "conn a (inMsgRecvQueueAndSignal h d t) = conn a t" for h d t
    by (simp_all add: inMsgRecvQueueAndSignal_def using_client_def in_use_def idle_def conn_def)
  show ?thesis
    using assms by (auto simp: ngx_http_read_request_handler_def Let_def m conn_upd split: recv_result.splits)
qed

text \<open>An event is handled with the handlers its connection has; none of them is empty.\<close>

lemma event_works:
  assumes "served k (nt_sock w)" and "event_possible e (nt_sock w)"
  shows "(case process_event now e w of
      Handled w' \<Rightarrow> works (2 * length (re_accepts e) + 2) (nt_sock w) (nt_sock w')
    | Bad_function_call w' \<Rightarrow> False
    | Stuck \<Rightarrow> True)"
proof -
  let ?a = "re_conn e" and ?n = "2 * length (re_accepts e) + 2"
  let ?s = "nt_sock w"
  have cl: "case process_event now e w of
      Handled w' \<Rightarrow> works ?n ?s (nt_sock w') | Bad_function_call w' \<Rightarrow> False | Stuck \<Rightarrow> True"
    if c: "client (conn ?a ?s)" and lt: "?a < length (so_connectionList ?s)"
      and fd: "using_client ?a ?s \<or> cn_fd (conn ?a ?s) = -1"
      and rd: "works 1 ?s (ngx_http_read_request_handler now ?a (re_recv e) ?s)"
  proof -
    define w1 where "w1 = (if re_events e AND EPOLLIN \<noteq> 0 \<and> \<not> hangup (re_events e)
      then on_sock (ngx_http_read_request_handler now ?a (re_recv e)) w else w)"
    have w1: "works 1 ?s (nt_sock w1)" "using_client ?a (nt_sock w1) \<or> cn_fd (conn ?a (nt_sock w1)) = -1"
        "cn_whandler (conn ?a (nt_sock w1)) = Http_write"
      using rd read_after [OF fd _ lt] c fd by (auto simp: w1_def client_def)
    have "process_event now e w =
        (if re_events e AND EPOLLOUT \<noteq> 0 \<and> \<not> hangup (re_events e) then call_whandler now e w1 else Handled w1)"
      using c by (simp add: process_event_def Let_def call_rhandler_def client_def w1_def)
    moreover have "case call_whandler now e w1 of
        Handled w' \<Rightarrow> works 1 (nt_sock w1) (nt_sock w') | Bad_function_call w' \<Rightarrow> False | Stuck \<Rightarrow> True"
      using w1(2,3) write_works [of "re_mem e" now ?a "re_sends e" w1]
      by (auto simp: call_whandler_def Let_def split: option.splits)
    ultimately show ?thesis
      using works_more [OF w1(1), of ?n] works_trans [OF w1(1), of 1 _ ?n]
      by (auto split: handled.splits)
  qed
  from assms show ?thesis
  proof (cases rule: event_conn)
    case used
    then show ?thesis using read_works [of ?a ?s "re_recv e" now] by (intro cl) (simp_all add: using_client_def in_use_def)
  next
    case waiting
    moreover have "?a < length (so_connectionList ?s)"
      using waiting(1) served_parts(1) [OF assms(1)] by (simp add: pool_ok_def idle_def)
    ultimately show ?thesis using read_works [of ?a ?s "re_recv e" now] by (intro cl) simp_all
  next
    case listening
    have "new_fds ?s (re_accepts e)" using assms(2) by (simp add: event_possible_def)
    note acc = new_fds_accepts [OF _ this served_parts(1) [OF assms(1)], of now ?a]
    show ?thesis
      using listening acc works_more
      by (auto simp: process_event_def Let_def call_rhandler_def split: option.splits)
  qed
qed


section \<open>The semaphore\<close>

text \<open>
  The send threads' semaphore counts the messages in their queue, and the ones that were taken
  without it.
\<close>

definition ahead :: "net \<Rightarrow> int" where
  "ahead w = int (nt_sem w) - int (length (so_MsgSendQueue (nt_sock w)))"

definition posted :: "net \<Rightarrow> bool" where
  "posted w \<longleftrightarrow> nt_sem w = length (so_MsgSendQueue (nt_sock w))"

lemma posted_ahead: "posted w \<longleftrightarrow> ahead w = 0"
  by (simp add: posted_def ahead_def)

lemma accept_one_queue:
  assumes "accept_one now oldc fd addr nb mem s = Some (b, s')"
  shows "so_MsgSendQueue s' = so_MsgSendQueue s"
proof -
  have create: "so_MsgSendQueue (create_connection t) = so_MsgSendQueue t" for t
  proof -
    have "so_MsgSendQueue (fold create_one is t) = so_MsgSendQueue t" for "is" t
      by (induction "is" arbitrary: t) (simp_all add: create_one_def add_connection_def Let_def)
    then show ?thesis by (simp add: create_connection_def Let_def)
  qed
  have get: "so_MsgSendQueue s1 = so_MsgSendQueue s" if "ngx_get_connection fd s = Some (a, s1)" for a s1
    using get_connection_run [OF that, of "\<lambda>t. so_MsgSendQueue t = so_MsgSendQueue s"] create by auto
  from assms show ?thesis
    by (cases rule: accept_one_outcome)
      (auto simp: get ngx_close_connection_def ngx_free_connection_def Let_def close_fd_def)
qed

lemma event_accept_queue:
  "ngx_event_accept now a rs s = Some t \<Longrightarrow> so_MsgSendQueue t = so_MsgSendQueue s"
proof (induction now a rs s rule: ngx_event_accept.induct)
  case (2 now a e rs s)
  then show ?case by (simp split: if_splits)
next
  case (3 now a fd addr nb mem rs s)
  then obtain g s1 where g: "accept_one now a fd addr nb mem s = Some (g, s1)" by (auto split: option.splits)
  then show ?case using 3(1) [OF g refl] 3(2) accept_one_queue [OF g] by (cases g) simp_all
qed simp

lemma read_queue [simp]:
  "so_MsgSendQueue (ngx_http_read_request_handler now a r s) = so_MsgSendQueue s"
  by (simp add: ngx_http_read_request_handler_def inMsgRecvQueueAndSignal_def Let_def split: recv_result.splits)

lemma nt_sem_frame [simp]:
  "nt_sem (put_wire fd d w) = nt_sem w" "nt_sem (nupd a f w) = nt_sem w" "nt_sem (on_sock g w) = nt_sem w"
  "nt_sem (wants_out mem a bc w) = nt_sem w" "nt_sem (close_now now a w) = nt_sem w"
  "nt_sem (count_down w) = nt_sem w"
  by (simp_all add: put_wire_def nupd_def on_sock_def wants_out_def close_now_def count_down_def)

lemma ahead_frame [simp]:
  "ahead (put_wire fd d w) = ahead w" "ahead (nupd a f w) = ahead w"
  "ahead (wants_out mem a bc w) = ahead w" "ahead (close_now now a w) = ahead w"
  "ahead (count_down w) = ahead w"
proof -
  show "ahead (wants_out mem a bc w) = ahead w" unfolding ahead_def by (simp only: wants_out_queue nt_sem_frame)
  show "ahead (count_down w) = ahead w" by (simp add: ahead_def count_down_def)
qed (simp_all add: ahead_def)

lemma write_loop_ahead: "write_loop mem now a rs w = Some (w', rs') \<Longrightarrow> ahead w' = ahead w"
proof (induction mem now a rs w rule: write_loop.induct)
  case (1 mem now a rs w)
  then show ?case
    by (subst (asm) write_loop.simps) (auto simp: Let_def split: option.splits if_splits)
qed

lemma write_ahead:
  "ngx_http_write_response_handler mem now a rs w = Some (w', rs') \<Longrightarrow> ahead w' = ahead w"
  using write_loop_ahead by (auto simp: ngx_http_write_response_handler_def Let_def split: if_splits)

lemma event_ahead:
  assumes "process_event now e w = Handled w'"
  shows "ahead w' = ahead w"
proof -
  have r: "ahead w1 = ahead w" if "call_rhandler now e w = Handled w1" for w1
    using that event_accept_queue
    by (auto simp: call_rhandler_def Let_def ahead_def split: read_handler.splits option.splits)
  have s: "ahead w2 = ahead w1" if "call_whandler now e w1 = Handled w2" for w1 w2
    using that write_ahead
    by (auto simp: call_whandler_def Let_def split: write_handler.splits option.splits)
  show ?thesis
    using assms r s by (auto simp: process_event_def Let_def split: if_splits handled.splits)
qed

section \<open>The threads\<close>

lemma msgSend_works:
  assumes "using_client a (nt_sock w)"
  shows "works 1 (nt_sock w) (nt_sock (msgSend now d a w)) \<and> ahead (msgSend now d a w) = ahead w"
proof -
  let ?s = "nt_sock w"
  let ?d = "\<lambda>s. s\<lparr>so_iDiscardSendPkgCount := so_iDiscardSendPkgCount s + 1\<rparr>"
  let ?u = "upd_conn a (\<lambda>c. c\<lparr>cn_iSendCount := cn_iSendCount c + 1\<rparr>) ?s"
  let ?h = "\<lparr>mh_conn = a, mh_iCurrsequence = cn_iCurrsequence (conn a ?u), mh_sequence = 0\<rparr>"
  let ?t = "?u\<lparr>so_MsgSendQueue := so_MsgSendQueue ?u @ [(?h, d)], so_iSendMsgQueueCount := so_iSendMsgQueueCount ?u + 1\<rparr>"
  have disc: "works 0 ?s (?d ?s)" "using_client a (?d ?s)"
    using assms by (auto intro: works_counted simp: same_pool_def headers_def using_client_def in_use_def idle_def conn_def)
  have "works 0 ?s ?u" by (rule works_changed) simp
  moreover have "net_step 0 ?u ?t"
  proof (rule net_step.queued [of _ _ ?h])
    show "in_use (mh_conn ?h) ?u" "client (conn (mh_conn ?h) ?u)"
      using assms using_changed [of "\<lambda>c. c\<lparr>cn_iSendCount := cn_iSendCount c + 1\<rparr>" a a ?s]
      by (simp_all add: using_client_def)
  qed (auto simp: same_pool_def headers_def current_def)
  then have "works 0 ?u ?t" by (rule works_step) simp
  ultimately have q: "works 1 ?s ?t" by (rule works_trans) simp
  have "works 1 (?d ?s) (zdClosesocketProc now a (?d ?s))"
    by (rule works_closed) (use disc(2) in \<open>simp add: using_client_def\<close>)
  with disc(1) have c: "works 1 ?s (zdClosesocketProc now a (?d ?s))" by (rule works_trans) simp
  show ?thesis
    using q c works_more [OF disc(1), of 1] by (simp add: msgSend_def Let_def ahead_def)
qed


text \<open>A message that is current when it is taken is for a client in use.\<close>

lemma taken_message:
  assumes "served k s" and "h \<in> headers s" and "cn_iCurrsequence (conn (mh_conn h) s) = mh_iCurrsequence h"
  shows "using_client (mh_conn h) s"
  using assms by (auto simp: served_def mail_ok_def msg_ok_def current_def using_client_def)

definition kept_by :: "nat \<Rightarrow> 's logic \<Rightarrow> 's logic \<Rightarrow> bool" where
  "kept_by n l l' \<longleftrightarrow> works n (sock_of l) (sock_of l') \<and> ahead (lg_net l') = ahead (lg_net l)"

lemma kept_by_trans: "kept_by m l l1 \<Longrightarrow> kept_by n l1 l2 \<Longrightarrow> m + n \<le> k \<Longrightarrow> kept_by k l l2"
  using works_trans [of m "sock_of l" "sock_of l1" n "sock_of l2" k] by (simp add: kept_by_def)

lemma kept_by_more: "kept_by m l l' \<Longrightarrow> m \<le> n \<Longrightarrow> kept_by n l l'"
  unfolding kept_by_def using works_more by blast

lemma set_context_kept: "kept_by n l (set_context a cx l)"
  by (simp add: kept_by_def set_context_def works_changed)

lemma set_context_using [simp]: "using_client b (sock_of (set_context a cx l)) = using_client b (sock_of l)"
  by (simp add: set_context_def)

lemma onRequest_kept:
  assumes "onRequest now a req l = Some l'" and "using_client a (sock_of l)"
  shows "kept_by 1 l l'"
proof -
  let ?w = "nupd a (\<lambda>c. c\<lparr>cn_ishttpClose := wants_close req\<rparr>) (lg_net l)"
  have u: "using_client a (nt_sock ?w)" using assms(2) by simp
  have "works 0 (sock_of l) (nt_sock ?w)" by (simp add: works_changed)
  with msgSend_works [OF u] have "works 1 (sock_of l) (nt_sock (msgSend now d a ?w))" for d
    using works_trans [of 0 _ _ 1 _ 1] by simp
  moreover have "ahead (msgSend now d a ?w) = ahead (lg_net l)" for d using msgSend_works [OF u] by simp
  ultimately show ?thesis using assms(1)
    by (auto simp: onRequest_def Let_def kept_by_def split: option.splits)
qed

lemma recv_kept:
  assumes "threadRecvProcFunc env now h buf l = r" and "r = Done l' \<or> (\<exists>e. r = Raised_out e l')"
    and "cn_iCurrsequence (conn (mh_conn h) (sock_of l)) = mh_iCurrsequence h \<Longrightarrow> using_client (mh_conn h) (sock_of l)"
  shows "kept_by 1 l l'"
proof -
  let ?a = "mh_conn h" let ?c = "nconn ?a (lg_net l)"
  have none: "kept_by 1 l l" by (simp add: kept_by_def)
  show ?thesis
  proof (cases "buf = [] \<or> cn_iCurrsequence ?c \<noteq> mh_iCurrsequence h")
    case True
    then have "threadRecvProcFunc env now h buf l = Done l" by (auto simp: threadRecvProcFunc_def Let_def)
    then have "l' = l" using assms(1,2) by auto
    then show ?thesis using none by simp
  next
    case False
    then have u: "using_client ?a (sock_of l)" using assms(3) by simp
    define l1 where "l1 = (if cx_sequence (cn_context ?c) = mh_sequence h then l else l\<lparr>lg_waited := lg_waited l + 5000\<rparr>)"
    have l1: "lg_net l1 = lg_net l" by (simp add: l1_def)
    then have k1: "kept_by 0 l l1" by (simp add: kept_by_def)
    consider (thrown) cx where "l' = set_context ?a cx l1"
      | (error) cx where "l' = (set_context ?a cx l1)\<lparr>lg_net := msgSend now bad_request ?a (lg_net (set_context ?a cx l1))\<rparr>"
      | (answered) cx cx' req l3 where "onRequest now ?a req (set_context ?a cx l1) = Some l3" "l' = set_context ?a cx' l3"
    proof -
      assume 1: "\<And>cx. l' = set_context ?a cx l1 \<Longrightarrow> thesis"
        and 2: "\<And>cx. l' = (set_context ?a cx l1)\<lparr>lg_net := msgSend now bad_request ?a (lg_net (set_context ?a cx l1))\<rparr> \<Longrightarrow> thesis"
        and 3: "\<And>req cx l3 cx'. onRequest now ?a req (set_context ?a cx l1) = Some l3 \<Longrightarrow> l' = set_context ?a cx' l3 \<Longrightarrow> thesis"
      show thesis
        using assms(1,2) False
        by (auto simp: threadRecvProcFunc_def Let_def l1_def [symmetric] split: option.splits parse_result.splits if_splits
            intro: 1 2 3)
    qed
    then show ?thesis
    proof cases
      case (thrown cx)
      then show ?thesis using kept_by_trans [OF k1 set_context_kept, of 1] by simp
    next
      case (error cx)
      let ?l2 = "set_context ?a cx l1"
      have "using_client ?a (sock_of ?l2)" using u l1 by simp
      from msgSend_works [OF this] have "kept_by 1 ?l2 l'" by (simp add: error kept_by_def)
      with kept_by_trans [OF k1 set_context_kept, of 0 0] show ?thesis by (rule kept_by_trans) simp_all
    next
      case (answered cx cx' req l3)
      let ?l2 = "set_context ?a cx l1"
      have "using_client ?a (sock_of ?l2)" using u l1 by simp
      from onRequest_kept [OF answered(1) this] have "kept_by 1 ?l2 l3" .
      with kept_by_trans [OF k1 set_context_kept, of 0 0] have "kept_by 1 l l3" by (rule kept_by_trans) simp_all
      then show ?thesis unfolding answered(2) by (rule kept_by_trans [OF _ set_context_kept]) simp
    qed
  qed
qed

lemma thread_kept:
  assumes "ThreadFunc_turn env now l = Done l'" and "served k (sock_of l)"
  shows "kept_by 1 l l'"
proof (cases "so_MsgRecvQueue (sock_of l)")
  case Nil
  then show ?thesis using assms(1) by (simp add: ThreadFunc_turn_def kept_by_def)
next
  case (Cons x q)
  obtain h buf where x: "x = (h, buf)" by fastforce
  let ?l1 = "l\<lparr>lg_net := on_sock (\<lambda>s. s\<lparr>so_MsgRecvQueue := q\<rparr>) (lg_net l)\<rparr>"
  have sp: "same_pool (sock_of l) (sock_of ?l1)" by (simp add: same_pool_def)
  have "works 0 (sock_of l) (sock_of ?l1)"
    by (rule works_counted [OF sp]) (auto simp: headers_def Cons)
  then have k1: "kept_by 0 l ?l1" by (simp add: kept_by_def ahead_def)
  have "h \<in> headers (sock_of l)" by (simp add: headers_def Cons x)
  then have u: "cn_iCurrsequence (conn (mh_conn h) (sock_of ?l1)) = mh_iCurrsequence h \<Longrightarrow> using_client (mh_conn h) (sock_of ?l1)"
    using taken_message [OF assms(2)] using_same [OF sp] same_pool_conn [OF sp] by simp
  show ?thesis
  proof (cases "buf = []")
    case True
    then show ?thesis using assms(1) kept_by_more [OF k1] by (simp add: ThreadFunc_turn_def Let_def Cons x)
  next
    case False
    then have "\<exists>r. threadRecvProcFunc env now h buf ?l1 = r \<and> (r = Done l' \<or> (\<exists>e. r = Raised_out e l'))"
      using assms(1) by (auto simp: ThreadFunc_turn_def Let_def Cons x split: recv_end.splits)
    then have "kept_by 1 ?l1 l'" using recv_kept u by blast
    with k1 show ?thesis by (rule kept_by_trans) simp
  qed
qed


lemma close_after:
  assumes "using_client a (nt_sock w) \<or> a \<in> set (so_recyconnectionList (nt_sock w))" and "pool_ok (nt_sock w)"
  shows "works 1 (nt_sock w) (nt_sock (close_now now a w))"
    and "a \<in> set (so_recyconnectionList (nt_sock (close_now now a w)))"
proof -
  show "works 1 (nt_sock w) (nt_sock (close_now now a w))"
    using works_closed [of a "nt_sock w" now] assms(1) by (auto simp: using_client_def)
  have "a < length (so_connectionList (nt_sock w))"
    using assms by (auto simp: using_client_def in_use_def pool_ok_def idle_def)
  then show "a \<in> set (so_recyconnectionList (nt_sock (close_now now a w)))"
    by (simp add: zdClose_pool [OF assms(2)])
qed

lemma keep_rest_works:
  assumes "using_client (mh_conn h) (nt_sock w)"
  shows "works 0 (nt_sock w) (nt_sock (keep_rest mem h d w))"
proof -
  let ?f = "\<lambda>c. c\<lparr>cn_psendbuf := append_buf d (cn_psendbuf c), cn_sendCount := sint (ucast (mh_iCurrsequence h) :: u32)\<rparr>"
  let ?v = "nupd (mh_conn h) ?f w"
  have "works 0 (nt_sock w) (nt_sock ?v)" by (simp add: works_changed)
  moreover have "works 0 (nt_sock ?v) (nt_sock (wants_out mem (mh_conn h) 0 ?v))"
    using assms by (intro wants_works) simp
  ultimately show ?thesis unfolding keep_rest_def by (rule works_trans) simp
qed

lemma drop_and_close_works:
  assumes "using_client a (nt_sock w)"
  shows "works 1 (nt_sock w) (nt_sock (drop_and_close now a w))"
proof -
  let ?v = "nupd a (\<lambda>c. c\<lparr>cn_psendbuf := retrieveAll (cn_psendbuf c)\<rparr>) w"
  have "works 0 (nt_sock w) (nt_sock ?v)" by (simp add: works_changed)
  moreover have "works 1 (nt_sock ?v) (nt_sock (close_now now a ?v))"
    using assms by (intro close_works) simp
  ultimately show ?thesis unfolding drop_and_close_def by (rule works_trans) simp
qed

lemma send_message_works:
  assumes "using_client (mh_conn h) (nt_sock w)" and "served 2 (nt_sock w)"
  shows "works 2 (nt_sock w) (nt_sock (send_message mem now h d res w))"
proof -
  obtain out n err where res: "res = (out, n, err)" by (cases res)
  let ?a = "mh_conn h" let ?w1 = "put_wire (cn_fd (nconn ?a w)) out w"
  have s1: "nt_sock ?w1 = nt_sock w" by simp
  have u: "using_client ?a (nt_sock ?w1)" using assms(1) by simp
  have one: "works 1 (nt_sock w) (nt_sock w') \<Longrightarrow> works 2 (nt_sock w) (nt_sock w')" for w'
    by (erule works_more) simp
  define w2 where "w2 = (if d = bad_request then close_now now ?a ?w1 else ?w1)"
  have w2: "works 1 (nt_sock w) (nt_sock w2) \<and> pool_ok (nt_sock w2) \<and>
      (using_client ?a (nt_sock w2) \<or> ?a \<in> set (so_recyconnectionList (nt_sock w2)))"
  proof (cases "d = bad_request")
    case True
    have p: "pool_ok (nt_sock ?w1)" using served_parts(1) [OF assms(2)] by simp
    have c: "works 1 (nt_sock w) (nt_sock w2)" "?a \<in> set (so_recyconnectionList (nt_sock w2))"
      using close_after [OF disjI1 [OF u] p, of now] True by (simp_all add: w2_def)
    have "served 1 (nt_sock w)" using assms(2) by (auto simp: served_def fits_def)
    with c(1) have "pool_ok (nt_sock w2)" by (rule works_pool)
    with c show ?thesis by blast
  next
    case False
    then show ?thesis using u served_parts(1) [OF assms(2)] by (simp add: w2_def)
  qed
  then have w3: "works 2 (nt_sock w) (nt_sock (close_now now ?a w2))"
    using works_trans [of 1 _ _ 1 _ 2] close_after(1) by fastforce
  have e: "send_message mem now h d res w = (if 0 < n then
          if n = int (length d) then (if cn_ishttpClose (nconn ?a w2) then close_now now ?a w2 else w2)
          else keep_rest mem h (drop (nat n) d) ?w1
        else if n = -1 then if err = S_EAGAIN then keep_rest mem h d ?w1 else drop_and_close now ?a ?w1
        else if n = 0 \<and> readableBytes (cn_psendbuf (nconn ?a ?w1)) = 0 then ?w1
        else drop_and_close now ?a ?w1)"
    by (simp only: res send_message_def Let_def prod.case w2_def)
  have "works 2 (nt_sock w) (nt_sock (keep_rest mem h x ?w1))" for x
    using works_more [OF keep_rest_works [OF u], of 2] by (simp only: s1)
  moreover have "works 2 (nt_sock w) (nt_sock (drop_and_close now ?a ?w1))"
    using works_more [OF drop_and_close_works [OF u], of 2] by (simp only: s1)
  ultimately show ?thesis
    unfolding e using w3 one [OF conjunct1 [OF w2]] s1 works_none by (simp only: split: if_split) blast
qed

lemma send_message_sem: "nt_sem (send_message mem now h d res w) = nt_sem w"
  by (cases res) (simp add: send_message_def Let_def keep_rest_def drop_and_close_def)

lemma send_kept:
  assumes "ServerSendQueue_turn False mem now rs w = Turned w' rs'" and "served 2 (nt_sock w)"
  shows "works 2 (nt_sock w) (nt_sock w') \<and> nt_sem w' = nt_sem w \<and>
    Suc (length (so_MsgSendQueue (nt_sock w'))) = length (so_MsgSendQueue (nt_sock w))"
proof -
  obtain h d q where q: "so_MsgSendQueue (nt_sock w) = (h, d) # q"
    using assms(1) by (auto simp: ServerSendQueue_turn_def split: list.splits)
  let ?w1 = "on_sock (\<lambda>s. s\<lparr>so_MsgSendQueue := q\<rparr>) w"
  have sp: "same_pool (nt_sock w) (nt_sock ?w1)" by (simp add: same_pool_def)
  have w1: "works 0 (nt_sock w) (nt_sock ?w1)"
    by (rule works_counted [OF sp]) (auto simp: headers_def q)
  have v: "served 2 (nt_sock ?w1)"
    by (rule counted_ok [OF sp _ assms(2)]) (auto simp: headers_def q)
  have cd: "works 0 (nt_sock x) (nt_sock (count_down x))" for x
    by (rule works_counted) (simp_all add: same_pool_def count_down_def headers_def)
  consider "w' = count_down ?w1"
    | res where "w' = count_down (send_message mem now h d res ?w1)"
        "cn_iCurrsequence (conn (mh_conn h) (nt_sock w)) = mh_iCurrsequence h"
    using assms(1) q by (auto simp: ServerSendQueue_turn_def Let_def split: if_splits option.splits)
  then show ?thesis
  proof cases
    case 1
    then show ?thesis using works_trans [OF w1 cd, of 2] q by (simp add: count_down_def)
  next
    case (2 res)
    have "h \<in> headers (nt_sock w)" by (simp add: headers_def q)
    from taken_message [OF assms(2) this 2(2)] have "using_client (mh_conn h) (nt_sock ?w1)"
      using using_same [OF sp] by simp
    from send_message_works [OF this v] have "works 2 (nt_sock w) (nt_sock (send_message mem now h d res ?w1))"
      by (rule works_trans [OF w1]) simp
    then have "works 2 (nt_sock w) (nt_sock w')" unfolding 2(1) by (rule works_trans [OF _ cd]) simp
    moreover have "so_MsgSendQueue (nt_sock w') = q" by (simp add: 2(1) count_down_def)
    ultimately show ?thesis using q by (simp add: 2(1) send_message_sem)
  qed
qed

section \<open>The invariant of a worker\<close>

definition worker_ok :: "'s logic \<Rightarrow> bool" where
  "worker_ok l \<longleftrightarrow> served 0 (sock_of l) \<and> 0 \<le> ahead (lg_net l)"

lemma calm_served: "served 0 s \<Longrightarrow> calm s \<Longrightarrow> k < 2 ^ 63 \<Longrightarrow> served k s"
  by (rule served_more) (simp_all add: calm_def)

lemma works_spends:
  assumes "works n s t" and "served 0 s" and "calm s" and "n < 2 ^ 63"
  shows "\<exists>c. spends turn_step c s t \<and> served c s"
proof -
  from assms(1) obtain c where c: "c \<le> n" "spends net_step c s t" by (auto simp: works_def)
  from c(1) assms(4) have "c < 2 ^ 63" by simp
  with busy_run [OF c(2)] calm_served [OF assms(2,3)] show ?thesis by blast
qed

text \<open>A turn of any thread but the recycler is a run of \<open>net_step\<close> within the budget.\<close>

lemma busy_turn:
  assumes "worker_do x l = Goes_on l'" and "possible x l" and "served 2 (sock_of l)" and "\<forall>now. x \<noteq> Do_recycle now"
  shows "\<exists>n. works n (sock_of l) (sock_of l') \<and> n < 2 ^ 63 \<and>
    ahead (lg_net l') = ahead (lg_net l) + int (interruption x)"
proof -
  have s: "served 0 (sock_of l)" using assms(3) by (auto simp: served_def fits_def)
  show ?thesis
  proof (cases x)
    case (Do_event now e)
    then obtain w where w: "process_event now e (lg_net l) = Handled w" "l' = with_net w l"
      using assms(1) by (auto split: handled.splits)
    have e: "event_possible e (sock_of l)" using assms(2) Do_event by simp
    from event_works [OF s e, of now] w(1) have "works (2 * length (re_accepts e) + 2) (sock_of l) (nt_sock w)" by simp
    moreover have "length (re_accepts e) < 2 ^ 32" using e by (simp add: event_possible_def)
    then have "2 * length (re_accepts e) + 2 < 2 ^ 63" by simp
    moreover note event_ahead [OF w(1)]
    ultimately show ?thesis using w(2) Do_event by (auto simp: with_net_def)
  next
    case (Do_recv env now)
    then have "ThreadFunc_turn env now l = Done l'" using assms(1) by (auto split: recv_end.splits)
    from thread_kept [OF this s] show ?thesis by (intro exI [of _ 1]) (simp add: kept_by_def Do_recv)
  next
    case (Do_send interrupted mem now rs)
    obtain w w' rs' where w: "take_sem interrupted (lg_net l) = Some w"
        and t: "ServerSendQueue_turn False mem now rs w = Turned w' rs'" "l' = with_net w' l"
      using assms(1) unfolding Do_send by (auto split: option.splits turn.splits)
    have k: "nt_sock w = sock_of l" "int (nt_sem w) = int (nt_sem (lg_net l)) - 1 + int (interruption x)"
      using w by (auto simp: take_sem_def Do_send split: if_splits)
    have "served 2 (nt_sock w)" using assms(3) k(1) by simp
    from send_kept [OF t(1) this] have "works 2 (sock_of l) (nt_sock w')" "ahead w' = ahead (lg_net l) + int (interruption x)"
      using k by (auto simp: ahead_def)
    then show ?thesis using t(2) by (intro exI [of _ 2]) (simp add: with_net_def)
  next
    case (Do_monitor now)
    then obtain q where "l' = with_net (on_sock (\<lambda>s. s\<lparr>so_timer := q\<rparr>) (lg_net l)) l"
      using assms(1) by (auto split: option.splits)
    moreover have "works 0 (sock_of l) ((sock_of l)\<lparr>so_timer := q\<rparr>)"
      by (rule works_counted) (simp_all add: same_pool_def headers_def)
    ultimately show ?thesis by (intro exI [of _ 0]) (simp add: with_net_def ahead_def Do_monitor)
  qed (use assms(4) in blast)
qed

lemma turn_works:
  assumes x: "possible x l" "calm (sock_of l)" "worker_do x l = Goes_on l'" and "served 0 (sock_of l)"
  shows "(\<exists>c. spends turn_step c (sock_of l) (sock_of l') \<and> served c (sock_of l)) \<and>
    ahead (lg_net l') = ahead (lg_net l) + int (interruption x)"
proof -
  have s2: "served 2 (sock_of l)" by (rule calm_served [OF assms(4) x(2)]) simp
  show ?thesis
  proof (cases "\<exists>now. x = Do_recycle now")
    case True
    then obtain now where l': "l' = with_net (on_sock (ServerRecyConnection_turn now) (lg_net l)) l" using x(3) by auto
    have "so_MsgSendQueue (fold ngx_free_connection as s) = so_MsgSendQueue s" for as s
      by (induction as arbitrary: s) (simp_all add: ngx_free_connection_def)
    then have "so_MsgSendQueue (ServerRecyConnection_turn now (sock_of l)) = so_MsgSendQueue (sock_of l)"
      by (simp add: ServerRecyConnection_turn_def recy_loop_frees)
    moreover have "served 1 (sock_of l)" by (rule calm_served [OF assms(4) x(2)]) simp
    ultimately show ?thesis using spends_step [of turn_step, OF turn_step.recycled] True
      by (auto simp: l' with_net_def ahead_def)
  next
    case False
    then show ?thesis using busy_turn [OF x(3,1) s2] works_spends assms(4) x(2) by blast
  qed
qed

lemma step_works:
  assumes "worker_step l l'" and "served 0 (sock_of l)"
  shows "\<exists>c. spends turn_step c (sock_of l) (sock_of l') \<and> served c (sock_of l)"
    and "0 \<le> ahead (lg_net l) \<Longrightarrow> 0 \<le> ahead (lg_net l')"
  using assms(1) turn_works assms(2) by (force elim: worker_stepE)+

interpretation worker: metered_layer turn_step served worker_step sock_of
  by unfold_locales (use step_works in blast)

interpretation worker_inv: invariant_system worker_step worker_ok
  by unfold_locales (use worker.layer.kept step_works in \<open>auto simp: worker_ok_def\<close>)

section \<open>The start\<close>

lemma grown_init: "started s \<Longrightarrow> grown s (initconnection s)"
proof -
  have one: "grown s (add_connection i t)" if "grown s t" for i t
    using that by (auto simp: grown_def add_connection_def Let_def conn_def nth_append headers_def
        GetOneToUse_def new_connection_def less_Suc_eq)
  have "grown s (fold (\<lambda>i. add_connection (int i)) is t)" if "grown s t" for "is" t
    using that by (induction "is" arbitrary: t) (auto intro: one)
  moreover have "grown s s" by (auto simp: grown_def)
  ultimately have "grown s (fold (\<lambda>i. add_connection (int i)) [0..<nat (so_worker_connections s)] s)" by blast
  then show ?thesis by (simp add: initconnection_def Let_def grown_def headers_def)
qed

definition unwritten :: "csock \<Rightarrow> bool" where
  "unwritten s \<longleftrightarrow> (\<forall>b < length (so_connectionList s). cn_whandler (conn b s) = No_write)"

lemma unwritten_grown: "grown s t \<Longrightarrow> unwritten s \<Longrightarrow> unwritten t"
  by (auto simp: grown_def unwritten_def) (metis not_le)

lemma init_served:
  assumes "new_sock s" and "k + 1 < 2 ^ 64"
  shows "served k (initconnection s)" and "unwritten (initconnection s)"
proof -
  have st: "started s" and e: "so_connectionList s = []" "so_recyconnectionList s = []" "so_epoll s = Map.empty" "headers s = {}"
    using assms(1) by (simp_all add: new_sock_def started_def headers_def)
  note g = grown_init [OF st]
  have none: "in_use b (initconnection s) = False" for b
    unfolding grown_use [OF g] by (simp add: in_use_def e(1))
  have seq: "unat (cn_iCurrsequence (conn b (initconnection s))) + k < 2 ^ 64"
    if "b < length (so_connectionList (initconnection s))" for b
  proof -
    have "cn_iCurrsequence (conn b (initconnection s)) = 1" using that g e(1) by (simp add: grown_def)
    with assms(2) show ?thesis by simp
  qed
  then show "served k (initconnection s)"
    using initconnection_ok [OF st] g e assms(2)
    by (simp add: served_def roles_ok_def mail_ok_def fits_def none grown_def)
  show "unwritten (initconnection s)"
    using unwritten_grown [OF g] e(1) by (simp add: unwritten_def)
qed

text \<open>A worker's pool when it enters its event loop.\<close>

text \<open>The first connection that is taken, the one of the listening socket.\<close>

lemma first_taken:
  assumes "new_sock s" and "ngx_get_connection fd (initconnection s) = Some (a, s1)"
  shows "\<exists>t fr. pool_ok t \<and> served (2 + 2 ^ 63) t \<and> unwritten t \<and> headers t = {} \<and> so_epoll t = Map.empty \<and>
    so_freeConnectionList t = a # fr \<and>
    s1 = upd_conn a (GetOneToUse fd) (t\<lparr>so_freeConnectionList := fr,
      so_free_connection_n := so_free_connection_n t - 1, so_onlineUserCount := so_onlineUserCount t + 1\<rparr>)"
proof -
  let ?i = "initconnection s"
  have st: "started s" using assms(1) by (simp add: new_sock_def)
  define P where "P t \<longleftrightarrow> served (2 + 2 ^ 63) t \<and> unwritten t \<and> headers t = {} \<and> so_epoll t = Map.empty" for t
  have "P ?i"
    using init_served [OF assms(1), of "2 + 2 ^ 63"] grown_init [OF st] assms(1)
    by (simp add: P_def grown_def new_sock_def headers_def started_def)
  moreover have "P (create_connection t)" if "P t" for t
    using that grown_create [of t] grown_served [OF grown_create, of "2 + 2 ^ 63" t] create_connection_ok [of t]
      unwritten_grown [OF grown_create, of t]
    by (simp add: P_def served_def) (simp add: grown_def)
  ultimately obtain t fr where "P t" "so_freeConnectionList t = a # fr"
      "s1 = upd_conn a (GetOneToUse fd) (t\<lparr>so_freeConnectionList := fr,
        so_free_connection_n := so_free_connection_n t - 1, so_onlineUserCount := so_onlineUserCount t + 1\<rparr>)"
    using get_connection_run [OF assms(2), of P] by blast
  then show ?thesis by (intro exI [of _ t] exI [of _ fr]) (simp add: P_def served_def)
qed

lemma ready_served:
  assumes "ngx_epoll_init created (Some fd) mem s = Worker_ready s2" and "new_sock s" and "fd \<noteq> -1"
  shows "served (2 ^ 63) s2" and "headers s2 = {}" and "so_MsgSendQueue s2 = []"
proof -
  obtain a s1 where g: "ngx_get_connection fd (initconnection s) = Some (a, s1)"
      and s2: "s2 = snd (ngx_epoll_oper_event mem fd EPOLL_CTL_ADD (EPOLLIN OR EPOLLRDHUP) 0 a
        (upd_conn a (\<lambda>c. c\<lparr>cn_listening := Some fd, cn_rhandler := Event_accept\<rparr>) s1))"
    using assms(1) by (auto simp: ngx_epoll_init_def Let_def split: if_splits option.splits prod.splits)
  obtain t fr where p: "pool_ok t" "served (2 + 2 ^ 63) t" "unwritten t" "headers t = {}" "so_epoll t = Map.empty"
      and t: "so_freeConnectionList t = a # fr"
      "s1 = upd_conn a (GetOneToUse fd) (t\<lparr>so_freeConnectionList := fr,
        so_free_connection_n := so_free_connection_n t - 1, so_onlineUserCount := so_onlineUserCount t + 1\<rparr>)"
    using first_taken [OF assms(2) g] by blast
  have a: "a < length (so_connectionList t)" using p(1) t(1) by (simp add: pool_ok_def idle_def)
  let ?u = "upd_conn a (\<lambda>c. c\<lparr>cn_listening := Some fd, cn_rhandler := Event_accept\<rparr>) s1"
  have c: "conn b ?u = (if b = a then (GetOneToUse fd (conn a t))\<lparr>cn_listening := Some fd, cn_rhandler := Event_accept\<rparr>
      else conn b t)" for b
    using a by (simp add: t(2) conn_upd)
  have s1: "so_epoll s1 = Map.empty" "so_recyconnectionList s1 = so_recyconnectionList t" "so_freeConnectionList s1 = fr"
      "length (so_connectionList s1) = length (so_connectionList t)" "headers ?u = {}"
    using p(4) by (simp_all add: t(2) p(5) headers_def upd_conn_def)
  have "handed_out fd a s1"
    using take_free_ok [OF p(1) t(1), of fd "so_onlineUserCount t + 1"] by (simp add: t(2))
  then have "pool_ok ?u" by (simp add: handed_out_def listening_upd_ok)
  then have ok: "pool_ok s2"
    unfolding s2 using a assms(3) s1(4) c [of a] by (intro oper_event_ok) simp_all
  have e: "s2 = (if fst (ngx_epoll_oper_event mem fd EPOLL_CTL_ADD (EPOLLIN OR EPOLLRDHUP) 0 a ?u)
      then ?u\<lparr>so_epoll := (so_epoll ?u)(fd \<mapsto> (EPOLLIN OR EPOLLRDHUP, a))\<rparr> else ?u)"
    unfolding s2 by (rule add_event)
  have no_out: "(EPOLLIN OR EPOLLRDHUP) AND EPOLLOUT = 0"
    by (simp add: EPOLLIN_def EPOLLRDHUP_def EPOLLOUT_def)
  have f: "length (so_connectionList s2) = length (so_connectionList t)" "so_freeConnectionList s2 = fr"
      "so_recyconnectionList s2 = so_recyconnectionList t" "headers s2 = {}"
      "conn b s2 = conn b ?u" "\<And>g ev b. so_epoll s2 g = Some (ev, b) \<Longrightarrow> b = a \<and> ev AND EPOLLOUT = 0" for b
    using s1 no_out unfolding e by (auto simp: headers_def split: if_splits)
  have "cn_whandler (conn a t) = No_write" using p(3) a by (simp add: unwritten_def)
  then have l: "listener (conn a s2)" "cn_fd (conn a s2) = fd"
    by (simp_all add: f(5) c listener_def GetOneToUse_def)
  show "served (2 ^ 63) s2"
    by (rule after_take [where good = True, OF p(2) t(1) ok f(1)])
      (use f(6) l assms(3) in \<open>simp_all add: f(2-5) c p(4) GetOneToUse_def\<close>)
  show "headers s2 = {}" by (rule f(4))
  then show "so_MsgSendQueue s2 = []" by (simp add: headers_def)
qed


lemma started_ok:
  assumes "worker_start conf e s = Started_worker s2 services p" and "new_sock s" and "le_socket (ws_listen e) \<noteq> Some (-1)"
  shows "worker_ok (worker_logic s2 rt ms st) \<and> calm s2 \<and> ahead (lg_net (worker_logic s2 rt ms st)) = 0"
proof -
  let ?fd = "map_option ls_fd (fst (ngx_open_listening_sockets (ws_listen e) conf []))"
  have i: "ngx_epoll_init (ws_epoll_created e) ?fd (ws_epoll_mem e) (ReadConf conf s) = Worker_ready s2"
    using assms(1) by (auto simp: worker_start_def Let_def split: if_splits pool_start.splits prod.splits bool.splits init_result.splits)
  then obtain fd where fd: "?fd = Some fd" by (cases ?fd) (auto simp: ngx_epoll_init_def Let_def split: if_splits)
  then have "fd \<noteq> -1"
    using assms(3) by (auto simp: ngx_open_listening_sockets_def Let_def split: option.splits if_splits)
  moreover have "new_sock (ReadConf conf s)" using assms(2) by (simp add: new_sock_def) (simp add: ReadConf_def Let_def)
  ultimately have s2: "served (2 ^ 63) s2" "so_MsgSendQueue s2 = []" using ready_served i fd by simp_all
  have "calm s2" using served_parts(4) [OF s2(1)] by (simp add: calm_def fits_def)
  moreover have "served 0 s2" using s2(1) by (auto simp: served_def fits_def)
  ultimately show ?thesis using s2(2) by (simp add: worker_ok_def worker_logic_def ahead_def)
qed


lemma run_ahead:
  assumes "worker_run n l l'" and "worker_ok l"
  shows "worker_ok l' \<and> ahead (lg_net l') = ahead (lg_net l) + int n"
  using assms
proof (induction rule: worker_run.induct)
  case (one_turn n l l1 x l2)
  then have ok: "worker_ok l1" and a: "ahead (lg_net l1) = ahead (lg_net l) + int n" by simp_all
  have "worker_step l1 l2" using one_turn.hyps(2-4) by (rule worker_step.act)
  then have "worker_ok l2" using ok by (rule worker_inv.kept)
  moreover have "ahead (lg_net l2) = ahead (lg_net l1) + int (interruption x)"
    using turn_works [OF one_turn.hyps(2-4)] ok by (simp add: worker_ok_def)
  ultimately show ?case using a by simp
qed simp

lemma started_run:
  assumes "worker_start conf e s = Started_worker s2 services p" and "new_sock s"
    and "le_socket (ws_listen e) \<noteq> Some (-1)" and "worker_run n (worker_logic s2 rt ms st) l"
  shows "worker_ok l" and "nt_sem (lg_net l) = length (so_MsgSendQueue (sock_of l)) + n"
  using run_ahead [OF assms(4)] started_ok [OF assms(1-3), of rt ms st] by (simp_all add: ahead_def)

text \<open>A thread of the pool catches every exception.\<close>

lemma turn_catches: "ThreadFunc_turn env now l \<noteq> Raised_out x l'"
  by (auto simp: ThreadFunc_turn_def Let_def split: list.splits recv_end.splits)

lemma send_turn_null: "ServerSendQueue_turn False mem now rs w = Null_deref \<longleftrightarrow> so_MsgSendQueue (nt_sock w) = []"
  by (auto simp: ServerSendQueue_turn_def Let_def split: list.splits option.splits)

lemma send_ends:
  "worker_do (Do_send interrupted mem now rs) l = Ends \<longleftrightarrow>
     so_MsgSendQueue (sock_of l) = [] \<and> (interrupted \<or> nt_sem (lg_net l) \<noteq> 0)"
proof -
  have "worker_do (Do_send interrupted mem now rs) l = Ends \<longleftrightarrow>
      (\<exists>w. take_sem interrupted (lg_net l) = Some w \<and> ServerSendQueue_turn False mem now rs w = Null_deref)"
    by (auto split: option.splits turn.splits)
  then show ?thesis unfolding send_turn_null by (auto simp: take_sem_def)
qed

section \<open>Properties\<close>

text \<open>
  C2: Whatever a worker's threads and its event loop do after it has started, and whatever the
  kernel answers, its pool stays sound: an idle connection is in one list once, a connection
  has a descriptor exactly when it is in use, a registered descriptor is the one its
  connection has, and a message in a queue that still carries the number of its connection
  is for a client in use.
\<close>

theorem worker_stays_sound:
  assumes "worker_start conf e s = Started_worker s2 services p" and "new_sock s"
    and "le_socket (ws_listen e) \<noteq> Some (-1)" and "worker_step\<^sup>*\<^sup>* (worker_logic s2 rt ms st) l"
  shows "distinct (so_freeConnectionList (sock_of l) @ so_recyconnectionList (sock_of l)) \<and>
    (\<forall>a < length (so_connectionList (sock_of l)).
       cn_fd (conn a (sock_of l)) = -1 \<longleftrightarrow>
       a \<in> set (so_freeConnectionList (sock_of l) @ so_recyconnectionList (sock_of l))) \<and>
    (\<forall>fd ev a. so_epoll (sock_of l) fd = Some (ev, a) \<longrightarrow> cn_fd (conn a (sock_of l)) = fd \<and> fd \<noteq> -1) \<and>
    (\<forall>(h, d) \<in> set (so_MsgRecvQueue (sock_of l)) \<union> set (so_MsgSendQueue (sock_of l)).
       mh_iCurrsequence h = cn_iCurrsequence (conn (mh_conn h) (sock_of l)) \<longrightarrow>
       cn_fd (conn (mh_conn h) (sock_of l)) \<noteq> -1 \<and> client (conn (mh_conn h) (sock_of l)))"
proof -
  let ?s = "sock_of l"
  have "worker_ok l" by (rule worker_inv.always [OF assms(4) conjunct1 [OF started_ok [OF assms(1-3)]]])
  then have p: "pool_ok ?s" "roles_ok ?s" "mail_ok ?s" by (simp_all add: worker_ok_def served_def)
  have "cn_fd (conn a ?s) = -1 \<longleftrightarrow> a \<in> set (so_freeConnectionList ?s @ so_recyconnectionList ?s)"
    if "a < length (so_connectionList ?s)" for a
  proof (cases "a \<in> set (idle ?s)")
    case True
    then show ?thesis using p(1) by (simp add: pool_ok_def idle_def)
  next
    case False
    then have "in_use a ?s" using that by (simp add: in_use_def)
    with rolesD(1) [OF p(2) this] False show ?thesis by (simp add: idle_def)
  qed
  moreover have "cn_fd (conn (mh_conn h) ?s) \<noteq> -1 \<and> client (conn (mh_conn h) ?s)"
    if "(h, d) \<in> set (so_MsgRecvQueue ?s) \<union> set (so_MsgSendQueue ?s)"
      "mh_iCurrsequence h = cn_iCurrsequence (conn (mh_conn h) ?s)" for h d
  proof -
    have "h \<in> headers ?s" using that(1) by (force simp: headers_def)
    then have "in_use (mh_conn h) ?s \<and> client (conn (mh_conn h) ?s)"
      using p(3) that(2) by (auto simp: mail_ok_def msg_ok_def current_def)
    then show ?thesis using rolesD(1) [OF p(2)] by blast
  qed
  moreover have "cn_fd (conn a ?s) = fd \<and> fd \<noteq> -1" if "so_epoll ?s fd = Some (ev, a)" for fd ev a
    using p(1) that by (auto simp: pool_ok_def)
  moreover have "distinct (so_freeConnectionList ?s @ so_recyconnectionList ?s)"
    using p(1) by (simp add: pool_ok_def idle_def)
  ultimately show ?thesis by blast
qed

text \<open>
  C10: What can end a worker: no event calls a handler a connection does not have, so in a
  reachable state, with waits that signals ended as well, it is either the processing of a request
  (the assertion of the parser, a null middleware) or a send thread
  that finds its queue empty, and this only if a signal ended its wait or has ended one before.
\<close>

theorem only_requests_end_worker:
  assumes "worker_start conf e s = Started_worker s2 services p" and "new_sock s"
    and "le_socket (ws_listen e) \<noteq> Some (-1)" and "worker_run n (worker_logic s2 rt ms st) l"
    and "possible x l" and "worker_do x l = Ends"
  shows "(\<exists>env now. x = Do_recv env now \<and> ThreadFunc_turn env now l = Process_ends) \<or>
    (\<exists>interrupted mem now rs. x = Do_send interrupted mem now rs \<and> so_MsgSendQueue (sock_of l) = [] \<and> (interrupted \<or> 0 < n))"
proof -
  note ok = started_run [OF assms(1-4)]
  show ?thesis
  proof (cases x)
    case (Do_event now e)
    then have "event_possible e (sock_of l)" using assms(5) by simp
    from event_works [OF _ this, of 0 now] ok(1) assms(6) Do_event show ?thesis
      by (simp add: worker_ok_def split: handled.splits)
  next
    case (Do_send interrupted mem now rs)
    then show ?thesis using assms(6) ok(2) unfolding Do_send send_ends by auto
  next
    case (Do_recv env now)
    then have "ThreadFunc_turn env now l = Process_ends"
      using assms(6) by (auto simp: turn_catches split: recv_end.splits)
    with Do_recv show ?thesis by blast
  next
    case (Do_recycle now)
    then show ?thesis using assms(6) by simp
  next
    case (Do_monitor now)
    then show ?thesis using assms(6) by (simp split: option.splits)
  qed
qed

text \<open>
  C11: A connection that was closed is not used again before its time: whatever a thread of a
  worker with the invariant does, it stays in the recycle queue with the time at which it was closed, until a
  turn of the recycling thread at least \<open>m_RecyConnectionWaitTime\<close> seconds later frees it.
\<close>

theorem closed_connection_waits:
  assumes "worker_ok l" and "possible x l" and "calm (sock_of l)" and "worker_do x l = Goes_on l'"
    and "a \<in> set (so_recyconnectionList (sock_of l))"
  shows "(a \<in> set (so_recyconnectionList (sock_of l')) \<and>
      cn_inRecyTime (conn a (sock_of l')) = cn_inRecyTime (conn a (sock_of l))) \<or>
    (\<exists>now. x = Do_recycle now \<and>
      cn_inRecyTime (conn a (sock_of l)) + so_RecyConnectionWaitTime (sock_of l) \<le> now \<and>
      a \<in> set (so_freeConnectionList (sock_of l')))"
proof -
  have ok: "served 0 (sock_of l)" using assms(1) by (simp add: worker_ok_def)
  show ?thesis
  proof (cases "\<exists>now. x = Do_recycle now")
    case True
    then obtain now where x: "x = Do_recycle now" by blast
    then have l': "sock_of l' = ServerRecyConnection_turn now (sock_of l)" using assms(4) by (auto simp: with_net_def)
    note r = recy_turn [OF served_parts(1) [OF ok], where now = now]
    show ?thesis
      using assms(5) x unfolding l' r by (auto simp: freed_def PutOneToFree_def)
  next
    case False
    have "served 2 (sock_of l)" by (rule calm_served [OF ok assms(3)]) simp
    with busy_turn [OF assms(4,2)] False obtain n where n: "works n (sock_of l) (sock_of l')" "n < 2 ^ 63" by blast
    then obtain c where c: "spends net_step c (sock_of l) (sock_of l')" "c < 2 ^ 63" by (auto simp: works_def)
    have "served (c + 0) (sock_of l)" using calm_served [OF ok assms(3) c(2)] by simp
    moreover have "waits_since a (cn_inRecyTime (conn a (sock_of l))) (sock_of l)" using assms(5) by (simp add: waits_since_def)
    ultimately have "waits_since a (cn_inRecyTime (conn a (sock_of l))) (sock_of l')"
      using waits.pays_run [OF c(1)] by blast
    then show ?thesis by (simp add: waits_since_def)
  qed
qed

text \<open>
  C34: A send thread of a reachable worker ends the process exactly when no message is queued and a
  signal has ended its wait, or ended a wait earlier: the code goes on after the failed
  \<open>sem_wait\<close> and takes a message without the semaphore, which from then on is ahead of the queue
  by one for each such turn; a thread that finds the queue empty uses the connection of the header
  \<open>TryDequeue\<close> did not fill in.
\<close>

theorem interrupted_wait_ends_worker:
  assumes "worker_start conf e s = Started_worker s2 services p" and "new_sock s"
    and "le_socket (ws_listen e) \<noteq> Some (-1)" and "worker_run n (worker_logic s2 rt ms st) l"
  shows "(worker_do (Do_send interrupted mem now rs) l = Ends \<longleftrightarrow>
      so_MsgSendQueue (sock_of l) = [] \<and> (interrupted \<or> 0 < n)) \<and>
    nt_sem (lg_net l) = length (so_MsgSendQueue (sock_of l)) + n"
  unfolding send_ends using started_run(2) [OF assms] by auto

section \<open>Witnesses\<close>

abbreviation demo_conf :: "conf_item list" where
  "demo_conf \<equiv> [(''ListenPort'', ''8080''), (''worker_connections'', ''4'')]"

lemma demo_worker:
  obtains s2 services p where
    "worker_start demo_conf (demo_start demo_json_env) (fresh_sock 1) = Started_worker s2 services p"
proof -
  obtain p where p: "new_pool demo_json_env (\<lambda>_ _ _ _ _. True) (\<lambda>_. 0) = Started p" using demo_pool by blast
  have n: "GetIntDefault ''ListenPort'' 10000 demo_conf = 8080" "GetIntDefault ''worker_connections'' 1 demo_conf = 4"
    by code_simp+
  have w: "so_worker_connections (fresh_sock 1) = 1" by (simp add: fresh_sock_def)
  have l: "fst (ngx_open_listening_sockets demo_listen demo_conf []) = Some \<lparr>ls_port = 8080, ls_fd = 7\<rparr>"
    by (simp add: ngx_open_listening_sockets_def demo_listen_def setnonblocking_def n Let_def)
  show ?thesis
    using worker_starts [of "demo_start demo_json_env" p demo_conf "\<lparr>ls_port = 8080, ls_fd = 7\<rparr>" "fresh_sock 1"] p l n w that
    by (auto simp: demo_start_def)
qed

lemma demo_sock: "new_sock (fresh_sock 1)" "le_socket (ws_listen (demo_start demo_json_env)) \<noteq> Some (-1)"
  by (simp_all add: new_sock_def) (simp_all add: fresh_sock_def demo_start_def demo_listen_def)

theorem worker_stays_sound_witness:
  "\<exists>l l' :: unit logic. worker_step l l' \<and>
     distinct (so_freeConnectionList (sock_of l') @ so_recyconnectionList (sock_of l'))"
proof -
  from demo_worker obtain s2 services p where
    s2: "worker_start demo_conf (demo_start demo_json_env) (fresh_sock 1) = Started_worker s2 services p" .
  let ?l = "worker_logic s2 new_router [] ()"
  let ?l' = "with_net (on_sock (ServerRecyConnection_turn 100) (lg_net ?l)) ?l"
  have "calm (sock_of ?l)"
    using started_ok [OF s2 demo_sock, of new_router "[]" "()"] by (simp add: worker_logic_def)
  then have st: "worker_step ?l ?l'" by (intro worker_step.act [of "Do_recycle 100"]) simp_all
  then have "worker_step\<^sup>*\<^sup>* ?l ?l'" by (rule r_into_rtranclp)
  from worker_stays_sound [OF s2 demo_sock this] st show ?thesis by blast
qed

lemma demo_started:
  obtains s2 services p where
    "worker_start demo_conf (demo_start demo_json_env) (fresh_sock 1) = Started_worker s2 services p"
    "so_MsgSendQueue s2 = []"
proof -
  from demo_worker obtain s2 services p where
    s2: "worker_start demo_conf (demo_start demo_json_env) (fresh_sock 1) = Started_worker s2 services p" .
  moreover have "so_MsgSendQueue s2 = []"
    using started_ok [OF s2 demo_sock, of new_router "[]" "()"] by (simp add: ahead_def worker_logic_def)
  ultimately show ?thesis by (rule that)
qed

theorem only_requests_end_worker_witness:
  "\<exists>l :: unit logic. so_MsgSendQueue (sock_of l) = [] \<and> worker_do (Do_send False True 0 []) l \<noteq> Ends \<and>
     worker_do (Do_send True True 0 []) l = Ends"
proof -
  from demo_started obtain s2 services p where
    s2: "worker_start demo_conf (demo_start demo_json_env) (fresh_sock 1) = Started_worker s2 services p" "so_MsgSendQueue s2 = []" .
  let ?l = "worker_logic s2 new_router [] ()"
  have "worker_do (Do_send False True 0 []) ?l \<noteq> Ends"
    using only_requests_end_worker [OF s2(1) demo_sock worker_run.no_turn, of "Do_send False True 0 []" new_router "[]" "()"] by auto
  moreover have "worker_do (Do_send True True 0 []) ?l = Ends" unfolding send_ends using s2(2) by (simp add: worker_logic_def)
  ultimately show ?thesis using s2(2) by (intro exI [of _ ?l]) (simp add: worker_logic_def)
qed

theorem interrupted_wait_ends_worker_witness:
  "\<exists>l :: unit logic. worker_do (Do_send True True 0 []) l = Ends \<and> worker_do (Do_send False True 0 []) l \<noteq> Ends"
proof -
  from demo_started obtain s2 services p where
    s2: "worker_start demo_conf (demo_start demo_json_env) (fresh_sock 1) = Started_worker s2 services p" "so_MsgSendQueue s2 = []" .
  let ?l = "worker_logic s2 new_router [] ()"
  note w = interrupted_wait_ends_worker [OF s2(1) demo_sock worker_run.no_turn, of _ True 0 "[]" new_router "[]" "()"]
  have "so_MsgSendQueue (sock_of ?l) = []" using s2(2) by (simp add: worker_logic_def)
  then show ?thesis using w [of True] w [of False] by blast
qed

lemma one_client_served:
  "k < 2 ^ 63 \<Longrightarrow> served k (nt_sock (one_client []))" "using_client 0 (nt_sock (one_client []))"
proof -
  let ?s = "nt_sock (one_client [])"
  have c: "conn 0 ?s = (GetOneToUse 7 (new_connection 0))
      \<lparr>cn_psendbuf := append_buf [] (new_buffer kInitialSize), cn_sendCount := 1,
        cn_rhandler := Http_read, cn_whandler := Http_write\<rparr>"
    by (simp add: one_client_def nconn_def conn_def del: conn_nt_sock)
  have f: "so_epoll ?s = [7 \<mapsto> (EPOLLIN, 0)]" "length (so_connectionList ?s) = 1" "idle ?s = []" "headers ?s = {}"
      "so_recyconnectionList ?s = []" "so_freeConnectionList ?s = []" "so_free_connection_n ?s = 0" "so_total_connection_n ?s = 1"
    by (simp_all add: one_client_def fresh_sock_def idle_def headers_def)
  have u: "in_use b ?s \<longleftrightarrow> b = 0" for b by (auto simp: in_use_def f)
  have cl: "client (conn 0 ?s)" "cn_fd (conn 0 ?s) = 7" "cn_id (conn 0 ?s) = 0" "unat (cn_iCurrsequence (conn 0 ?s)) = 1"
    unfolding c by (simp_all add: client_def GetOneToUse_def new_connection_def)
  have "pool_ok ?s" using cl by (auto simp: pool_ok_def f split: if_splits)
  moreover have "roles_ok ?s"
    using cl by (intro rolesI) (auto simp: u f split: if_splits simp del: conn_nt_sock)
  moreover have "fits k ?s" if "k < 2 ^ 63" using cl(4) that by (simp add: fits_def f)
  ultimately show "k < 2 ^ 63 \<Longrightarrow> served k ?s" by (simp add: served_def mail_ok_def f)
  show "using_client 0 ?s" using cl(1) u by (simp add: using_client_def)
qed

theorem closed_connection_waits_witness:
  "\<exists>(l :: unit logic) (l' :: unit logic). so_recyconnectionList (sock_of l) = [0] \<and> so_freeConnectionList (sock_of l') = [0] \<and>
     cn_inRecyTime (conn 0 (sock_of l)) + so_RecyConnectionWaitTime (sock_of l) \<le> 70"
proof -
  let ?s = "nt_sock (one_client [])" let ?t = "zdClosesocketProc 5 0 ?s"
  have u: "served 2 ?s" "using_client 0 ?s" by (rule one_client_served; simp)+
  have p: "pool_ok ?s" "0 < length (so_connectionList ?s)" using u(1) by (simp_all add: served_def)
  note q = zdClose_pool [OF p, where now = 5]
  have t: "so_recyconnectionList ?t = [0]" "so_freeConnectionList ?t = []" "cn_iCurrsequence (conn 0 ?t) = 2"
      "length (so_connectionList ?t) = 1" "so_MsgSendQueue ?t = []"
    by (simp_all add: q)
  have w: "so_RecyConnectionWaitTime ?t = 60" "so_total_connection_n ?t = 1"
    by (simp_all add: zdClosesocketProc_def inRecyConnectQueue_def Let_def close_fd_def ngx_epoll_oper_event_def
        epoll_ctl_def) (simp_all add: one_client_def fresh_sock_def)
  define l where "l = worker_logic ?t new_router [] ()"
  have l: "sock_of l = ?t" "lg_net l = \<lparr>nt_sock = ?t, nt_wire = [], nt_sem = 0\<rparr>" by (simp_all add: l_def worker_logic_def)
  have "served 1 ?t" using closed_ok [of 0 ?s 1 5] u by (simp add: using_client_def numeral_2_eq_2)
  then have ok: "worker_ok l" using t(5) by (auto simp: worker_ok_def ahead_def l served_def fits_def)
  have c: "calm (sock_of l)" using t by (simp add: calm_def l)
  define l' where "l' = with_net (on_sock (ServerRecyConnection_turn 70) (lg_net l)) l"
  have d: "worker_do (Do_recycle 70) l = Goes_on l'" by (simp add: l'_def)
  have "0 \<in> set (so_recyconnectionList (sock_of l))" by (simp add: l t)
  note cw = closed_connection_waits [OF ok _ c d this]
  have f: "freed 70 ?t = [0]" using q(4) [of 0] w by (simp add: freed_def t)
  have p1: "pool_ok ?t" using ok by (simp add: worker_ok_def served_def l)
  note r = recy_turn [OF p1, where now = 70]
  have l': "so_freeConnectionList (sock_of l') = [0]" "so_recyconnectionList (sock_of l') = []"
    by (simp_all add: l'_def with_net_def l r f t)
  with cw have "cn_inRecyTime (conn 0 (sock_of l)) + so_RecyConnectionWaitTime (sock_of l) \<le> 70" by auto
  with l' show ?thesis by (intro exI [of _ l] exI [of _ l']) (simp add: l t)
qed

end
