(* ===== verification/Conversation.thy ===== *)
theory Conversation
  imports Server
begin

text \<open>
  One client on a worker that has nothing else to do: a request from the bytes the event loop
  receives to the bytes a send thread sends, and a whole conversation on a connection that is kept
  open. The reference is a server that takes one request after the other and answers it with what
  \<open>handleRequest\<close> makes of it (\<open>answered\<close>); the worker, whose threads hand the
  request on through two queues and a semaphore, puts the same answers on the wire, for as many
  requests as \<open>msgSend\<close> lets through.
\<close>

section \<open>A request from the socket to the socket\<close>

definition read_event :: "nat \<Rightarrow> bytes \<Rightarrow> ready_event" where
  "read_event a d = \<lparr>re_conn = a, re_events = EPOLLIN, re_accepts = [], re_recv = Received d,
     re_sends = [], re_mem = True\<rparr>"

text \<open>
  A client's connection that waits for a request while nothing else is going on, with room for
  \<open>n\<close> responses: \<open>msgSend\<close> counts them in \<open>iSendCount\<close> and cuts the
  connection off when the count is above 400.
\<close>

definition awaits_requests :: "nat \<Rightarrow> nat \<Rightarrow> 's logic \<Rightarrow> bool" where
  "awaits_requests n a l \<longleftrightarrow> served (4 * n + 2) (sock_of l) \<and> posted (lg_net l) \<and> using_client a (sock_of l) \<and>
     so_MsgRecvQueue (sock_of l) = [] \<and> so_MsgSendQueue (sock_of l) = [] \<and>
     fresh (cn_context (conn a (sock_of l))) \<and> cn_iSendCount (conn a (sock_of l)) + int n \<le> 401"

abbreviation awaits_request :: "nat \<Rightarrow> 's logic \<Rightarrow> bool" where
  "awaits_request \<equiv> awaits_requests 1"

text \<open>The chunk the context expects is the next one that is received: no thread has to wait for another.\<close>

definition in_step :: "nat \<Rightarrow> 's logic \<Rightarrow> bool" where
  "in_step a l \<longleftrightarrow> cx_sequence (cn_context (conn a (sock_of l))) = cn_sequence (conn a (sock_of l))"

lemma conn_received: "conn b (inMsgRecvQueueAndSignal h d s) = conn b s"
  by (simp add: inMsgRecvQueueAndSignal_def conn_def)

lemma zdClose_context: "cn_context (conn b (zdClosesocketProc now a s)) = cn_context (conn b s)"
  by (auto simp: zdClosesocketProc_def inRecyConnectQueue_def Let_def conn_upd ngx_epoll_oper_event_def)

lemma close_now_context [simp]: "cn_context (nconn b (close_now now a w)) = cn_context (nconn b w)"
  by (simp add: nconn_def zdClose_context del: conn_nt_sock)

lemma head_received:
  assumes "awaits_requests n a l" and "d \<noteq> []" and "length d \<le> 1024 * 1024"
  shows "\<exists>l1. worker_do (Do_event t (read_event a d)) l = Goes_on l1 \<and> posted (lg_net l1) \<and> served (4 * n + 1) (sock_of l1) \<and>
    lg_router l1 = lg_router l \<and> lg_chain l1 = lg_chain l \<and> lg_app l1 = lg_app l \<and> lg_waited l1 = lg_waited l \<and> nt_wire (lg_net l1) = nt_wire (lg_net l) \<and>
    length (so_connectionList (sock_of l1)) = length (so_connectionList (sock_of l)) \<and> so_MsgSendQueue (sock_of l1) = [] \<and>
    conn a (sock_of l1) = (conn a (sock_of l))\<lparr>cn_sequence := cn_sequence (conn a (sock_of l)) + 1\<rparr> \<and>
    so_MsgRecvQueue (sock_of l1) = [(\<lparr>mh_conn = a, mh_iCurrsequence = cn_iCurrsequence (conn a (sock_of l)),
      mh_sequence = cn_sequence (conn a (sock_of l))\<rparr>, d)]"
proof -
  let ?s = "sock_of l" let ?c = "conn a ?s"
  let ?h = "\<lparr>mh_conn = a, mh_iCurrsequence = cn_iCurrsequence ?c, mh_sequence = cn_sequence ?c\<rparr>"
  let ?t = "inMsgRecvQueueAndSignal ?h d (upd_conn a (\<lambda>c. c\<lparr>cn_sequence := cn_sequence c + 1\<rparr>) ?s)"
  let ?l1 = "with_net (on_sock (ngx_http_read_request_handler t a (Received d)) (lg_net l)) l"
  have w: "using_client a ?s" "so_MsgRecvQueue ?s = []" "so_MsgSendQueue ?s = []" "nt_sem (lg_net l) = 0" "served (4 * n + 2) ?s"
    using assms(1) by (simp_all add: awaits_requests_def posted_def)
  have a: "a < length (so_connectionList ?s)" and cl: "client ?c" using w(1) by (simp_all add: using_client_def in_use_def)
  have r: "ngx_http_read_request_handler t a (Received d) ?s = ?t"
    unfolding ngx_http_read_request_handler_def Let_def recv_result.case if_not_P [OF assms(2)]
    by (simp only: take_all [OF assms(3)])
  have s1: "sock_of ?l1 = ?t" using r by (simp add: with_net_def)
  have ev: "EPOLLIN AND EPOLLIN \<noteq> (0 :: u32)" "EPOLLIN AND EPOLLOUT = (0 :: u32)" "\<not> hangup EPOLLIN"
    by (simp_all add: EPOLLIN_def EPOLLOUT_def hangup_def EPOLLHUP_def EPOLLERR_def EPOLLRDHUP_def)
  have d1: "worker_do (Do_event t (read_event a d)) l = Goes_on ?l1"
    using cl ev by (simp add: process_event_def read_event_def Let_def call_rhandler_def client_def with_net_def)
  have "works 1 ?s ?t" using read_works [of a ?s "Received d" t] w(1) r by simp
  from works_served [OF this, of "4 * n + 1"] have sv: "served (4 * n + 1) ?t" using w(5) by simp
  have c1: "conn a ?t = ?c\<lparr>cn_sequence := cn_sequence ?c + 1\<rparr>"
    using a by (simp add: conn_received conn_upd)
  have q1: "so_MsgRecvQueue ?t = [(?h, d)]" "so_MsgSendQueue ?t = []" "length (so_connectionList ?t) = length (so_connectionList ?s)"
    using w(2,3) by (simp_all add: inMsgRecvQueueAndSignal_def)
  have l1: "lg_router ?l1 = lg_router l" "lg_chain ?l1 = lg_chain l" "lg_app ?l1 = lg_app l" "lg_waited ?l1 = lg_waited l"
      "nt_wire (lg_net ?l1) = nt_wire (lg_net l)" "nt_sem (lg_net ?l1) = 0"
    using w(4) by (simp_all add: with_net_def)
  have "posted (lg_net ?l1)" unfolding posted_def s1 q1 l1(6) by simp
  with d1 l1 sv c1 q1 show ?thesis unfolding s1 by (intro exI [of _ ?l1]) (simp only: s1 simp_thms)
qed

text \<open>A response that \<open>send\<close> takes whole: the connection is closed, or nothing but the queue changes.\<close>

lemma response_sent:
  assumes "posted (lg_net l)" and "a < length (so_connectionList (sock_of l))"
    and "so_MsgSendQueue (sock_of l) =
      [(\<lparr>mh_conn = a, mh_iCurrsequence = cn_iCurrsequence (conn a (sock_of l)), mh_sequence = n\<rparr>, out)]"
    and "out \<noteq> []" and "out \<noteq> bad_request" and "length out \<le> k"
  shows "\<exists>w. worker_do (Do_send False True t [Sent k]) l = Goes_on (with_net w l) \<and>
    nt_wire w = nt_wire (lg_net l) @ [(cn_fd (conn a (sock_of l)), out)] \<and>
    cn_context (nconn a w) = cn_context (conn a (sock_of l)) \<and>
    (if cn_ishttpClose (conn a (sock_of l)) then cn_fd (nconn a w) = -1
     else nt_sem w = 0 \<and> nt_sock w = (sock_of l)\<lparr>so_MsgSendQueue := [], so_iSendMsgQueueCount := so_iSendMsgQueueCount (sock_of l) - 1\<rparr>)"
proof -
  let ?c = "conn a (sock_of l)"
  let ?g = "\<lparr>mh_conn = a, mh_iCurrsequence = cn_iCurrsequence ?c, mh_sequence = n\<rparr>"
  have sem: "nt_sem (lg_net l) = 1" using assms(1) by (simp add: posted_def assms(3))
  let ?w = "(lg_net l)\<lparr>nt_sem := 0\<rparr>"
  let ?v = "on_sock (\<lambda>s. s\<lparr>so_MsgSendQueue := []\<rparr>) ?w"
  let ?x = "put_wire (cn_fd ?c) out ?v"
  let ?y = "if cn_ishttpClose ?c then close_now t a ?x else ?x"
  have v: "nconn a ?v = ?c" by simp
  have "0 < k" "0 < int (length out)" using assms(4,6) by (cases out; simp)+
  then have m: "send_message True t ?g out (out, int (length out), S_other) ?v = ?y"
    using assms(5) v by (simp add: send_message_def Let_def)
  have "so_MsgSendQueue (nt_sock ?w) = [(?g, out)]" "cn_iCurrsequence (conn a (nt_sock ?v)) = mh_iCurrsequence ?g"
    using assms(3) by simp_all
  moreover have "sendproc out [Sent k] = Some (out, int (length out), S_other, [])" using assms(6) by simp
  ultimately have "ServerSendQueue_turn False True t [Sent k] ?w = Turned (count_down ?y) []"
    using m by (simp add: ServerSendQueue_turn_def Let_def)
  then have d: "worker_do (Do_send False True t [Sent k]) l = Goes_on (with_net (count_down ?y) l)"
    using sem by (simp add: take_sem_def)
  have y: "nt_wire (count_down ?y) = nt_wire (lg_net l) @ [(cn_fd ?c, out)]"
      "cn_context (nconn a (count_down ?y)) = cn_context ?c"
      "cn_ishttpClose ?c \<Longrightarrow> cn_fd (nconn a (count_down ?y)) = -1"
    using assms(2,4) v by simp_all
  have "nt_sem (count_down ?x) = 0"
      "nt_sock (count_down ?x) = (sock_of l)\<lparr>so_MsgSendQueue := [], so_iSendMsgQueueCount := so_iSendMsgQueueCount (sock_of l) - 1\<rparr>"
    by (simp_all add: count_down_def)
  with y d show ?thesis by (intro exI [of _ "count_down ?y"]) (simp del: worker_do.simps)
qed

text \<open>A request that comes in one piece, through the worker's threads.\<close>

lemma request_served:
  assumes "awaits_requests (Suc n) a l" and "request_ok m path ps hs" and "method_of m \<notin> {kPost, kPut}"
    and "plain_content hs" and "length (render_head m path ps hs @ b) \<le> 1024 * 1024"
    and "\<And>r. stands_for m path ps hs r \<Longrightarrow>
      handleRequest (lg_router l) (lg_chain l) r (new_response (\<not> asks_keepalive hs), lg_app l) = Some (resp, st)"
    and "appendToBuffer resp [] = out" and "out \<noteq> []" and "out \<noteq> bad_request" and "length out \<le> k"
  shows "\<exists>l1 l2 l3. worker_do (Do_event t (read_event a (render_head m path ps hs @ b))) l = Goes_on l1 \<and>
    worker_do (Do_recv env t) l1 = Goes_on l2 \<and>
    worker_do (Do_send False True t [Sent k]) l2 = Goes_on l3 \<and>
    nt_wire (lg_net l3) = nt_wire (lg_net l) @ [(cn_fd (conn a (sock_of l)), out)] \<and>
    lg_app l3 = st \<and> lg_router l3 = lg_router l \<and> lg_chain l3 = lg_chain l \<and>
    lg_waited l3 = (if in_step a l then lg_waited l else lg_waited l + 5000) \<and>
    fresh (cn_context (conn a (sock_of l3))) \<and>
    cn_fd (conn a (sock_of l3)) = (if asks_keepalive hs then cn_fd (conn a (sock_of l)) else -1) \<and>
    (asks_keepalive hs \<longrightarrow> awaits_requests n a l3 \<and> in_step a l3 = in_step a l \<and>
       cn_iSendCount (conn a (sock_of l3)) = cn_iSendCount (conn a (sock_of l)) + 1)"
proof -
  let ?d = "render_head m path ps hs @ b"
  let ?s = "sock_of l" let ?c = "conn a ?s" let ?f = "asks_keepalive hs"
  have w: "fresh (cn_context ?c)" "cn_iSendCount ?c + int (Suc n) \<le> 401" "a < length (so_connectionList ?s)"
    using assms(1) by (simp_all add: awaits_requests_def using_client_def in_use_def)
  have "?d \<noteq> []" by (simp add: render_head_def)
  from head_received [OF assms(1) this assms(5), of t] obtain l1 where
    l1: "worker_do (Do_event t (read_event a ?d)) l = Goes_on l1" "posted (lg_net l1)" "served (4 * Suc n + 1) (sock_of l1)"
      "lg_router l1 = lg_router l" "lg_chain l1 = lg_chain l" "lg_app l1 = lg_app l" "lg_waited l1 = lg_waited l"
      "nt_wire (lg_net l1) = nt_wire (lg_net l)" "length (so_connectionList (sock_of l1)) = length (so_connectionList ?s)"
      "so_MsgSendQueue (sock_of l1) = []" "conn a (sock_of l1) = ?c\<lparr>cn_sequence := cn_sequence ?c + 1\<rparr>"
      "so_MsgRecvQueue (sock_of l1) = [(\<lparr>mh_conn = a, mh_iCurrsequence = cn_iCurrsequence ?c, mh_sequence = cn_sequence ?c\<rparr>, ?d)]"
    by blast
  note c1 = l1(11) [unfolded conn_nt_sock]
  have hw: "chunk_waiting (cn_sequence ?c) m path ps hs b a l1"
    unfolding chunk_waiting_def c1 l1(9,12) using w assms(2-4) by simp
  have "cn_iSendCount (nconn a (lg_net l1)) \<le> 400" using w(2) c1 by simp
  from head_turn_full [OF hw l1(10) this, of resp st env t] assms(6) l1(4-6) obtain l2 cx where
    l2: "ThreadFunc_turn env t l1 = Done l2" "lg_app l2 = st" "lg_router l2 = lg_router l" "lg_chain l2 = lg_chain l"
      "lg_waited l2 = (if in_step a l then lg_waited l else lg_waited l + 5000)"
      "so_MsgRecvQueue (sock_of l2) = []" "nt_wire (lg_net l2) = nt_wire (lg_net l)" "fresh cx"
      "so_MsgSendQueue (sock_of l2) =
        [(\<lparr>mh_conn = a, mh_iCurrsequence = cn_iCurrsequence (conn a (sock_of l2)), mh_sequence = 0\<rparr>, out)]"
      "cx_sequence cx = cx_sequence (cn_context ?c) + 1"
      "nconn a (lg_net l2) = ?c\<lparr>cn_sequence := cn_sequence ?c + 1, cn_context := cx, cn_ishttpClose := \<not> ?f,
        cn_iSendCount := cn_iSendCount ?c + 1\<rparr>"
    using l1(7,8) by (auto simp: c1 in_step_def assms(7))
  have k: "kept_by 1 l1 l2" by (rule thread_kept [OF l2(1) l1(3)])
  then have p: "posted (lg_net l2)" using l1(2) by (simp add: kept_by_def posted_ahead)
  have sv: "served (4 * n + 4) (sock_of l2)"
    using works_served [of 1 "sock_of l1" "sock_of l2" "4 * n + 4"] l1(3) k by (simp add: kept_by_def)
  have u: "using_client a (sock_of l2)"
    using taken_message [OF sv, of "\<lparr>mh_conn = a, mh_iCurrsequence = cn_iCurrsequence (conn a (sock_of l2)), mh_sequence = 0\<rparr>"]
    by (simp add: headers_def l2(9))
  then have a2: "a < length (so_connectionList (sock_of l2))" by (simp add: using_client_def in_use_def)
  from response_sent [OF p a2 l2(9) assms(8-10), of t] obtain w3 where
    w3: "worker_do (Do_send False True t [Sent k]) l2 = Goes_on (with_net w3 l2)"
      "nt_wire w3 = nt_wire (lg_net l) @ [(cn_fd ?c, out)]" "cn_context (nconn a w3) = cx"
      "if \<not> ?f then cn_fd (nconn a w3) = -1
       else nt_sem w3 = 0 \<and> nt_sock w3 = (sock_of l2)\<lparr>so_MsgSendQueue := [], so_iSendMsgQueueCount := so_iSendMsgQueueCount (sock_of l2) - 1\<rparr>"
    by (auto simp: l2(7,11))
  let ?l3 = "with_net w3 l2"
  have kept: "awaits_requests n a ?l3 \<and> in_step a ?l3 = in_step a l \<and>
      cn_iSendCount (nconn a w3) = cn_iSendCount ?c + 1 \<and> cn_fd (nconn a w3) = cn_fd ?c" if ?f
  proof -
    have s3: "nt_sem w3 = 0" "nt_sock w3 = (sock_of l2)\<lparr>so_MsgSendQueue := [], so_iSendMsgQueueCount := so_iSendMsgQueueCount (sock_of l2) - 1\<rparr>"
      using w3(4) that by simp_all
    then have sp: "same_pool (sock_of l2) (nt_sock w3)" "headers (nt_sock w3) \<subseteq> headers (sock_of l2)"
      by (auto simp: same_pool_def headers_def)
    have c3: "nconn a w3 = nconn a (lg_net l2)" using same_pool_conn [OF sp(1)] by simp
    have "served (4 * n + 4) (nt_sock w3)" using works_served [OF works_counted [OF sp, of 0], of "4 * n + 4"] sv by simp
    then have "served (4 * n + 2) (nt_sock w3)" by (auto simp: served_def fits_def)
    then show ?thesis using s3 sp u w(2) l2(6,8,10) c3
      by (simp add: awaits_requests_def in_step_def with_net_def posted_def using_same l2(11))
  qed
  have "worker_do (Do_recv env t) l1 = Goes_on l2" using l2(1) by simp
  moreover have "nt_wire (lg_net ?l3) = nt_wire (lg_net l) @ [(cn_fd ?c, out)]" "lg_app ?l3 = st" "lg_router ?l3 = lg_router l"
      "lg_chain ?l3 = lg_chain l" "lg_waited ?l3 = (if in_step a l then lg_waited l else lg_waited l + 5000)"
      "fresh (cn_context (conn a (sock_of ?l3)))" "conn a (sock_of ?l3) = nconn a w3"
    using w3(2,3) l2(2-5,8) by (simp_all add: with_net_def)
  moreover have "cn_fd (nconn a w3) = (if ?f then cn_fd ?c else -1)" using w3(4) kept by (cases ?f) simp_all
  moreover have "?f \<longrightarrow> awaits_requests n a ?l3 \<and> in_step a ?l3 = in_step a l \<and>
      cn_iSendCount (nconn a w3) = cn_iSendCount ?c + 1" using kept by blast
  ultimately show ?thesis using l1(1) w3(1) by (intro exI conjI) (assumption | simp only:)+
qed

section \<open>A conversation\<close>

record client_request =
  cr_method :: string
  cr_path :: string
  cr_query :: "(string \<times> string) list"
  cr_headers :: "(string \<times> string) list"

definition request_bytes :: "client_request \<Rightarrow> bytes" where
  "request_bytes q = render_head (cr_method q) (cr_path q) (cr_query q) (cr_headers q)"

text \<open>A request without a body that fits the receive buffer and asks to keep the connection.\<close>

definition keeps_open :: "client_request \<Rightarrow> bool" where
  "keeps_open q \<longleftrightarrow> request_ok (cr_method q) (cr_path q) (cr_query q) (cr_headers q) \<and>
     method_of (cr_method q) \<notin> {kPost, kPut} \<and> plain_content (cr_headers q) \<and> asks_keepalive (cr_headers q) \<and>
     length (request_bytes q) \<le> 1024 * 1024"

definition asked_as :: "client_request \<Rightarrow> http_request \<Rightarrow> bool" where
  "asked_as q = stands_for (cr_method q) (cr_path q) (cr_query q) (cr_headers q)"

text \<open>
  The reference: a server without threads and queues, which answers one request after the other.
  What it answers to a request must not depend on more of it than the client wrote.
\<close>

inductive answered ::
  "'s router \<Rightarrow> 's middleware option list \<Rightarrow> 's \<Rightarrow> client_request list \<Rightarrow> bytes list \<Rightarrow> 's \<Rightarrow> bool"
  for rt ms where
  no_more: "answered rt ms st [] [] st"
| next_one: "(\<And>r. asked_as q r \<Longrightarrow> handleRequest rt ms r (new_response False, st) = Some (resp, st1)) \<Longrightarrow>
    answered rt ms st1 qs outs st2 \<Longrightarrow> answered rt ms st (q # qs) (appendToBuffer resp [] # outs) st2"

inductive_cases answered_NilE: "answered rt ms st [] outs st'"
inductive_cases answered_ConsE: "answered rt ms st (q # qs) outs st'"

text \<open>The worker: actions one after the other, and those a request takes.\<close>

fun run_actions :: "action list \<Rightarrow> 's logic \<Rightarrow> 's logic option" where
  "run_actions [] l = Some l"
| "run_actions (x # xs) l = (case worker_do x l of Goes_on l' \<Rightarrow> run_actions xs l' | _ \<Rightarrow> None)"

lemma run_actions_append:
  "run_actions (xs @ ys) l = (case run_actions xs l of None \<Rightarrow> None | Some l' \<Rightarrow> run_actions ys l')"
  by (induction xs arbitrary: l) (simp_all split: outcome.splits)

definition exchange :: "nat \<Rightarrow> parse_env \<Rightarrow> int \<Rightarrow> nat \<Rightarrow> client_request \<Rightarrow> action list" where
  "exchange a env t k q = [Do_event t (read_event a (request_bytes q)), Do_recv env t, Do_send False True t [Sent k]]"

definition sendable :: "nat \<Rightarrow> bytes \<Rightarrow> bool" where
  "sendable k out \<longleftrightarrow> out \<noteq> [] \<and> out \<noteq> bad_request \<and> length out \<le> k"

lemma exchange_served:
  assumes "awaits_requests (Suc n) a l" and "in_step a l" and "keeps_open q"
    and "\<And>r. asked_as q r \<Longrightarrow>
      handleRequest (lg_router l) (lg_chain l) r (new_response False, lg_app l) = Some (resp, st)"
    and "sendable k (appendToBuffer resp [])"
  shows "\<exists>l'. run_actions (exchange a env t k q) l = Some l' \<and>
    nt_wire (lg_net l') = nt_wire (lg_net l) @ [(cn_fd (conn a (sock_of l)), appendToBuffer resp [])] \<and>
    lg_app l' = st \<and> lg_router l' = lg_router l \<and> lg_chain l' = lg_chain l \<and> lg_waited l' = lg_waited l \<and>
    cn_fd (conn a (sock_of l')) = cn_fd (conn a (sock_of l)) \<and> awaits_requests n a l' \<and> in_step a l' \<and>
    cn_iSendCount (conn a (sock_of l')) = cn_iSendCount (conn a (sock_of l)) + 1"
proof -
  have q: "request_ok (cr_method q) (cr_path q) (cr_query q) (cr_headers q)" "method_of (cr_method q) \<notin> {kPost, kPut}"
      "plain_content (cr_headers q)" "asks_keepalive (cr_headers q)"
      "length (render_head (cr_method q) (cr_path q) (cr_query q) (cr_headers q) @ []) \<le> 1024 * 1024"
    using assms(3) by (simp_all add: keeps_open_def request_bytes_def)
  have h: "handleRequest (lg_router l) (lg_chain l) r (new_response (\<not> asks_keepalive (cr_headers q)), lg_app l) = Some (resp, st)"
    if "stands_for (cr_method q) (cr_path q) (cr_query q) (cr_headers q) r" for r
    using assms(4) [of r] that q(4) by (simp add: asked_as_def)
  have o: "appendToBuffer resp [] \<noteq> []" "appendToBuffer resp [] \<noteq> bad_request" "length (appendToBuffer resp []) \<le> k"
    using assms(5) by (simp_all add: sendable_def)
  from request_served [OF assms(1) q(1-3,5) h refl o, of t env] q(4) assms(2) show ?thesis
    by (auto simp: exchange_def request_bytes_def simp del: worker_do.simps conn_nt_sock)
qed

lemma conversation_run:
  assumes "awaits_requests (length qs + n) a l" and "in_step a l" and "\<forall>q \<in> set qs. keeps_open q"
    and "answered (lg_router l) (lg_chain l) (lg_app l) qs outs st" and "\<forall>out \<in> set outs. sendable k out"
  shows "\<exists>l'. run_actions (concat (map (exchange a env t k) qs)) l = Some l' \<and>
    nt_wire (lg_net l') = nt_wire (lg_net l) @ map (Pair (cn_fd (conn a (sock_of l)))) outs \<and> lg_app l' = st \<and>
    lg_router l' = lg_router l \<and> lg_chain l' = lg_chain l \<and> lg_waited l' = lg_waited l \<and>
    cn_fd (conn a (sock_of l')) = cn_fd (conn a (sock_of l)) \<and> awaits_requests n a l' \<and> in_step a l' \<and>
    cn_iSendCount (conn a (sock_of l')) = cn_iSendCount (conn a (sock_of l)) + int (length qs)"
  using assms
proof (induction qs arbitrary: l outs)
  case Nil
  then show ?case by (auto elim: answered_NilE)
next
  case (Cons q qs)
  from Cons.prems(4) obtain resp st1 outs' where
    h: "\<And>r. asked_as q r \<Longrightarrow> handleRequest (lg_router l) (lg_chain l) r (new_response False, lg_app l) = Some (resp, st1)"
    and rest: "answered (lg_router l) (lg_chain l) st1 qs outs' st" and o: "outs = appendToBuffer resp [] # outs'"
    by (rule answered_ConsE) blast
  have "awaits_requests (Suc (length qs + n)) a l" "keeps_open q" "sendable k (appendToBuffer resp [])"
    using Cons.prems(1,3,5) o by simp_all
  from exchange_served [OF this(1) Cons.prems(2) this(2) h this(3), of env t] obtain l1 where
    l1: "run_actions (exchange a env t k q) l = Some l1" "lg_app l1 = st1" "lg_router l1 = lg_router l"
      "lg_chain l1 = lg_chain l" "lg_waited l1 = lg_waited l" "awaits_requests (length qs + n) a l1" "in_step a l1"
      "nt_wire (lg_net l1) = nt_wire (lg_net l) @ [(cn_fd (conn a (sock_of l)), appendToBuffer resp [])]"
      "cn_fd (conn a (sock_of l1)) = cn_fd (conn a (sock_of l))"
      "cn_iSendCount (conn a (sock_of l1)) = cn_iSendCount (conn a (sock_of l)) + 1"
    by blast
  have "answered (lg_router l1) (lg_chain l1) (lg_app l1) qs outs' st" using rest l1(2-4) by simp
  from Cons.IH [OF l1(6,7) _ this] Cons.prems(3,5) o l1 show ?case
    by (auto simp: run_actions_append simp del: conn_nt_sock)
qed

text \<open>
  C3: A worker refines the server without threads: on a connection that is kept open, the answers to
  a client's requests come out in order and without anything in between, each one what the
  sequential server answers in the state the one before left; the connection stays open and no thread
  waits for another. The bound is the count of 401 responses.
\<close>

theorem conversation_served:
  assumes "awaits_requests (length qs) a l" and "in_step a l" and "\<forall>q \<in> set qs. keeps_open q"
    and "answered (lg_router l) (lg_chain l) (lg_app l) qs outs st" and "\<forall>out \<in> set outs. sendable k out"
  shows "\<exists>l'. run_actions (concat (map (exchange a env t k) qs)) l = Some l' \<and>
    nt_wire (lg_net l') = nt_wire (lg_net l) @ map (Pair (cn_fd (conn a (sock_of l)))) outs \<and> lg_app l' = st \<and>
    cn_fd (conn a (sock_of l')) = cn_fd (conn a (sock_of l)) \<and> lg_waited l' = lg_waited l"
  using conversation_run [of qs 0 a l outs st k env t] assms by auto

lemma answered_append:
  assumes "answered rt ms st (qs @ qs') outs' st'"
  shows "\<exists>outs1 outs2 st1. outs' = outs1 @ outs2 \<and> answered rt ms st qs outs1 st1 \<and> answered rt ms st1 qs' outs2 st'"
  using assms
proof (induction qs arbitrary: st outs')
  case Nil
  then show ?case using answered.no_more by fastforce
next
  case (Cons q qs)
  from Cons.prems obtain resp st1 outs where
    h: "\<And>r. asked_as q r \<Longrightarrow> handleRequest rt ms r (new_response False, st) = Some (resp, st1)"
    and rest: "answered rt ms st1 (qs @ qs') outs st'" and o: "outs' = appendToBuffer resp [] # outs"
    by simp (erule answered_ConsE, blast)
  from Cons.IH [OF rest] obtain outs1 outs2 st2 where
    i: "outs = outs1 @ outs2" "answered rt ms st1 qs outs1 st2" "answered rt ms st2 qs' outs2 st'" by blast
  have "answered rt ms st (q # qs) (appendToBuffer resp [] # outs1) st2" by (rule answered.next_one [OF h i(2)])
  then show ?case using i(1,3) o by (intro exI [of _ "appendToBuffer resp [] # outs1"] exI [of _ outs2] exI [of _ st2]) simp
qed

lemma answered_length: "answered rt ms st qs outs st' \<Longrightarrow> length outs = length qs"
  by (induction rule: answered.induct) simp_all

lemma request_dropped:
  assumes "awaits_requests n a l" and "400 < cn_iSendCount (conn a (sock_of l))" and "keeps_open q"
    and "\<And>r. asked_as q r \<Longrightarrow>
      handleRequest (lg_router l) (lg_chain l) r (new_response False, lg_app l) = Some (resp, st)"
  shows "\<exists>l'. run_actions [Do_event t (read_event a (request_bytes q)), Do_recv env t] l = Some l' \<and>
    nt_wire (lg_net l') = nt_wire (lg_net l) \<and> so_MsgSendQueue (sock_of l') = [] \<and>
    cn_fd (conn a (sock_of l')) = -1 \<and> lg_app l' = st"
proof -
  let ?c = "conn a (sock_of l)"
  have q: "request_ok (cr_method q) (cr_path q) (cr_query q) (cr_headers q)" "method_of (cr_method q) \<notin> {kPost, kPut}"
      "plain_content (cr_headers q)" "asks_keepalive (cr_headers q)" "length (request_bytes q) \<le> 1024 * 1024"
    using assms(3) by (simp_all add: keeps_open_def)
  have "request_bytes q \<noteq> []" by (simp add: request_bytes_def render_head_def)
  from head_received [OF assms(1) this q(5), of t] obtain l1 where
    l1: "worker_do (Do_event t (read_event a (request_bytes q))) l = Goes_on l1"
      "lg_router l1 = lg_router l" "lg_chain l1 = lg_chain l" "lg_app l1 = lg_app l" "nt_wire (lg_net l1) = nt_wire (lg_net l)"
      "length (so_connectionList (sock_of l1)) = length (so_connectionList (sock_of l))" "so_MsgSendQueue (sock_of l1) = []"
      "conn a (sock_of l1) = ?c\<lparr>cn_sequence := cn_sequence ?c + 1\<rparr>"
      "so_MsgRecvQueue (sock_of l1) = [(\<lparr>mh_conn = a, mh_iCurrsequence = cn_iCurrsequence ?c, mh_sequence = cn_sequence ?c\<rparr>, request_bytes q)]"
    by blast
  note c1 = l1(8) [unfolded conn_nt_sock]
  have w: "fresh (cn_context ?c)" "a < length (so_connectionList (sock_of l1))"
    using assms(1) l1(6) by (simp_all add: awaits_requests_def using_client_def in_use_def)
  have "chunk_waiting (cn_sequence ?c) (cr_method q) (cr_path q) (cr_query q) (cr_headers q) [] a l1"
    unfolding chunk_waiting_def c1 l1(9) using w q by (simp add: request_bytes_def)
  from head_turn_net [OF this, of resp st env t] assms(4) q(4) l1(2-4) obtain cx where
    t: "ThreadFunc_turn env t l1 = Done (l1\<lparr>
      lg_net := reset_net a (msgSend t (appendToBuffer resp []) a (marked_net a False cx (lg_net l1))), lg_app := st,
      lg_waited := (if cx_sequence (cn_context (nconn a (lg_net l1))) = cn_sequence ?c then lg_waited l1 else lg_waited l1 + 5000)\<rparr>)"
    by (auto simp: asked_as_def)
  let ?m = "marked_net a False cx (lg_net l1)"
  have m: "400 < cn_iSendCount (nconn a ?m)" "so_MsgSendQueue (nt_sock ?m) = []" "a < length (so_connectionList (nt_sock ?m))"
    using assms(2) w(2) c1 l1(7) by (simp_all add: marked_net_state)
  let ?w = "msgSend t (appendToBuffer resp []) a ?m"
  have s: "so_MsgSendQueue (nt_sock ?w) = []" "cn_fd (nconn a ?w) = -1" "length (so_connectionList (nt_sock ?w)) = length (so_connectionList (nt_sock ?m))"
    using m by (simp_all add: msgSend_def Let_def)
  have "a < length (so_connectionList (nt_sock ?w))" using s(3) m(3) by simp
  note r = reset_net_state(1-4) reset_net_state(5) [OF this]
  have "nt_wire (reset_net a ?w) = nt_wire (lg_net l)" "so_MsgSendQueue (nt_sock (reset_net a ?w)) = []"
      "cn_fd (nconn a (reset_net a ?w)) = -1"
    using s l1(5) by (simp_all add: r msgSend_wire marked_net_state)
  then show ?thesis using l1(1) t by simp
qed

text \<open>
  C35: The refinement ends at 401 answers: when the client that got them asks once more, the answer the
  sequential server gives is thrown away and the connection is closed, although every answer before
  was sent at once, because the count of messages that wait on a connection is never taken down.
\<close>

theorem conversation_cut:
  assumes "awaits_requests 401 a l" and "in_step a l" and "\<forall>q \<in> set (qs @ [q0]). keeps_open q"
    and "answered (lg_router l) (lg_chain l) (lg_app l) (qs @ [q0]) (outs @ [out]) st"
    and "\<forall>o' \<in> set outs. sendable k o'" and "length qs = 401" and "cn_iSendCount (conn a (sock_of l)) = 0"
  shows "\<exists>l'. run_actions (concat (map (exchange a env t k) qs) @
      [Do_event t (read_event a (request_bytes q0)), Do_recv env t]) l = Some l' \<and>
    nt_wire (lg_net l') = nt_wire (lg_net l) @ map (Pair (cn_fd (conn a (sock_of l)))) outs \<and>
    so_MsgSendQueue (sock_of l') = [] \<and> cn_fd (conn a (sock_of l')) = -1 \<and> lg_app l' = st"
proof -
  obtain st1 where qs: "answered (lg_router l) (lg_chain l) (lg_app l) qs outs st1"
    and q0: "answered (lg_router l) (lg_chain l) st1 [q0] [out] st"
    using answered_append [OF assms(4)] answered_length by (fastforce simp: append_eq_append_conv)
  have "awaits_requests (length qs + 0) a l" using assms(1,6) by simp
  from conversation_run [OF this assms(2) _ qs assms(5), of env t] assms(3,6,7) obtain l1 where
    l1: "run_actions (concat (map (exchange a env t k) qs)) l = Some l1" "lg_app l1 = st1" "lg_router l1 = lg_router l"
      "lg_chain l1 = lg_chain l" "awaits_requests 0 a l1"
      "nt_wire (lg_net l1) = nt_wire (lg_net l) @ map (Pair (cn_fd (conn a (sock_of l)))) outs"
      "cn_iSendCount (conn a (sock_of l1)) = 401"
    by auto
  from q0 obtain resp where h: "\<And>r. asked_as q0 r \<Longrightarrow>
      handleRequest (lg_router l1) (lg_chain l1) r (new_response False, lg_app l1) = Some (resp, st)"
    unfolding l1(2-4) by (rule answered_ConsE) (auto elim: answered_NilE)
  from request_dropped [OF l1(5) _ _ h, where t = t and env = env] l1(7) assms(3) obtain l2 where
    "run_actions [Do_event t (read_event a (request_bytes q0)), Do_recv env t] l1 = Some l2"
    "nt_wire (lg_net l2) = nt_wire (lg_net l1)" "so_MsgSendQueue (sock_of l2) = []" "cn_fd (conn a (sock_of l2)) = -1"
    "lg_app l2 = st" by auto
  with l1 show ?thesis by (auto simp: run_actions_append simp del: run_actions.simps conn_nt_sock)
qed

section \<open>Witnesses\<close>

definition chat :: "nat logic" where
  "chat = \<lparr>lg_net = one_client [], lg_router = registerCallback kGet ''/a'' hello new_router, lg_chain = [], lg_app = 0,
     lg_waited = 0\<rparr>"

definition get_a :: client_request where
  "get_a = \<lparr>cr_method = ''GET'', cr_path = ''/a'', cr_query = [], cr_headers = [(''Connection'', ''keep-alive'')]\<rparr>"

definition hi :: bytes where
  "hi = appendToBuffer (setBody_rs ''hi'' (new_response False)) []"

lemma chat_waits: "n \<le> 401 \<Longrightarrow> awaits_requests n 0 chat" "in_step 0 chat" "cn_iSendCount (conn 0 (sock_of chat)) = 0"
    "cn_fd (conn 0 (sock_of chat)) = 7" "nt_wire (lg_net chat) = []"
proof -
  have c: "cn_context (nconn 0 (one_client [])) = reset (new_context 0)" "cn_sequence (nconn 0 (one_client [])) = 0"
      "cn_iSendCount (nconn 0 (one_client [])) = 0" "cn_fd (nconn 0 (one_client [])) = 7" "nt_wire (one_client []) = []"
      "nt_sem (one_client []) = 0" "so_MsgRecvQueue (nt_sock (one_client [])) = []" "so_MsgSendQueue (nt_sock (one_client [])) = []"
    by (simp_all add: one_client_def nconn_def conn_def GetOneToUse_def new_connection_def fresh_sock_def del: conn_nt_sock)
  have f: "fresh (reset (new_context 0))" "cx_sequence (reset (new_context 0)) = 0"
    by (rule fresh_reset) (simp add: reset_def new_context_def Let_def)
  show "n \<le> 401 \<Longrightarrow> awaits_requests n 0 chat"
    using one_client_served c f by (simp add: awaits_requests_def chat_def posted_def)
  show "in_step 0 chat" "cn_iSendCount (conn 0 (sock_of chat)) = 0" "cn_fd (conn 0 (sock_of chat)) = 7" "nt_wire (lg_net chat) = []"
    using c f by (simp_all add: in_step_def chat_def)
qed

lemma get_a_open: "keeps_open get_a"
proof -
  have "request_ok ''GET'' ''/a'' [] [(''Connection'', ''keep-alive'')]" "method_of ''GET'' \<notin> {kPost, kPut}"
    "plain_content [(''Connection'', ''keep-alive'')]" "asks_keepalive [(''Connection'', ''keep-alive'')]"
    by code_simp+
  moreover have "length (request_bytes get_a) \<le> 1024 * 1024"
    by (simp add: request_bytes_def get_a_def render_head_def request_line_def render_target_def render_headers_def)
  ultimately show ?thesis by (simp add: keeps_open_def get_a_def)
qed

lemma hi_sendable: "sendable (length hi) hi"
proof -
  have "hi \<noteq> []" "hi \<noteq> bad_request" by code_simp+
  then show ?thesis by (simp add: sendable_def)
qed

lemma chat_answered:
  "answered (lg_router chat) (lg_chain chat) n (replicate k get_a) (replicate k hi) (n + k)"
proof (induction k arbitrary: n)
  case (Suc k)
  have "handleRequest (lg_router chat) (lg_chain chat) r (new_response False, n) =
      Some (setBody_rs ''hi'' (new_response False), Suc n)" if "asked_as get_a r" for r
    using that by (simp add: chat_def asked_as_def get_a_def stands_for_def handleRequest_def route_def registerCallback_def
        new_router_def run_handler_def hello_def processAfter_def method_of_def Let_def)
  from answered.next_one [OF this Suc [of "Suc n"]] show ?case by (simp add: hi_def)
qed (simp add: answered.no_more)

theorem conversation_served_witness:
  "\<exists>l' :: nat logic. nt_wire (lg_net l') = [(7, hi), (7, hi), (7, hi)] \<and> lg_app l' = 3"
proof -
  have "awaits_requests (length (replicate 3 get_a)) 0 chat" by (rule chat_waits) simp
  moreover have "answered (lg_router chat) (lg_chain chat) (lg_app chat) (replicate 3 get_a) (replicate 3 hi) 3"
    using chat_answered [of 0 3] by (simp add: chat_def)
  moreover have "\<forall>q \<in> set (replicate 3 get_a). keeps_open q" "\<forall>out \<in> set (replicate 3 hi). sendable (length hi) out"
    using get_a_open hi_sendable by auto
  ultimately obtain l' :: "nat logic" where "nt_wire (lg_net l') = map (Pair 7) (replicate 3 hi)" "lg_app l' = 3"
    using conversation_served [of "replicate 3 get_a" 0 chat "replicate 3 hi" 3 "length hi" demo_env 0] chat_waits(2,4,5)
    by (auto simp del: conn_nt_sock)
  then show ?thesis by (intro exI [of _ l']) (simp add: numeral_3_eq_3)
qed

theorem conversation_cut_witness:
  "\<exists>l' :: nat logic. nt_wire (lg_net l') = replicate 401 (7, hi) \<and> cn_fd (conn 0 (sock_of l')) = -1 \<and> lg_app l' = 402"
proof -
  have r: "replicate 401 x @ [x] = replicate 402 x" for x :: 'x
    using replicate_append_same [of 401 x] replicate_Suc [of 401 x] by simp
  have q: "\<forall>q \<in> set (replicate 401 get_a @ [get_a]). keeps_open q" "\<forall>o' \<in> set (replicate 401 hi). sendable (length hi) o'"
    using get_a_open hi_sendable by auto
  have "answered (lg_router chat) (lg_chain chat) (lg_app chat) (replicate 401 get_a @ [get_a]) (replicate 401 hi @ [hi]) 402"
    using chat_answered [of 0 402] unfolding r by (simp add: chat_def)
  from conversation_cut [OF chat_waits(1) [OF order_refl] chat_waits(2) q(1) this q(2) length_replicate chat_waits(3), of demo_env 0]
  obtain l' :: "nat logic" where "nt_wire (lg_net l') = map (Pair 7) (replicate 401 hi)" "cn_fd (conn 0 (sock_of l')) = -1"
      "lg_app l' = 402"
    unfolding chat_waits(4,5) append_Nil by blast
  then show ?thesis by (intro exI [of _ l']) (simp only: map_replicate)
qed

end
