(* ===== verification/Spec2Isabelle.thy ===== *)
theory Spec2Isabelle
  imports Logic Session Logging Buffer LockFreeQueue ThreadPool Startup DbPool RedisSession Worker App Server Conversation
begin

text \<open>
  \<^bold>\<open>An HTTP server in the style of nginx, modelled and verified.\<close>

  \<^bold>\<open>The program.\<close> A master process starts worker processes and restarts them
  (\<open>src/server\<close>). Each worker has a listening socket of its own on the same port
  (\<open>SO_REUSEPORT\<close>), a pool of connections and an event loop on epoll
  (\<open>src/net\<close>). The loop accepts clients, receives chunks and puts them into a queue,
  from which the threads of a pool (\<open>src/threadPool\<close>) take them. A thread feeds the
  chunk to the parser of its connection (\<open>src/http\<close>); a complete request goes through
  the middleware (\<open>src/middleware\<close>), the router (\<open>src/route\<close>) and a
  handler of the program (\<open>src/app\<close>), with sessions (\<open>src/session\<close>) and a
  data base (\<open>src/dbconnpool\<close>), and the printed response is queued for the send threads
  (\<open>src/logic\<close>, \<open>src/net\<close>). What \<open>send\<close> does not take is kept
  in the connection for the event loop. A closed connection waits in a queue before it is used
  again. Messages carry the sequence number of their connection, so that one that is late is not
  sent to the next client.

  \<^bold>\<open>The theories\<close>, from the bottom up. Definitions have the names of the code;
  all paths are below \<open>src/my_nginx_event\<close>.

  \<^item> Prelude: bytes as characters, the searches, character classes and number conversions of
    the C and C++ libraries, \<open>std::map\<close> as a sorted association list. Systems:
    invariants of step relations, with and without a budget (locales
    \<open>invariant_system\<close>, \<open>metered_system\<close>), of which the pools, the threads
    and the worker are instances.
  \<^item> HttpRequest, HttpResponse (\<open>include/http\<close>,
    \<open>src/http/my_http_request.cpp\<close>, \<open>my_http_response.cpp\<close>): the two
    objects as records, with their setters, the query string, and the printer
    \<open>appendToBuffer\<close>. HttpContext (\<open>my_http_context.cpp\<close>): the parser's
    state machine, one function per step of \<open>parseRequest\<close>, with plain, chunk by chunk
    and multipart bodies; an exception, an abort and a loop without end are results. HttpParse: what
    it does with the requests clients write.
  \<^item> Buffer (\<open>include/http/Buffer.h\<close>): indices in a vector, and its contract as a
    queue of bytes (locale \<open>byte_queue\<close>). Timer (\<open>my_socket_time.cpp\<close>):
    the multimap of expiry times (locale \<open>due_queue\<close>).
  \<^item> Conf (\<open>my_conf.cpp\<close>): the configuration file. Logging
    (\<open>my_logger.cpp\<close>): the formatter and the lines of the log.
  \<^item> ConnPool (\<open>my_socket_conn.cpp\<close>, \<open>my_socket_accept.cpp\<close>, parts
    of \<open>my_socket.cpp\<close>): connections, the free list and the recycle queue, epoll's
    table, accepting and closing. SendPath (\<open>my_socket.cpp\<close>,
    \<open>my_http_request_callback.cpp\<close>): the read and write handlers,
    \<open>msgSend\<close>, one turn of a send thread, the event loop.
  \<^item> Router (\<open>router.cpp\<close>), Middleware (\<open>middlewareChain.cpp\<close>, the
    token bucket, the authentication; locale \<open>chain_invariant\<close>), Session
    (\<open>session.cpp\<close>, \<open>sessionManager.cpp\<close>,
    \<open>sessionStorage.cpp\<close>; locale \<open>session_storage\<close>), RedisSession
    (\<open>RedisSessionStorage.cpp\<close>, \<open>redisClient.cpp\<close>).
  \<^item> LockFreeQueue (\<open>include/threadPool/my_lockfreequeue.h\<close>): nodes on a heap and
    one atomic access per step. ThreadPool (\<open>my_threadpool.cpp\<close>): the threads and the
    thread that creates and stops them. DbPool (\<open>connectionPool.cpp\<close>,
    \<open>mysqlconn.cpp\<close>): the pool with its producer, recycler and borrowers.
  \<^item> Process (\<open>my_signal.cpp\<close>, \<open>my_process_cycle.cpp\<close>): signals, the
    process table, the master's loop. Startup (\<open>my_start.cpp\<close>,
    \<open>my_daemon.cpp\<close>, \<open>my_setproctitle.cpp\<close>): \<open>run\<close>, the
    daemon, titles on a byte memory. Worker (\<open>my_socket.cpp\<close>,
    \<open>my_event.cpp\<close>): a worker from its first call to its event loop.
  \<^item> Logic (\<open>my_slogic.cpp\<close>): from a received chunk to a queued response. App
    (\<open>demo1.cpp\<close>, \<open>include/server/my_server.h\<close>): the handlers, routes and
    middleware of the program.
  \<^item> NetSteps, Server: a worker as a whole, all its threads as interleaved turns on the shared
    state. Conversation: one client on an idle worker, from the bytes of its requests to the bytes
    of their answers, against a server without threads. This theory: the program on such a worker.

  \<^bold>\<open>State.\<close> A \<open>std::shared_ptr\<close> to a connection or a session is an
  index in a list, so sharing is visible; \<open>CSocket\<close> is the record \<open>csock\<close>,
  a worker's network \<open>net\<close> (with what went out on the wire), and a worker \<open>'s
  logic\<close>, with the application's state \<open>'s\<close>. Counters that can wrap are words of
  their width (sequence numbers, sizes); \<open>int\<close> members that the code only counts up and
  down by one are \<open>int\<close>. Errors are values: exceptions of handlers in
  \<open>cxx_exn\<close>, the ends of processes and threads in datatypes of their own
  (\<open>parse_result\<close>, \<open>handled\<close>, \<open>turn\<close>,
  \<open>recv_end\<close>, \<open>worker_start_end\<close>).

  \<^bold>\<open>What is shown\<close>, by group. Parsing: the invariant of the parser, which
  requests it reads as written however a body is cut into chunks, where an upload goes whose content
  is cut anywhere, and which inputs it never returns on: a cut line of the head, a cut delimiter of
  an upload. Routing and middleware: registration, the exact language of a dynamic route of ordinary
  characters, the order of the chain, the rate of the token bucket. Sessions: typing, resumption, no
  adoption of foreign identifiers, the Redis round trip and where it fails. Sending: nothing is lost
  or reordered by the write handler, a message is sent or kept, and the case in which kept bytes
  reach the next client. Concurrency: the lock-free queue refines a queue with one producer and one
  consumer, and uses freed memory with two consumers; the thread pool's bookkeeping, start and stop;
  the exclusive use of data base connections; processes and signals. Worker: the pool stays sound,
  no message that is current is for another client, and the process ends only in the processing of a
  request or, once a signal has interrupted the wait of a send thread, when such a thread finds its
  queue empty. Conversation: on a connection that is kept the worker refines a server that answers
  one request after the other, for 401 requests; the next answer is lost. Program: what each handler
  answers; here, the answer on the wire, and the limiter as a client meets it.

  \<^bold>\<open>Invariants of the worker.\<close> \<open>net_step\<close> are the steps everything
  on \<open>csock\<close> is made of, and \<open>served\<close> their invariant. It speaks of
  sequence numbers of 64 bits, which are assumed not to wrap: a step is taken only from a state in
  which they are below \<open>2 ^ 63\<close> (\<open>calm\<close>), and a turn counts one of them up
  by less than \<open>2 ^ 34\<close>. A signal may interrupt any wait for the semaphore, and then
  the semaphore runs ahead of the queue: \<open>worker_run\<close> counts these waits, and the
  worker's theorems say what can happen after them. \<open>event_possible\<close> is what epoll,
  \<open>accept\<close> and \<open>recv\<close> guarantee, in particular that an event is for a
  registered connection or one that waits to be freed.

  \<^bold>\<open>Loops.\<close> \<open>parse_loop\<close>, \<open>drain\<close>,
  \<open>ngx_get_connection\<close>, \<open>cstring\<close> and the destructor of the lock-free
  queue may run forever and are partial functions into \<open>option\<close>; that they return, or
  do not, is proved. The other loops are structural or have a measure. There is no fuel: the length
  of the list of answers the kernel gives to \<open>send\<close> or \<open>accept\<close> bounds the
  loops over them, and when it is used up the call is still blocked.

  \<^bold>\<open>Parameters.\<close> Code that is not in the repository is an argument: results of
  system calls and the clock, the file system, the MySQL client library
  (\<open>query_result\<close>, \<open>real_connect\<close>), the Redis server as the effect of its
  three commands, the JSON libraries. So is what \<open>std::regex\<close> does with a dynamic route
  whose pattern has characters with a meaning in an expression (\<open>std_regex\<close>). The
  hypotheses on them are documented behaviour and have instances.

  \<^bold>\<open>Granularity.\<close> Turns of threads are atomic in Server, SendPath, Logic and
  Worker; the queues between them are lists there. LockFreeQueue and ThreadPool model the finer
  steps, under sequential consistency: memory orders are left out. In ThreadPool a call that handles
  a message may return or never return. The refinement to an atomic queue holds for one producer and
  one consumer only, so with several pool or send threads, as configured, it is an assumption of the
  coarser theories, and LockFreeQueue shows how it fails. In Process the calls of the kernel are
  interleaved as its results allow.

  \<^bold>\<open>Not modelled.\<close> \<open>src/delete\<close> and \<open>include/deleted\<close>
  are commented out or unused. The old read and write handlers, \<open>clearMsgSendQueue\<close> and
  \<open>ngx_close_listening_sockets\<close> have no statements. Log lines are left out, but for
  those of the logger itself and the ones that report children. The experiments and measurements
  under \<open>test\<close> are programs of their own. \<open>double\<close> in the token bucket is
  rational: rounding is left out. The signal mask, \<open>umask\<close> and priorities are left out.
\<close>

section \<open>The program on a worker\<close>

definition let_through :: "app_world \<Rightarrow> app_world" where
  "let_through w = w\<lparr>dm_limits := (dm_limits w)\<lparr>ms_bucket :=
     snd (try_consume 1 (ms_now (dm_limits w)) (ms_bucket (dm_limits w)))\<rparr>\<rparr>"

definition has_token :: "app_world \<Rightarrow> bool" where
  "has_token w \<longleftrightarrow> fst (try_consume 1 (ms_now (dm_limits w)) (ms_bucket (dm_limits w)))"

definition runs_demo :: "app_env \<Rightarrow> app_world logic \<Rightarrow> bool" where
  "runs_demo e l \<longleftrightarrow> (let l' = demo_main e (l\<lparr>lg_router := new_router, lg_chain := []\<rparr>)
     in lg_router l = lg_router l' \<and> lg_chain l = lg_chain l')"

lemma limiter_passes:
  assumes "has_token w"
  shows "processBefore [Some demo_limiter] (r, w) = (Passed, r, let_through w)"
  using assms by (cases "try_consume 1 (ms_now (dm_limits w)) (ms_bucket (dm_limits w))")
    (simp add: demo_limiter_def rateLimiter_def has_token_def let_through_def)

lemma limiter_after: "processAfter [Some demo_limiter] (resp, w) = (resp, w)"
  by (simp add: processAfter_def demo_limiter_def rateLimiter_def)

lemma demo_answers:
  assumes "runs_demo e l" and "has_token (lg_app l)"
    and "\<And>l'. lg_router l' = new_router \<Longrightarrow>
      route (demo_router e l') r (resp, let_through (lg_app l)) = (Inr True, resp', let_through (lg_app l))"
  shows "handleRequest (lg_router l) (lg_chain l) r (resp, lg_app l) = Some (resp', let_through (lg_app l))"
proof -
  have "lg_chain l = [Some demo_limiter]"
    using assms(1) by (simp add: runs_demo_def Let_def demo_main_def server_defs addMiddleware_def)
  moreover have "route (lg_router l) r (resp, let_through (lg_app l)) = (Inr True, resp', let_through (lg_app l))"
    using assms(1) assms(3) [of "l\<lparr>lg_router := new_router, lg_chain := []\<rparr>"] by (simp add: runs_demo_def Let_def)
  ultimately show ?thesis by (simp add: handleRequest_def limiter_passes [OF assms(2)] limiter_after del: processBefore.simps)
qed

definition connection_header :: "bool \<Rightarrow> string" where
  "connection_header keep = (if keep then ''Connection: Keep-Alive'' else ''Connection: close'')"

definition hello_answer :: "bool \<Rightarrow> bytes" where
  "hello_answer keep = ''HTTP/1.1 200 OK'' @ crlf @ connection_header keep @ crlf @
     ''Content-Length: 11'' @ crlf @ ''Content-Type: text/plain; charset=utf-8'' @ crlf @ crlf @ ''hello world''"

definition hello_response :: "bool \<Rightarrow> http_response" where
  "hello_response keep = setContentLength_rs 11 (setBody_rs ''hello world''
     (setContentType ''text/plain; charset=utf-8'' (setStatusLine ''HTTP/1.1'' k200Ok ''OK'' (new_response (\<not> keep)))))"

lemma hello_printed: "appendToBuffer (hello_response keep) [] = hello_answer keep"
  by (cases keep; (simp only: hello_response_def hello_answer_def); code_simp)

lemma hello_routed:
  assumes "lg_router l = new_router" and "rq_method r = kGet" and "rq_path r = ''/hello''" and "rq_version r = ''HTTP/1.1''"
  shows "route (demo_router e l) r (new_response (\<not> keep), w) = (Inr True, hello_response keep, w)"
  using assms by (simp add: route_def demo_main_def server_defs new_router_def run_handler_def hello_handler_def hello_response_def)

lemma get_stands:
  assumes "stands_for ''GET'' path ps hs r"
  shows "rq_method r = kGet" and "rq_path r = path" and "rq_version r = ''HTTP/1.1''"
    and "getHeader f r = lookup_str (map_of (rev hs)) f"
  using assms by (simp_all add: stands_for_def getHeader_def method_of_def)


definition video_answer :: "bool \<Rightarrow> bytes \<Rightarrow> bytes" where
  "video_answer keep content = ''HTTP/1.1 200 OK'' @ crlf @ connection_header keep @ crlf @
     ''Content-Type: video/mp4'' @ crlf @ ''Transfer-Encoding: chunked'' @ crlf @ crlf @ chunked_body content"

definition video_response :: "bool \<Rightarrow> bytes \<Rightarrow> http_response" where
  "video_response keep content = whole_response (new_request\<lparr>rq_version := ''HTTP/1.1''\<rparr>) content (new_response (\<not> keep))"

lemma video_printed: "appendToBuffer (video_response keep content) [] = video_answer keep content"
proof -
  have b: "appendToBuffer (setBody_rs c r) [] = appendToBuffer (setBody_rs [] r) [] @ c" for c r
    by (simp add: appendToBuffer_def setBody_rs_def status_prefix_def connection_line_def)
  have "appendToBuffer (setBody_rs [] (addHeader_rs ''Transfer-Encoding'' ''chunked'' (setContentType ''video/mp4''
      (setStatusLine ''HTTP/1.1'' k200Ok ''OK'' (new_response (\<not> keep)))))) [] =
    ''HTTP/1.1 200 OK'' @ crlf @ connection_header keep @ crlf @
     ''Content-Type: video/mp4'' @ crlf @ ''Transfer-Encoding: chunked'' @ crlf @ crlf" for keep
    by (cases keep; simp only:; code_simp)
  then show ?thesis
    unfolding video_response_def whole_response_def video_answer_def b [of "chunked_body content"] by simp
qed

lemma video_routed:
  assumes "lg_router l = new_router" and "rq_method r = kGet" and "rq_path r = ''/video/'' @ name"
    and "rq_version r = ''HTTP/1.1''" and "getHeader ''Range'' r = []" and "value_ok name" and "dm_videos w name = File content"
  shows "route (demo_router e l) r (new_response (\<not> keep), w) = (Inr True, video_response keep content, w)"
  unfolding video_reached [OF assms(1-3,6)] using assms(3-5,7)
  by (simp add: run_handler_def video_handler_def video_response_def whole_response_def)

lemma answers_differ: "hello_answer keep \<noteq> bad_request" "video_answer keep content \<noteq> bad_request"
  "hello_answer keep \<noteq> []" "video_answer keep content \<noteq> []"
  by (simp_all add: hello_answer_def video_answer_def bad_request_def)

text \<open>
  C4: \<open>GET /hello\<close> end to end: the bytes of the request, received by the event loop on a client's
  connection, taken from the queue by a thread of the pool and answered through the program's
  limiter and routes, come out of a send thread on the same descriptor as exactly the bytes of
  the answer, in one piece; the connection then waits for the next request, or is closed if the
  client did not ask to keep it.
\<close>

theorem hello_served:
  assumes "awaits_request a l" and "runs_demo e l" and "has_token (lg_app l)"
    and "request_ok ''GET'' ''/hello'' ps hs" and "plain_content hs"
    and "length (render_head ''GET'' ''/hello'' ps hs @ b) \<le> 1024 * 1024"
    and "length (hello_answer (asks_keepalive hs)) \<le> k"
  shows "\<exists>l1 l2 l3. worker_do (Do_event t (read_event a (render_head ''GET'' ''/hello'' ps hs @ b))) l = Goes_on l1 \<and>
    worker_do (Do_recv env t) l1 = Goes_on l2 \<and> worker_do (Do_send False True t [Sent k]) l2 = Goes_on l3 \<and>
    nt_wire (lg_net l3) = nt_wire (lg_net l) @ [(cn_fd (conn a (sock_of l)), hello_answer (asks_keepalive hs))] \<and>
    fresh (cn_context (conn a (sock_of l3))) \<and>
    cn_fd (conn a (sock_of l3)) = (if asks_keepalive hs then cn_fd (conn a (sock_of l)) else -1)"
proof -
  have h: "handleRequest (lg_router l) (lg_chain l) r (new_response (\<not> asks_keepalive hs), lg_app l) =
      Some (hello_response (asks_keepalive hs), let_through (lg_app l))" if "stands_for ''GET'' ''/hello'' ps hs r" for r
    using demo_answers [OF assms(2,3) hello_routed] get_stands [OF that] by blast
  have m: "method_of ''GET'' \<notin> {kPost, kPut}" by (simp add: method_of_def)
  from request_served [OF assms(1) [unfolded One_nat_def] assms(4) m assms(5,6) h hello_printed _ _ assms(7)] answers_differ show ?thesis by blast
qed

text \<open>
  C9: A video end to end: the answer to \<open>GET /video/name\<close> that comes out on the client's
  descriptor is the head of a chunked message and a body that a client decodes to the file,
  whatever its size.
\<close>

theorem video_served:
  assumes "awaits_request a l" and "runs_demo e l" and "has_token (lg_app l)"
    and "request_ok ''GET'' (''/video/'' @ name) ps hs" and "plain_content hs" and "value_ok name"
    and "length (render_head ''GET'' (''/video/'' @ name) ps hs @ b) \<le> 1024 * 1024"
    and "lookup_str (map_of (rev hs)) ''Range'' = []" and "dm_videos (lg_app l) name = File content"
    and "length (video_answer (asks_keepalive hs) content) \<le> k"
  shows "\<exists>l1 l2 l3 head body.
    worker_do (Do_event t (read_event a (render_head ''GET'' (''/video/'' @ name) ps hs @ b))) l = Goes_on l1 \<and>
    worker_do (Do_recv env t) l1 = Goes_on l2 \<and> worker_do (Do_send False True t [Sent k]) l2 = Goes_on l3 \<and>
    nt_wire (lg_net l3) = nt_wire (lg_net l) @ [(cn_fd (conn a (sock_of l)), head @ body)] \<and>
    head = ''HTTP/1.1 200 OK'' @ crlf @ connection_header (asks_keepalive hs) @ crlf @
      ''Content-Type: video/mp4'' @ crlf @ ''Transfer-Encoding: chunked'' @ crlf @ crlf \<and>
    decode_chunked body = Some content"
proof -
  have w: "dm_videos (let_through (lg_app l)) name = File content" using assms(9) by (simp add: let_through_def)
  have h: "handleRequest (lg_router l) (lg_chain l) r (new_response (\<not> asks_keepalive hs), lg_app l) =
      Some (video_response (asks_keepalive hs) content, let_through (lg_app l))"
    if "stands_for ''GET'' (''/video/'' @ name) ps hs r" for r
  proof (rule demo_answers [OF assms(2,3)])
    fix l' :: "app_world logic" assume "lg_router l' = new_router"
    then show "route (demo_router e l') r (new_response (\<not> asks_keepalive hs), let_through (lg_app l)) =
        (Inr True, video_response (asks_keepalive hs) content, let_through (lg_app l))"
      using get_stands [OF that] assms(8) by (intro video_routed [OF _ _ _ _ _ assms(6) w]) simp_all
  qed
  have m: "method_of ''GET'' \<notin> {kPost, kPut}" by (simp add: method_of_def)
  from request_served [OF assms(1) [unfolded One_nat_def] assms(4) m assms(5,7) h video_printed _ _ assms(10)] answers_differ
  obtain l1 l2 l3 where r: "worker_do (Do_event t (read_event a (render_head ''GET'' (''/video/'' @ name) ps hs @ b))) l = Goes_on l1"
    "worker_do (Do_recv env t) l1 = Goes_on l2" "worker_do (Do_send False True t [Sent k]) l2 = Goes_on l3"
    "nt_wire (lg_net l3) = nt_wire (lg_net l) @ [(cn_fd (conn a (sock_of l)), video_answer (asks_keepalive hs) content)]"
    by blast
  have v: "video_answer keep content = (''HTTP/1.1 200 OK'' @ crlf @ connection_header keep @ crlf @
      ''Content-Type: video/mp4'' @ crlf @ ''Transfer-Encoding: chunked'' @ crlf @ crlf) @ chunked_body content" for keep
    by (simp add: video_answer_def)
  show ?thesis
    by (intro exI conjI, rule r(1), rule r(2), rule r(3), rule r(4) [unfolded v], rule refl, rule decode_body)
qed


section \<open>The limiter in a conversation\<close>

text \<open>The tokens a request finds, and what the limiter leaves.\<close>

definition tokens_left :: "app_world \<Rightarrow> rat" where
  "tokens_left w = tb_tokens (refill_tokens (ms_now (dm_limits w)) (ms_bucket (dm_limits w)))"

definition turned_away :: "app_world \<Rightarrow> app_world" where
  "turned_away w = w\<lparr>dm_limits := (dm_limits w)\<lparr>ms_bucket :=
     refill_tokens (ms_now (dm_limits w)) (ms_bucket (dm_limits w))\<rparr>\<rparr>"

definition too_many :: bytes where
  "too_many = appendToBuffer (exception_response (HttpException k429TooManyRequests ''Too Many Requests'') (new_response False)) []"

lemma has_token_iff: "has_token w \<longleftrightarrow> 1 \<le> tokens_left w"
  by (simp add: has_token_def tokens_left_def try_consume_def Let_def)

lemma refill_again: "0 \<le> d \<Longrightarrow> b' = (refill_tokens t b)\<lparr>tb_tokens := tb_tokens (refill_tokens t b) - d\<rparr> \<Longrightarrow>
    tb_tokens (refill_tokens t b') = tb_tokens (refill_tokens t b) - d"
  by (simp add: refill_tokens_def Let_def min_def)

lemma tokens_after: "has_token w \<Longrightarrow> tokens_left (let_through w) = tokens_left w - 1"
  using refill_again [of 1] by (simp add: has_token_iff) (simp add: tokens_left_def let_through_def try_consume_def Let_def)

lemma tokens_unchanged: "tokens_left (turned_away w) = tokens_left w"
  using refill_again [of 0] by (simp add: tokens_left_def turned_away_def)

lemma limiter_refuses:
  assumes "\<not> has_token w"
  shows "processBefore [Some demo_limiter] (r, w) =
    (Raised (HttpException k429TooManyRequests ''Too Many Requests''), r, turned_away w)"
  using assms by (simp add: demo_limiter_def rateLimiter_def has_token_def turned_away_def try_consume_def Let_def split: if_splits)

lemma runs_demoD:
  assumes "runs_demo e l"
  obtains l' where "lg_chain l = [Some demo_limiter]" "lg_router l = demo_router e l'" "lg_router l' = new_router"
  using assms that [of "l\<lparr>lg_router := new_router, lg_chain := []\<rparr>"]
  by (simp add: runs_demo_def Let_def demo_main_def server_defs addMiddleware_def)

text \<open>A request for \<open>/hello\<close> that keeps the connection.\<close>

definition hello_request :: "client_request \<Rightarrow> bool" where
  "hello_request q \<longleftrightarrow> keeps_open q \<and> cr_method q = ''GET'' \<and> cr_path q = ''/hello''"

lemma hello_once:
  assumes "runs_demo e l" and "hello_request q" and "asked_as q r"
  shows "handleRequest (lg_router l) (lg_chain l) r (new_response False, w) =
    Some (if has_token w then (hello_response True, let_through w)
          else (exception_response (HttpException k429TooManyRequests ''Too Many Requests'') (new_response False), turned_away w))"
proof -
  obtain l' where l': "lg_chain l = [Some demo_limiter]" "lg_router l = demo_router e l'" "lg_router l' = new_router"
    using assms(1) by (rule runs_demoD)
  have r: "stands_for ''GET'' ''/hello'' (cr_query q) (cr_headers q) r"
    using assms(2,3) by (simp add: hello_request_def asked_as_def)
  have "route (demo_router e l') r (new_response False, let_through w) = (Inr True, hello_response True, let_through w)"
    using hello_routed [OF l'(3) get_stands(1-3) [OF r], of e True "let_through w"] by simp
  then show ?thesis
    by (simp add: handleRequest_def l'(1,2) limiter_passes limiter_refuses limiter_after del: processBefore.simps)
qed

definition limited_answers :: "rat \<Rightarrow> nat \<Rightarrow> bytes list" where
  "limited_answers tokens n =
     (let g = min n (nat \<lfloor>tokens\<rfloor>) in replicate g (hello_answer True) @ replicate (n - g) too_many)"

lemma limited_Suc:
  "limited_answers tokens (Suc n) =
     (if 1 \<le> tokens then hello_answer True # limited_answers (tokens - 1) n else too_many # limited_answers tokens n)"
proof (cases "1 \<le> tokens")
  case True
  then have "1 \<le> \<lfloor>tokens\<rfloor>" by simp
  then have "nat \<lfloor>tokens\<rfloor> = Suc (nat \<lfloor>tokens - 1\<rfloor>)" by (simp add: nat_eq_iff)
  then show ?thesis using True by (simp add: limited_answers_def Let_def)
next
  case False
  then have "nat \<lfloor>tokens\<rfloor> = 0" by (simp add: floor_less_one)
  then show ?thesis using False by (simp add: limited_answers_def Let_def)
qed

lemma hellos_answered:
  assumes "runs_demo e l" and "\<forall>q \<in> set qs. hello_request q"
  shows "\<exists>w'. answered (lg_router l) (lg_chain l) w qs (limited_answers (tokens_left w) (length qs)) w'"
  using assms(2)
proof (induction qs arbitrary: w)
  case Nil
  then show ?case by (auto simp: limited_answers_def intro: answered.no_more)
next
  case (Cons q qs)
  then have q: "hello_request q" by simp
  show ?case
  proof (cases "has_token w")
    case True
    obtain w' where "answered (lg_router l) (lg_chain l) (let_through w) qs (limited_answers (tokens_left w - 1) (length qs)) w'"
      using Cons.IH [of "let_through w"] Cons.prems tokens_after [OF True] by auto
    from answered.next_one [OF _ this, of q w "hello_response True"] hello_once [OF assms(1) q] True show ?thesis
      by (auto simp: limited_Suc has_token_iff hello_printed)
  next
    case False
    obtain w' where "answered (lg_router l) (lg_chain l) (turned_away w) qs (limited_answers (tokens_left w) (length qs)) w'"
      using Cons.IH [of "turned_away w"] Cons.prems tokens_unchanged by auto
    from answered.next_one [OF _ this, of q w
        "exception_response (HttpException k429TooManyRequests ''Too Many Requests'') (new_response False)"]
      hello_once [OF assms(1) q] False show ?thesis
      by (auto simp: limited_Suc has_token_iff too_many_def)
  qed
qed

text \<open>
  C12: The rate limiter as a client meets it: as long as the answers on the connection are not more
  than 401, of the requests for \<open>/hello\<close> that one client sends on it at one instant exactly as many
  as the bucket has whole tokens are answered with the page and all the others with a 429, in this
  order, and the connection stays open. The answer after these is thrown away and the connection
  closed (\<open>conversation_cut\<close>).
\<close>

theorem limited_conversation:
  assumes "awaits_requests (length qs) a l" and "in_step a l" and "runs_demo e l" and "\<forall>q \<in> set qs. hello_request q"
    and "cn_iSendCount (conn a (sock_of l)) + int (length qs) \<le> 401"
    and "length (hello_answer True) \<le> k" and "length too_many \<le> k"
  shows "\<exists>l'. run_actions (concat (map (exchange a env t k) qs)) l = Some l' \<and>
    nt_wire (lg_net l') = nt_wire (lg_net l) @ map (Pair (cn_fd (conn a (sock_of l))))
      (replicate (min (length qs) (nat \<lfloor>tokens_left (lg_app l)\<rfloor>)) (hello_answer True) @
       replicate (length qs - nat \<lfloor>tokens_left (lg_app l)\<rfloor>) too_many) \<and>
    cn_fd (conn a (sock_of l')) = cn_fd (conn a (sock_of l))"
proof -
  have "too_many \<noteq> []" "too_many \<noteq> bad_request" by code_simp+
  then have s: "sendable k (hello_answer True)" "sendable k too_many"
    using answers_differ assms(6,7) by (simp_all add: sendable_def)
  have o: "limited_answers (tokens_left (lg_app l)) (length qs) =
      replicate (min (length qs) (nat \<lfloor>tokens_left (lg_app l)\<rfloor>)) (hello_answer True) @
      replicate (length qs - nat \<lfloor>tokens_left (lg_app l)\<rfloor>) too_many"
    by (simp add: limited_answers_def Let_def min_def)
  have k: "\<forall>q \<in> set qs. keeps_open q" using assms(4) by (simp add: hello_request_def)
  obtain w' where "answered (lg_router l) (lg_chain l) (lg_app l) qs (limited_answers (tokens_left (lg_app l)) (length qs)) w'"
    using hellos_answered [OF assms(3,4)] by blast
  moreover have "\<forall>out \<in> set (replicate (min (length qs) (nat \<lfloor>tokens_left (lg_app l)\<rfloor>)) (hello_answer True) @
      replicate (length qs - nat \<lfloor>tokens_left (lg_app l)\<rfloor>) too_many). sendable k out"
    using s by auto
  moreover have "awaits_requests (length qs + 0) a l" using assms(1) by simp
  ultimately show ?thesis
    using conversation_run [OF _ assms(2) k, of 0 _ w' k env t] unfolding o by blast
qed

section \<open>Witnesses\<close>

definition demo_served :: "app_world logic" where
  "demo_served = (let l = demo_main demo_env0 (worker_logic (nt_sock (one_client [])) new_router [] demo_world0)
     in l\<lparr>lg_net := one_client []\<rparr>)"

lemma demo_served_facts:
  "awaits_request 0 demo_served" "runs_demo demo_env0 demo_served" "has_token (lg_app demo_served)"
  "lg_app demo_served = demo_world0" "lg_net demo_served = one_client []"
  "n \<le> 401 \<Longrightarrow> awaits_requests n 0 demo_served" "in_step 0 demo_served"
proof -
  have s: "fresh (cn_context (nconn 0 (one_client [])))" "so_MsgRecvQueue (nt_sock (one_client [])) = []" "nt_sem (one_client []) = 0"
      "so_MsgSendQueue (nt_sock (one_client [])) = []" "cn_iSendCount (nconn 0 (one_client [])) = 0"
    by (simp_all add: one_client_def nconn_def conn_def GetOneToUse_def fresh_sock_def del: conn_nt_sock)
  have q: "cx_sequence (cn_context (nconn 0 (one_client []))) = cn_sequence (nconn 0 (one_client []))"
    by (simp add: one_client_def nconn_def conn_def GetOneToUse_def new_connection_def fresh_sock_def reset_def
        new_context_def Let_def del: conn_nt_sock)
  show n: "lg_net demo_served = one_client []" by (simp add: demo_served_def Let_def)
  show w: "awaits_requests m 0 demo_served" if "m \<le> 401" for m
    using one_client_served s that by (simp add: awaits_requests_def n posted_def)
  show "awaits_request 0 demo_served" by (rule w) simp
  show "in_step 0 demo_served" using q by (simp add: in_step_def n)
  show a: "lg_app demo_served = demo_world0"
    by (simp add: demo_served_def Let_def demo_main_def server_defs worker_logic_def)
  show "has_token (lg_app demo_served)"
    unfolding a by (simp add: has_token_def demo_world0_def try_consume_def refill_tokens_def new_bucket_def Let_def
        to_double_def rat_number_collapse)
  show "runs_demo demo_env0 demo_served"
    by (simp add: runs_demo_def demo_served_def Let_def demo_main_def server_defs worker_logic_def addMiddleware_def)
qed

abbreviation keep_alive :: "(string \<times> string) list" where
  "keep_alive \<equiv> [(''Connection'', ''keep-alive'')]"

theorem hello_served_witness:
  "\<exists>l3 :: app_world logic. nt_wire (lg_net l3) = [(7, hello_answer True)] \<and> cn_fd (conn 0 (sock_of l3)) = 7"
proof -
  have c: "request_ok ''GET'' ''/hello'' [] keep_alive" "plain_content keep_alive" "asks_keepalive keep_alive"
    by code_simp+
  have n: "length (render_head ''GET'' ''/hello'' [] keep_alive @ []) \<le> 1024 * 1024"
    by (simp add: render_head_def request_line_def render_target_def render_headers_def)
  have w: "cn_fd (conn 0 (sock_of demo_served)) = 7" "nt_wire (lg_net demo_served) = []"
    by (simp_all add: demo_served_facts(5))
  from hello_served [OF demo_served_facts(1-3) c(1,2) n order_refl, of 0 demo_env]
  obtain l3 :: "app_world logic" where "nt_wire (lg_net l3) = [(7, hello_answer True)]" "cn_fd (conn 0 (sock_of l3)) = 7"
    unfolding w using c(3) by (simp del: worker_do.simps conn_nt_sock) blast
  then show ?thesis by blast
qed

theorem video_served_witness:
  "\<exists>(l3 :: app_world logic) head body. nt_wire (lg_net l3) = [(7, head @ body)] \<and> decode_chunked body = Some demo_file"
proof -
  let ?name = "''a.mp4''"
  have c: "request_ok ''GET'' (''/video/'' @ ?name) [] keep_alive" "plain_content keep_alive" "asks_keepalive keep_alive"
      "lookup_str (map_of (rev keep_alive)) ''Range'' = []"
    by code_simp+
  have n: "length (render_head ''GET'' (''/video/'' @ ?name) [] keep_alive @ []) \<le> 1024 * 1024"
    by (simp add: render_head_def request_line_def render_target_def render_headers_def)
  have w: "cn_fd (conn 0 (sock_of demo_served)) = 7" "nt_wire (lg_net demo_served) = []"
    by (simp_all add: demo_served_facts(5))
  have v: "value_ok ?name" by (simp add: value_ok_def)
  have f: "dm_videos (lg_app demo_served) ?name = File demo_file" by (simp add: demo_served_facts(4) demo_world0_def)
  from video_served [OF demo_served_facts(1-3) c(1,2) v n c(4) f order_refl, of 0 demo_env]
  obtain l3 :: "app_world logic" and head body where "nt_wire (lg_net l3) = [(7, head @ body)]" "decode_chunked body = Some demo_file"
    unfolding w by (simp only: append_Nil) blast
  then show ?thesis by blast
qed

theorem limited_conversation_witness:
  "\<exists>l' :: app_world logic. nt_wire (lg_net l') = replicate 200 (7, hello_answer True) @ replicate 100 (7, too_many) \<and>
     cn_fd (conn 0 (sock_of l')) = 7"
proof -
  let ?q = "\<lparr>cr_method = ''GET'', cr_path = ''/hello'', cr_query = [], cr_headers = keep_alive\<rparr>"
  have c: "request_ok ''GET'' ''/hello'' [] keep_alive" "plain_content keep_alive" "asks_keepalive keep_alive"
      "method_of ''GET'' \<notin> {kPost, kPut}" "length (hello_answer True) \<le> 1000" "length too_many \<le> 1000"
    by code_simp+
  have n: "length (request_bytes ?q) \<le> 1024 * 1024"
    by (simp add: request_bytes_def render_head_def request_line_def render_target_def render_headers_def)
  have q: "\<forall>q \<in> set (replicate 300 ?q). hello_request q"
    using c n by (simp add: hello_request_def keeps_open_def)
  have w: "cn_fd (conn 0 (sock_of demo_served)) = 7" "nt_wire (lg_net demo_served) = []"
    by (simp_all add: demo_served_facts(5))
  have t: "nat \<lfloor>tokens_left (lg_app demo_served)\<rfloor> = 200"
    by (simp add: demo_served_facts(4) tokens_left_def demo_world0_def refill_tokens_def new_bucket_def Let_def
        to_double_def rat_number_collapse)
  have "awaits_requests (length (replicate 300 ?q)) 0 demo_served" by (rule demo_served_facts(6)) simp
  moreover from this have "cn_iSendCount (conn 0 (sock_of demo_served)) + int (length (replicate 300 ?q)) \<le> 401"
    unfolding awaits_requests_def by blast
  ultimately have sv: "awaits_requests (length (replicate 300 ?q)) 0 demo_served"
    "cn_iSendCount (conn 0 (sock_of demo_served)) + int (length (replicate 300 ?q)) \<le> 401" by blast+
  from limited_conversation [OF sv(1) demo_served_facts(7) demo_served_facts(2) q sv(2) c(5,6), of demo_env 0]
  obtain l' :: "app_world logic" where "nt_wire (lg_net l') =
      map (Pair 7) (replicate (min 300 200) (hello_answer True) @ replicate (300 - 200) too_many)" "cn_fd (conn 0 (sock_of l')) = 7"
    unfolding t w length_replicate append_Nil by blast
  then show ?thesis by (intro exI [of _ l']) simp
qed

end
